(* ===== verification/Vault_Prelude.thy ===== *)
theory Vault_Prelude
  imports Main "HOL-Library.Word" "HOL-Library.Sublist"
begin

text \<open>
  Shared vocabulary of the development: the identifier, time and byte types, the result
  type of fallible code, the list form of SQL statements (\<open>upd\<close> for UPDATE, \<open>del\<close> for
  DELETE, the library's \<open>filter\<close> and \<open>find\<close> for SELECT), two's complement 64- and 32-bit
  arithmetic of Rust's \<open>i64\<close> and \<open>i32\<close>, and the decimal \<open>Display\<close> of integers, with
  the lemmas every component uses.
\<close>

named_theorems row_simps \<open>rewrite rules for statements on lists of rows\<close>

subsection \<open>Basic types\<close>

text \<open>
  A UUID is an identifier: the code compares it, sorts it and tests it for nil (the
  all-zero value), so a natural number represents it. Times are microseconds.
\<close>

type_synonym uuid = nat
type_synonym timestamp = int
type_synonym bytes = "8 word list"

text \<open>The em dash of the source's messages, in UTF-8.\<close>

definition em_dash :: string where
  "em_dash = [CHR 0xE2, CHR 0x80, CHR 0x94]"

subsection \<open>Statements on lists of rows\<close>

definition upd :: "('r \<Rightarrow> bool) \<Rightarrow> ('r \<Rightarrow> 'r) \<Rightarrow> 'r list \<Rightarrow> 'r list" where
  "upd P f rs = map (\<lambda>r. if P r then f r else r) rs"

definition del :: "('r \<Rightarrow> bool) \<Rightarrow> 'r list \<Rightarrow> 'r list" where
  "del P rs = filter (\<lambda>r. \<not> P r) rs"

definition row_count :: "('r \<Rightarrow> bool) \<Rightarrow> 'r list \<Rightarrow> nat" where
  "row_count P rs = length (filter P rs)"

definition has_row :: "('r \<Rightarrow> bool) \<Rightarrow> 'r list \<Rightarrow> bool" where
  "has_row P rs = list_ex P rs"

text \<open>\<open>col = ANY($1)\<close> on a nullable column: NULL matches nothing.\<close>

definition opt_in :: "'k option \<Rightarrow> 'k list \<Rightarrow> bool" where
  "opt_in c ks = (case c of None \<Rightarrow> False | Some k \<Rightarrow> k \<in> set ks)"

lemma opt_in_iff: "opt_in c ks \<longleftrightarrow> (\<exists>k\<in>set ks. c = Some k)"
  by (auto simp: opt_in_def split: option.splits)

lemma opt_in_simps [simp]: "\<not> opt_in None ks" "opt_in (Some k) ks \<longleftrightarrow> k \<in> set ks" "\<not> opt_in c []"
  by (auto simp: opt_in_def split: option.splits)

lemma set_del [simp, row_simps]: "set (del P rs) = {r \<in> set rs. \<not> P r}"
  by (auto simp: del_def)

lemma set_upd [row_simps]: "set (upd P f rs) = (\<lambda>r. if P r then f r else r) ` set rs"
  by (simp add: upd_def)

lemma has_row_iff [simp, row_simps]: "has_row P rs \<longleftrightarrow> (\<exists>r\<in>set rs. P r)"
  by (auto simp: has_row_def list_ex_iff)

lemma in_upd_iff [row_simps]:
  "r' \<in> set (upd P f rs) \<longleftrightarrow> (\<exists>r\<in>set rs. r' = (if P r then f r else r))"
  by (auto simp: upd_def)

lemma ball_upd [row_simps]:
  "(\<forall>r\<in>set (upd P f rs). Q r) \<longleftrightarrow> (\<forall>r\<in>set rs. Q (if P r then f r else r))"
  by (auto simp: upd_def)

lemma bex_upd [row_simps]:
  "(\<exists>r\<in>set (upd P f rs). Q r) \<longleftrightarrow> (\<exists>r\<in>set rs. Q (if P r then f r else r))"
  by (auto simp: upd_def)

lemma length_upd [simp, row_simps]: "length (upd P f rs) = length rs"
  by (simp add: upd_def)

lemma map_upd_keep: "(\<And>r. P r \<Longrightarrow> k (f r) = k r) \<Longrightarrow> map k (upd P f rs) = map k rs"
  by (auto simp: upd_def)

lemma image_upd_keep: "(\<And>r. P r \<Longrightarrow> k (f r) = k r) \<Longrightarrow> k ` set (upd P f rs) = k ` set rs"
  by (metis list.set_map map_upd_keep)

lemma distinct_map_del: "distinct (map k rs) \<Longrightarrow> distinct (map k (del P rs))"
  by (simp add: del_def distinct_map_filter)

lemma row_count_0 [simp, row_simps]: "row_count P rs = 0 \<longleftrightarrow> (\<forall>r\<in>set rs. \<not> P r)"
  by (simp add: row_count_def filter_empty_conv)

lemma row_count_pos [simp, row_simps]: "0 < row_count P rs \<longleftrightarrow> (\<exists>r\<in>set rs. P r)"
  by (metis bot_nat_0.not_eq_extremum row_count_0)

lemma del_none: "(\<And>r. r \<in> set rs \<Longrightarrow> \<not> P r) \<Longrightarrow> del P rs = rs"
  by (simp add: del_def)

lemma upd_none: "(\<And>r. r \<in> set rs \<Longrightarrow> \<not> P r) \<Longrightarrow> upd P f rs = rs"
  by (simp add: upd_def map_idI)

lemma filter_upd_other:
  "(\<And>r. r \<in> set rs \<Longrightarrow> Q r \<Longrightarrow> \<not> P r) \<Longrightarrow> (\<And>r. r \<in> set rs \<Longrightarrow> P r \<Longrightarrow> \<not> Q (f r)) \<Longrightarrow>
    filter Q (upd P f rs) = filter Q rs"
  by (induction rs) (auto simp: upd_def)

lemma filter_del_other:
  "(\<And>r. r \<in> set rs \<Longrightarrow> Q r \<Longrightarrow> \<not> P r) \<Longrightarrow> filter Q (del P rs) = filter Q rs"
  by (induction rs) (auto simp: del_def)

lemma unique_key: "distinct (map k rs) \<Longrightarrow> r \<in> set rs \<Longrightarrow> r' \<in> set rs \<Longrightarrow> k r = k r' \<Longrightarrow> r = r'"
  by (meson distinct_map inj_onD)

lemma find_Some_in: "find P rs = Some r \<Longrightarrow> r \<in> set rs \<and> P r"
  by (induction rs) (auto split: if_splits)

lemma find_None_all: "find P rs = None \<longleftrightarrow> (\<forall>r\<in>set rs. \<not> P r)"
  by (auto simp: find_None_iff)

lemma find_unique:
  assumes "distinct (map k rs)" and "r \<in> set rs" and "P r" and "\<And>r'. P r' \<Longrightarrow> k r' = k r"
  shows "find P rs = Some r"
proof -
  obtain r' where r': "find P rs = Some r'"
    using assms(2,3) find_None_all by fastforce
  then have "r' \<in> set rs" "P r'" by (auto dest: find_Some_in)
  then have "r' = r" using assms by (blast intro: unique_key)
  then show ?thesis using r' by simp
qed

subsection \<open>Two's complement arithmetic\<close>

text \<open>
  The release profile of the crate leaves overflow checks off, so \<open>+\<close>, \<open>+=\<close> and \<open>as\<close>
  casts on \<open>i64\<close> and \<open>i32\<close> wrap around.
\<close>

definition wrap_i64 :: "int \<Rightarrow> int" where
  "wrap_i64 x = (x + 2 ^ 63) mod 2 ^ 64 - 2 ^ 63"

definition wrap_i32 :: "int \<Rightarrow> int" where
  "wrap_i32 x = (x + 2 ^ 31) mod 2 ^ 32 - 2 ^ 31"

definition in_i64 :: "int \<Rightarrow> bool" where
  "in_i64 x \<longleftrightarrow> - (2 ^ 63) \<le> x \<and> x < 2 ^ 63"

definition in_i32 :: "int \<Rightarrow> bool" where
  "in_i32 x \<longleftrightarrow> - (2 ^ 31) \<le> x \<and> x < 2 ^ 31"

lemma wrap_i64_id: "in_i64 x \<Longrightarrow> wrap_i64 x = x"
  by (simp add: wrap_i64_def in_i64_def)

lemma wrap_i64_in: "in_i64 (wrap_i64 x)"
  by (simp add: wrap_i64_def in_i64_def)

lemma wrap_i32_id: "in_i32 x \<Longrightarrow> wrap_i32 x = x"
  by (simp add: wrap_i32_def in_i32_def)

lemma wrap_i64_add: "wrap_i64 (wrap_i64 x + y) = wrap_i64 (x + y)"
proof -
  have "(((x + 2 ^ 63) mod 2 ^ 64 - 2 ^ 63) + y + 2 ^ 63) mod (2 ^ 64 :: int)
        = ((x + 2 ^ 63) mod 2 ^ 64 + y) mod 2 ^ 64"
    by (simp add: algebra_simps)
  also have "\<dots> = (x + y + 2 ^ 63) mod 2 ^ 64"
    by (simp only: mod_add_left_eq) (simp add: algebra_simps)
  finally show ?thesis by (simp add: wrap_i64_def)
qed

text \<open>The written-out wrap-around is the signed reading of a 64-bit word.\<close>

lemma wrap_i64_word: "wrap_i64 x = sint (word_of_int x :: 64 word)"
proof -
  have "sint (word_of_int x :: 64 word) = signed_take_bit 63 x"
    by (simp add: signed_of_int)
  also have "\<dots> = (x + 2 ^ 63) mod 2 ^ 64 - 2 ^ 63"
    by (simp add: signed_take_bit_eq_take_bit_shift take_bit_eq_mod)
  finally show ?thesis by (simp add: wrap_i64_def)
qed

subsection \<open>Decimal display of integers\<close>

definition digit :: "nat \<Rightarrow> char" where
  "digit d = ''0123456789'' ! d"

fun show_nat :: "nat \<Rightarrow> string" where
  "show_nat n = (if n < 10 then [digit n] else show_nat (n div 10) @ [digit (n mod 10)])"

declare show_nat.simps [simp del]

definition show_int :: "int \<Rightarrow> string" where
  "show_int i = (if i < 0 then CHR ''-'' # show_nat (nat (- i)) else show_nat (nat i))"

text \<open>Rust's debug form of a vector of integers, \<open>[1, 2]\<close>.\<close>

definition show_int_list :: "int list \<Rightarrow> string" where
  "show_int_list xs =
     ''['' @ (case xs of [] \<Rightarrow> '''' | y # ys \<Rightarrow> show_int y @ concat (map (\<lambda>i. '', '' @ show_int i) ys)) @ '']''"

text \<open>A left inverse of \<open>show_nat\<close>, which gives injectivity.\<close>

definition digit_val :: "char \<Rightarrow> nat" where
  "digit_val c = of_char c - 48"

definition read_nat :: "string \<Rightarrow> nat" where
  "read_nat s = foldl (\<lambda>acc c. 10 * acc + digit_val c) 0 s"

lemma digit_val_digit:
  assumes "d < 10"
  shows "digit_val (digit d) = d"
proof -
  from assms have "d \<in> {0,1,2,3,4,5,6,7,8,9}" by auto
  then show ?thesis by (auto simp: digit_val_def digit_def)
qed

lemma digit_less: "d < 10 \<Longrightarrow> digit d \<in> set ''0123456789''"
  unfolding digit_def by (rule nth_mem) simp

lemma read_show_nat: "read_nat (show_nat n) = n"
proof (induction n rule: show_nat.induct)
  case (1 n)
  show ?case
  proof (cases "n < 10")
    case True
    then show ?thesis by (simp add: show_nat.simps [of n] read_nat_def digit_val_digit)
  next
    case False
    with "1.IH" have "read_nat (show_nat (n div 10)) = n div 10" by simp
    with False show ?thesis
      by (simp add: show_nat.simps [of n] read_nat_def digit_val_digit)
  qed
qed

lemma show_nat_digits: "set (show_nat n) \<subseteq> set ''0123456789''"
proof (induction n rule: show_nat.induct)
  case (1 n)
  have d: "digit (n mod 10) \<in> set ''0123456789''"
    by (rule digit_less) simp
  show ?case
  proof (cases "n < 10")
    case True
    then have "digit n \<in> set ''0123456789''" by (rule digit_less)
    with True have "set [digit n] \<subseteq> set ''0123456789''" by auto
    with True show ?thesis by (subst show_nat.simps) simp
  next
    case False
    with "1.IH" d have "set (show_nat (n div 10) @ [digit (n mod 10)]) \<subseteq> set ''0123456789''"
      by auto
    with False show ?thesis by (subst show_nat.simps) simp
  qed
qed

lemma show_nat_no_minus: "CHR ''-'' \<notin> set (show_nat n)"
  using show_nat_digits [of n] by auto

lemma show_int_no_slash: "CHR ''/'' \<notin> set (show_int i)"
  using show_nat_digits [of "nat i"] show_nat_digits [of "nat (- i)"] by (auto simp: show_int_def)

lemma show_nat_inj: "show_nat m = show_nat n \<Longrightarrow> m = n"
  by (metis read_show_nat)

lemma show_int_inj:
  assumes "show_int i = show_int j"
  shows "i = j"
proof -
  have no: "show_nat m \<noteq> CHR ''-'' # xs" for m xs
    using show_nat_no_minus [of m] by auto
  show ?thesis
    using assms no no [symmetric] by (auto simp: show_int_def split: if_splits dest!: show_nat_inj)
qed

text \<open>Joining with a separator that the left parts do not contain is injective.\<close>

lemma append_sep_inject:
  assumes "xs @ c # ys = xs' @ c # ys'" and "c \<notin> set xs" and "c \<notin> set xs'"
  shows "xs = xs' \<and> ys = ys'"
  using assms
proof (induction xs arbitrary: xs')
  case Nil
  then show ?case by (cases xs') auto
next
  case (Cons a xs)
  then show ?case by (cases xs') auto
qed

subsection \<open>Paging\<close>

definition clamp :: "int \<Rightarrow> int \<Rightarrow> int \<Rightarrow> int" where
  "clamp lo hi x = (if x < lo then lo else if x > hi then hi else x)"

text \<open>\<open>LIMIT $1 OFFSET $2\<close>.\<close>

definition page :: "int \<Rightarrow> int \<Rightarrow> 'r list \<Rightarrow> 'r list" where
  "page lim off rs = take (nat lim) (drop (nat off) rs)"

lemma page_length: "length (page lim off rs) \<le> nat lim"
  by (simp add: page_def)

lemma page_subset: "set (page lim off rs) \<subseteq> set rs"
  unfolding page_def by (meson order.trans set_drop_subset set_take_subset)

text \<open>Consecutive pages concatenate to the whole list.\<close>

lemma pages_concat:
  assumes "0 < lim" and "length rs \<le> nat lim * n"
  shows "concat (map (\<lambda>i. page lim (lim * int i) rs) [0..<n]) = rs"
proof -
  have off: "nat (lim * int i) = nat lim * i" for i
    using assms(1) by (simp add: nat_mult_distrib)
  have "concat (map (\<lambda>i. page lim (lim * int i) rs) [0..<m]) = take (nat lim * m) rs" for m
  proof (induction m)
    case 0
    show ?case by simp
  next
    case (Suc m)
    have "take (nat lim * Suc m) rs = take (nat lim * m) rs @ take (nat lim) (drop (nat lim * m) rs)"
      using take_add [of "nat lim * m" "nat lim" rs] by (simp add: add.commute)
    with Suc show ?case by (simp add: page_def off)
  qed
  then show ?thesis using assms(2) by simp
qed

text \<open>\<open>ORDER BY k DESC\<close>.\<close>

definition sort_desc :: "('r \<Rightarrow> int) \<Rightarrow> 'r list \<Rightarrow> 'r list" where
  "sort_desc k rs = sort_key (\<lambda>r. - k r) rs"

lemma mset_sort_desc [simp]: "set (sort_desc k rs) = set rs" "length (sort_desc k rs) = length rs"
  by (simp_all add: sort_desc_def)

lemma sorted_sort_desc: "sorted (map (\<lambda>r. - k r) (sort_desc k rs))"
  by (simp add: sort_desc_def)

subsection \<open>Keys and foreign keys\<close>

text \<open>
  \<open>ukey k rs\<close>: the (primary or unique) key \<open>k\<close> identifies the rows; \<open>fkey ref key rs ts\<close>:
  every reference of a row of \<open>rs\<close> is the key of a row of \<open>ts\<close>. The rules say which
  statements keep them.
\<close>

definition ukey :: "('r \<Rightarrow> 'k) \<Rightarrow> 'r list \<Rightarrow> bool" where
  "ukey k rs \<longleftrightarrow> distinct (map k rs)"

definition fkey :: "('a \<Rightarrow> 'k option) \<Rightarrow> ('b \<Rightarrow> 'k) \<Rightarrow> 'a list \<Rightarrow> 'b list \<Rightarrow> bool" where
  "fkey ref key rs ts \<longleftrightarrow> (\<forall>r\<in>set rs. \<forall>k. ref r = Some k \<longrightarrow> (\<exists>t\<in>set ts. key t = k))"

named_theorems key_intro \<open>statements that keep keys and foreign keys\<close>

lemma ukeyD: "ukey k rs \<Longrightarrow> r \<in> set rs \<Longrightarrow> r' \<in> set rs \<Longrightarrow> k r = k r' \<Longrightarrow> r = r'"
  unfolding ukey_def by (rule unique_key)

lemma key_in_filter: "ukey k rs \<Longrightarrow> r \<in> set rs \<Longrightarrow> k r \<in> set (map k (filter P rs)) \<longleftrightarrow> P r"
  by (auto dest: ukeyD)

lemma ukey_Nil [key_intro]: "ukey k []"
  by (simp add: ukey_def)

lemma ukey_del [key_intro]: "ukey k rs \<Longrightarrow> ukey k (del P rs)"
  by (simp add: ukey_def distinct_map_del)

lemma ukey_upd [key_intro]: "ukey k rs \<Longrightarrow> (\<And>r. P r \<Longrightarrow> k (g r) = k r) \<Longrightarrow> ukey k (upd P g rs)"
  by (simp add: ukey_def map_upd_keep)

lemma ukey_app [key_intro]: "ukey k rs \<Longrightarrow> (\<And>x. x \<in> set rs \<Longrightarrow> k x \<noteq> k r) \<Longrightarrow> ukey k (rs @ [r])"
  by (force simp: ukey_def)

lemma fkeyD: "fkey ref key rs ts \<Longrightarrow> r \<in> set rs \<Longrightarrow> ref r = Some k \<Longrightarrow> \<exists>t\<in>set ts. key t = k"
  by (simp add: fkey_def)

lemma fkey_Nil [key_intro]: "fkey ref key [] ts"
  by (simp add: fkey_def)

lemma fkey_del_src [key_intro]: "fkey ref key rs ts \<Longrightarrow> fkey ref key (del P rs) ts"
  unfolding fkey_def set_del by blast

lemma fkey_del_tgt:
  "fkey ref key rs ts \<Longrightarrow>
   (\<And>r t. r \<in> set rs \<Longrightarrow> t \<in> set ts \<Longrightarrow> ref r = Some (key t) \<Longrightarrow> \<not> P t) \<Longrightarrow> fkey ref key rs (del P ts)"
  unfolding fkey_def set_del by blast

lemma fkey_upd_src:
  assumes "fkey ref key rs ts"
    and "\<And>r k. r \<in> set rs \<Longrightarrow> P r \<Longrightarrow> ref (g r) = Some k \<Longrightarrow> ref r = Some k \<or> (\<exists>t\<in>set ts. key t = k)"
  shows "fkey ref key (upd P g rs) ts"
  using assms unfolding fkey_def ball_upd by (metis (full_types))

lemma fkey_upd_src_keep [key_intro]:
  "fkey ref key rs ts \<Longrightarrow> (\<And>r. P r \<Longrightarrow> ref (g r) = ref r) \<Longrightarrow> fkey ref key (upd P g rs) ts"
  by (rule fkey_upd_src) auto

lemma fkey_upd_tgt [key_intro]:
  "fkey ref key rs ts \<Longrightarrow> (\<And>t. P t \<Longrightarrow> key (g t) = key t) \<Longrightarrow> fkey ref key rs (upd P g ts)"
  unfolding fkey_def bex_upd by (metis (full_types))

lemma fkey_app_src [key_intro]:
  "fkey ref key rs ts \<Longrightarrow> (\<And>k. ref r = Some k \<Longrightarrow> \<exists>t\<in>set ts. key t = k) \<Longrightarrow> fkey ref key (rs @ [r]) ts"
  by (auto simp: fkey_def)

lemma fkey_app_tgt [key_intro]: "fkey ref key rs ts \<Longrightarrow> fkey ref key rs (ts @ [t])"
  by (auto simp: fkey_def)

lemma split3:
  obtains a b c where "p = ((a, b), c)"
  by (cases p, cases "fst p") auto

end
