(* ===== verification/Core_Error.thy ===== *)
theory Core_Error
  imports Vault_Prelude
begin

text \<open>
  The unified error type of \<open>src/core/error.rs\<close>: its constructors, the HTTP status and
  stable code of each, the conversion of database errors, and the response body built
  from an error. A fallible function of the services returns an \<open>app_error + 'a\<close>.
\<close>

datatype app_error =
    BadRequest string
  | Validation string
  | InvalidCredentials
  | InvalidRefreshToken
  | RefreshTokenReuse
  | DeviceRevoked
  | Unauthorized
  | TokenExpired
  | Forbidden
  | NotFound
  | Conflict string
  | RateLimited
  | Internal string
  | ServiceUnavailable string
  | NotImplemented
  | SharedItemDeleted

type_synonym 'a result = "app_error + 'a"

text \<open>The \<open>Display\<close> derived from the \<open>#[error(...)]\<close> attributes.\<close>

fun error_display :: "app_error \<Rightarrow> string" where
  "error_display (BadRequest m) = ''invalid request: '' @ m"
| "error_display (Validation m) = ''validation failed: '' @ m"
| "error_display InvalidCredentials = ''invalid credentials''"
| "error_display InvalidRefreshToken = ''refresh token is invalid or expired''"
| "error_display RefreshTokenReuse =
     ''refresh token reuse detected '' @ em_dash @ '' session revoked for security''"
| "error_display DeviceRevoked = ''device has been revoked''"
| "error_display Unauthorized = ''authentication required''"
| "error_display TokenExpired = ''authentication token is expired''"
| "error_display Forbidden = ''you do not have access to this resource''"
| "error_display NotFound = ''resource not found''"
| "error_display (Conflict m) = ''resource already exists: '' @ m"
| "error_display RateLimited = ''rate limit exceeded''"
| "error_display (Internal _) = ''internal server error''"
| "error_display (ServiceUnavailable m) = ''service unavailable: '' @ m"
| "error_display NotImplemented = ''this endpoint is not yet implemented''"
| "error_display SharedItemDeleted = ''this shared item is no longer available''"

fun status_code :: "app_error \<Rightarrow> nat" where
  "status_code (BadRequest _) = 400"
| "status_code (Validation _) = 400"
| "status_code InvalidCredentials = 401"
| "status_code InvalidRefreshToken = 401"
| "status_code RefreshTokenReuse = 401"
| "status_code DeviceRevoked = 401"
| "status_code Unauthorized = 401"
| "status_code TokenExpired = 401"
| "status_code Forbidden = 403"
| "status_code NotFound = 404"
| "status_code (Conflict _) = 409"
| "status_code RateLimited = 429"
| "status_code (Internal _) = 500"
| "status_code (ServiceUnavailable _) = 503"
| "status_code NotImplemented = 501"
| "status_code SharedItemDeleted = 410"

fun error_code :: "app_error \<Rightarrow> string" where
  "error_code (BadRequest _) = ''BAD_REQUEST''"
| "error_code (Validation _) = ''VALIDATION_ERROR''"
| "error_code InvalidCredentials = ''INVALID_CREDENTIALS''"
| "error_code InvalidRefreshToken = ''INVALID_REFRESH_TOKEN''"
| "error_code RefreshTokenReuse = ''REFRESH_TOKEN_REUSE''"
| "error_code DeviceRevoked = ''DEVICE_REVOKED''"
| "error_code Unauthorized = ''UNAUTHORIZED''"
| "error_code TokenExpired = ''TOKEN_EXPIRED''"
| "error_code Forbidden = ''FORBIDDEN''"
| "error_code NotFound = ''NOT_FOUND''"
| "error_code (Conflict _) = ''CONFLICT''"
| "error_code RateLimited = ''RATE_LIMITED''"
| "error_code (Internal _) = ''INTERNAL_ERROR''"
| "error_code (ServiceUnavailable _) = ''SERVICE_UNAVAILABLE''"
| "error_code NotImplemented = ''NOT_IMPLEMENTED''"
| "error_code SharedItemDeleted = ''SHARED_ITEM_DELETED''"

fun is_client_safe :: "app_error \<Rightarrow> bool" where
  "is_client_safe (Internal _) = False"
| "is_client_safe (ServiceUnavailable _) = False"
| "is_client_safe _ = True"

text \<open>The response: status, the code and the message of its JSON body.\<close>

record error_response =
  resp_status :: nat
  resp_code :: string
  resp_message :: string

definition into_response :: "app_error \<Rightarrow> error_response" where
  "into_response e =
     \<lparr>resp_status = status_code e, resp_code = error_code e,
      resp_message = (if is_client_safe e then error_display e else ''an internal error occurred'')\<rparr>"

text \<open>The response of the panic handler, whatever the panic payload.\<close>

definition handle_panic :: "'a \<Rightarrow> error_response" where
  "handle_panic payload =
     \<lparr>resp_status = 500, resp_code = ''INTERNAL_ERROR'', resp_message = ''an internal error occurred''\<rparr>"

text \<open>Errors of the database driver and their conversion.\<close>

datatype sqlx_error = RowNotFound | Database "string option" string | OtherSqlx string

fun of_sqlx :: "sqlx_error \<Rightarrow> app_error" where
  "of_sqlx RowNotFound = NotFound"
| "of_sqlx (Database c m) =
     (if c = Some ''23505'' then Conflict ''resource already exists''
      else if c = Some ''23503'' then BadRequest ''referenced resource does not exist''
      else Internal m)"
| "of_sqlx (OtherSqlx m) = Internal m"

text \<open>Constraint violations, as PostgreSQL reports them.\<close>

definition unique_violation :: sqlx_error where
  "unique_violation = Database (Some ''23505'') ''unique constraint''"

definition fk_violation :: sqlx_error where
  "fk_violation = Database (Some ''23503'') ''foreign key constraint''"

definition check_violation :: sqlx_error where
  "check_violation = Database (Some ''23514'') ''check constraint''"

lemma of_unique_violation [simp]: "of_sqlx unique_violation = Conflict ''resource already exists''"
  by (simp add: unique_violation_def)

lemma of_fk_violation [simp]: "of_sqlx fk_violation = BadRequest ''referenced resource does not exist''"
  by (simp add: fk_violation_def)

lemma of_check_violation [simp]: "of_sqlx check_violation = Internal ''check constraint''"
  by (simp add: check_violation_def)

subsection \<open>The question mark operator\<close>

text \<open>
  \<open>attempt r w k\<close> is \<open>let a = r?; k(a)\<close> in state \<open>w\<close>: an error returns with the state as it
  is. Inside a transaction \<open>w\<close> is the state before it began (the rollback).
\<close>

definition attempt :: "'a result \<Rightarrow> 'w \<Rightarrow> ('a \<Rightarrow> 'b result \<times> 'w) \<Rightarrow> 'b result \<times> 'w" where
  "attempt r w k = (case r of Inl e \<Rightarrow> (Inl e, w) | Inr a \<Rightarrow> k a)"

definition attempt_sql :: "sqlx_error + 'a \<Rightarrow> 'w \<Rightarrow> ('a \<Rightarrow> 'b result \<times> 'w) \<Rightarrow> 'b result \<times> 'w" where
  "attempt_sql r w k = (case r of Inl e \<Rightarrow> (Inl (of_sqlx e), w) | Inr a \<Rightarrow> k a)"

lemma attempt_simps [simp]:
  "attempt (Inl e) w k = (Inl e, w)" "attempt (Inr a) w k = k a"
  "attempt_sql (Inl d) w k = (Inl (of_sqlx d), w)" "attempt_sql (Inr a) w k = k a"
  by (simp_all add: attempt_def attempt_sql_def)

lemma attempt_snd:
  assumes "P w" and "\<And>a. r = Inr a \<Longrightarrow> P (snd (k a))"
  shows "P (snd (attempt r w k))"
  using assms by (cases r) auto

lemma attempt_sql_snd:
  assumes "P w" and "\<And>a. r = Inr a \<Longrightarrow> P (snd (k a))"
  shows "P (snd (attempt_sql r w k))"
  using assms by (cases r) auto

lemma attempt_ok: "attempt r w k = (Inr b, w') \<longleftrightarrow> (\<exists>a. r = Inr a \<and> k a = (Inr b, w'))"
  by (cases r) auto

lemma attempt_sql_ok: "attempt_sql r w k = (Inr b, w') \<longleftrightarrow> (\<exists>a. r = Inr a \<and> k a = (Inr b, w'))"
  by (cases r) auto

lemmas attempt_oks = attempt_ok attempt_sql_ok

lemma attempt_err: "attempt r w k = (Inl e, w') \<longleftrightarrow> (r = Inl e \<and> w' = w) \<or> (\<exists>a. r = Inr a \<and> k a = (Inl e, w'))"
  by (cases r) auto

lemma attempt_sql_err:
  "attempt_sql r w k = (Inl e, w') \<longleftrightarrow> (\<exists>d. r = Inl d \<and> e = of_sqlx d \<and> w' = w) \<or> (\<exists>a. r = Inr a \<and> k a = (Inl e, w'))"
  by (cases r) auto

lemmas attempt_errs = attempt_err attempt_sql_err

text \<open>A failed guard: \<open>if c { return Err(e) }\<close>.\<close>

definition check_that :: "bool \<Rightarrow> app_error \<Rightarrow> unit result" where
  "check_that c e = (if c then Inr () else Inl e)"

lemma check_that_ok [simp]: "check_that c e = Inr u \<longleftrightarrow> c"
  by (auto simp: check_that_def)

text \<open>\<open>if let Some(a) = o { f(a)?; }\<close>.\<close>

definition for_option :: "'a option \<Rightarrow> ('a \<Rightarrow> unit result) \<Rightarrow> unit result" where
  "for_option c f = (case c of None \<Rightarrow> Inr () | Some a \<Rightarrow> f a)"

lemma for_option_ok [simp]: "for_option c f = Inr u \<longleftrightarrow> (\<forall>a. c = Some a \<longrightarrow> f a = Inr ())"
  by (cases c) (auto simp: for_option_def)

lemma for_option_simps [simp]: "for_option None f = Inr ()" "for_option (Some a) f = f a"
  by (simp_all add: for_option_def)

text \<open>The question mark inside a computation that has no state to roll back.\<close>

definition and_then :: "'a result \<Rightarrow> ('a \<Rightarrow> 'b result) \<Rightarrow> 'b result" where
  "and_then r k = (case r of Inl e \<Rightarrow> Inl e | Inr a \<Rightarrow> k a)"

definition sql :: "sqlx_error + 'a \<Rightarrow> 'a result" where
  "sql r = (case r of Inl d \<Rightarrow> Inl (of_sqlx d) | Inr a \<Rightarrow> Inr a)"

lemma and_then_simps [simp]: "and_then (Inl e) k = Inl e" "and_then (Inr a) k = k a"
  by (simp_all add: and_then_def)

lemma and_then_ok [simp]: "and_then r k = Inr b \<longleftrightarrow> (\<exists>a. r = Inr a \<and> k a = Inr b)"
  by (cases r) auto

lemma sql_ok [simp]: "sql r = Inr a \<longleftrightarrow> r = Inr a"
  by (cases r) (auto simp: sql_def)

lemma sql_simps [simp]: "sql (Inl d) = Inl (of_sqlx d)"
  by (simp add: sql_def)

end
