(* ===== verification/Recursive_Query.thy ===== *)
theory Recursive_Query
  imports Vault_Prelude "HOL-Library.Multiset"
begin

text \<open>
  The two forms of \<open>WITH RECURSIVE\<close> the services send to the database, over the list of
  edges the recursive term joins with. PostgreSQL evaluates both with a working table:
  \<open>UNION\<close> drops rows already produced and so always stops (\<open>rec_union\<close>, a total
  function), \<open>UNION ALL\<close> keeps duplicates and runs for ever on a reachable cycle
  (\<open>rec_union_all\<close>, where not returning is \<open>None\<close>). The lemmas relate both to the
  reflexive transitive closure of the edges and say exactly when the second returns.
\<close>

subsection \<open>UNION\<close>

definition edge_step :: "('a \<times> 'a) list \<Rightarrow> 'a list \<Rightarrow> 'a list" where
  "edge_step edges work = map snd (filter (\<lambda>e. fst e \<in> set work) edges)"

lemma set_edge_step: "set (edge_step edges work) = set edges `` set work"
  by (force simp: edge_step_def)

function rec_union_loop :: "('a \<times> 'a) list \<Rightarrow> 'a list \<Rightarrow> 'a list \<Rightarrow> 'a list" where
  "rec_union_loop edges seen work =
     (if work = [] then seen
      else let fresh = remdups (filter (\<lambda>b. b \<notin> set seen) (edge_step edges work))
           in rec_union_loop edges (seen @ fresh) fresh)"
  by pat_completeness auto

lemma rec_union_measure:
  assumes "fresh = remdups (filter (\<lambda>b. b \<notin> set seen) (edge_step edges work))" and "fresh \<noteq> []"
  shows "card (snd ` set edges - set (seen @ fresh)) < card (snd ` set edges - set seen)"
proof (rule psubset_card_mono)
  obtain b where "b \<in> set fresh" using assms(2) by (cases fresh) auto
  then have "b \<in> snd ` set edges - set seen" "b \<notin> snd ` set edges - set (seen @ fresh)"
    using assms(1) by (auto simp: edge_step_def)
  then show "snd ` set edges - set (seen @ fresh) \<subset> snd ` set edges - set seen" by auto
qed simp

termination rec_union_loop
proof (relation "measures [\<lambda>(e, s, w). card (snd ` set e - set s), \<lambda>(e, s, w). length w]", goal_cases)
  case 1
  show ?case by simp
next
  case (2 edges seen work fresh)
  show ?case
  proof (cases "fresh = []")
    case True
    with 2 show ?thesis by simp
  next
    case False
    with rec_union_measure [OF 2(2)] show ?thesis by simp
  qed
qed

declare rec_union_loop.simps [simp del]

definition rec_union :: "('a \<times> 'a) list \<Rightarrow> 'a list \<Rightarrow> 'a list" where
  "rec_union edges start = rec_union_loop edges (remdups start) (remdups start)"

lemma rec_union_loop_correct:
  assumes "set work \<subseteq> set seen" and "set edges `` (set seen - set work) \<subseteq> set seen"
  shows "set (rec_union_loop edges seen work) = (set edges)\<^sup>* `` set seen"
  using assms
proof (induction edges seen work rule: rec_union_loop.induct)
  case (1 edges seen work)
  let ?fresh = "remdups (filter (\<lambda>b. b \<notin> set seen) (edge_step edges work))"
  show ?case
  proof (cases "work = []")
    case True
    with "1.prems" show ?thesis by (simp add: rec_union_loop.simps Image_closed_trancl)
  next
    case False
    have f: "set ?fresh = set edges `` set work - set seen"
      by (auto simp: set_edge_step)
    have "set edges `` (set seen \<union> set ?fresh - set ?fresh) \<subseteq> set seen \<union> set ?fresh"
      using "1.prems" unfolding f by blast
    then have "set (rec_union_loop edges (seen @ ?fresh) ?fresh) = (set edges)\<^sup>* `` set (seen @ ?fresh)"
      using "1.IH" [OF False refl] by simp
    moreover have "(set edges)\<^sup>* `` (set seen \<union> set ?fresh) = (set edges)\<^sup>* `` set seen"
      using "1.prems"(1) f by (auto intro: converse_rtrancl_into_rtrancl)
    ultimately show ?thesis
      using False by (simp add: rec_union_loop.simps [of edges seen work] Let_def)
  qed
qed

lemma set_rec_union: "set (rec_union edges start) = (set edges)\<^sup>* `` set start"
  by (simp add: rec_union_def rec_union_loop_correct)

lemma rec_union_loop_distinct: "distinct seen \<Longrightarrow> distinct (rec_union_loop edges seen work)"
proof (induction edges seen work rule: rec_union_loop.induct)
  case (1 edges seen work)
  then show ?case
    by (subst rec_union_loop.simps) (auto simp: Let_def)
qed

lemma distinct_rec_union: "distinct (rec_union edges start)"
  by (simp add: rec_union_def rec_union_loop_distinct)

subsection \<open>UNION ALL\<close>

definition edge_step_all :: "('a \<times> 'a) list \<Rightarrow> 'a list \<Rightarrow> 'a list" where
  "edge_step_all edges work = concat (map (\<lambda>a. map snd (filter (\<lambda>e. fst e = a) edges)) work)"

lemma set_edge_step_all: "set (edge_step_all edges work) = set edges `` set work"
  by (force simp: edge_step_all_def)

partial_function (option) rec_union_all :: "('a \<times> 'a) list \<Rightarrow> 'a list \<Rightarrow> 'a list \<Rightarrow> 'a list option" where
  "rec_union_all edges acc work =
     (if work = [] then Some acc else rec_union_all edges (acc @ work) (edge_step_all edges work))"

text \<open>Without a cycle in the part of the graph the query reaches, it returns its closure.\<close>

lemma rec_union_all_returns:
  assumes "\<And>a. a \<in> (set edges)\<^sup>* `` set start \<Longrightarrow> (a, a) \<notin> (set edges)\<^sup>+"
  shows "\<exists>rs. rec_union_all edges acc start = Some rs \<and> set rs = set acc \<union> (set edges)\<^sup>* `` set start"
proof -
  let ?R = "(set edges)\<^sup>* `` set start"
  let ?E = "set edges \<inter> ?R \<times> UNIV"
  have "acyclic ?E"
  proof (rule acyclicI, clarify)
    fix x assume x: "(x, x) \<in> ?E\<^sup>+"
    then have "x \<in> ?R" by (auto dest: tranclD)
    moreover have "(x, x) \<in> (set edges)\<^sup>+" using x by (rule trancl_mono) auto
    ultimately show False using assms by blast
  qed
  then have wf: "wf (mult (?E\<inverse>))"
    by (intro wf_mult finite_acyclic_wf_converse) auto
  have "set work \<subseteq> ?R \<Longrightarrow>
    \<exists>rs. rec_union_all edges acc work = Some rs \<and> set rs = set acc \<union> (set edges)\<^sup>* `` set work" for acc work
  proof (induction "mset work" arbitrary: acc work rule: wf_induct_rule [OF wf])
    case (1 work)
    show ?case
    proof (cases "work = []")
      case True
      then show ?thesis by (simp add: rec_union_all.simps)
    next
      case False
      let ?next = "edge_step_all edges work"
      have sub: "set ?next \<subseteq> ?R"
        using "1.prems" by (auto simp: set_edge_step_all intro: rtrancl_into_rtrancl)
      have "\<forall>k\<in>set ?next. \<exists>j\<in>set work. (k, j) \<in> ?E\<inverse>"
        using "1.prems" by (fastforce simp: set_edge_step_all)
      then have "(mset ?next, mset work) \<in> mult (?E\<inverse>)"
        using one_step_implies_mult [of "mset work" "mset ?next" "?E\<inverse>" "{#}"] False by simp
      from "1.hyps" [OF this sub, of "acc @ work"] obtain rs where
        "rec_union_all edges (acc @ work) ?next = Some rs"
        "set rs = set (acc @ work) \<union> (set edges)\<^sup>* `` set ?next"
        by blast
      moreover have "set work \<union> (set edges)\<^sup>* `` (set edges `` set work) = (set edges)\<^sup>* `` set work"
        by (auto intro: converse_rtrancl_into_rtrancl elim: converse_rtranclE)
      ultimately show ?thesis
        using False by (simp add: rec_union_all.simps [of edges acc work] set_edge_step_all Un_assoc)
    qed
  qed
  then show ?thesis by auto
qed

text \<open>From a start that reaches a cycle it never returns.\<close>

lemma rec_union_all_diverges:
  assumes "a \<in> set start" and "(a, c) \<in> (set edges)\<^sup>*" and "(c, c) \<in> (set edges)\<^sup>+"
  shows "rec_union_all edges acc start = None"
proof -
  let ?bad = "\<lambda>edges x. \<exists>c. (x, c) \<in> (set edges)\<^sup>* \<and> (c, c) \<in> (set edges)\<^sup>+"
  have "\<not> (\<exists>x\<in>set start. ?bad edges x)" if ret: "rec_union_all edges acc start = Some rs" for rs
  proof (rule rec_union_all.raw_induct
      [where P = "\<lambda>edges acc work rs. \<not> (\<exists>x\<in>set work. ?bad edges x)", OF _ ret])
    fix f :: "('a \<times> 'a) list \<Rightarrow> 'a list \<Rightarrow> 'a list \<Rightarrow> 'a list option"
    fix edges :: "('a \<times> 'a) list" and acc work rs
    assume IH: "\<And>edges acc work rs. f edges acc work = Some rs \<Longrightarrow> \<not> (\<exists>x\<in>set work. ?bad edges x)"
      and eq: "(if work = [] then Some acc else f edges (acc @ work) (edge_step_all edges work)) = Some rs"
    show "\<not> (\<exists>x\<in>set work. ?bad edges x)"
    proof (rule notI, elim bexE exE conjE)
      fix x c assume x: "x \<in> set work" and xc: "(x, c) \<in> (set edges)\<^sup>*" and cc: "(c, c) \<in> (set edges)\<^sup>+"
      from x eq have "f edges (acc @ work) (edge_step_all edges work) = Some rs" by (auto split: if_splits)
      then have no: "\<not> (\<exists>y\<in>set (edge_step_all edges work). ?bad edges y)" by (rule IH)
      have "(x, c) \<in> (set edges)\<^sup>+" using xc cc by (rule rtrancl_trancl_trancl)
      then obtain y where "(x, y) \<in> set edges" "(y, c) \<in> (set edges)\<^sup>*" by (auto dest: tranclD)
      with x cc no show False by (auto simp: set_edge_step_all)
    qed
  qed
  with assms show ?thesis by (cases "rec_union_all edges acc start") auto
qed

subsection \<open>EXISTS over UNION ALL\<close>

text \<open>
  \<open>SELECT EXISTS(SELECT 1 FROM cte WHERE id = x)\<close>: PostgreSQL fetches rows of the recursive
  query only until the first match, so the query returns true on a cycle through \<open>x\<close>.
\<close>

partial_function (option) rec_exists :: "('a \<times> 'a) list \<Rightarrow> 'a \<Rightarrow> 'a list \<Rightarrow> bool option" where
  "rec_exists edges x work =
     (if x \<in> set work then Some True
      else if work = [] then Some False
      else rec_exists edges x (edge_step_all edges work))"

lemma rec_exists_True:
  assumes "a \<in> set work" and "(a, x) \<in> (set edges)\<^sup>*"
  shows "rec_exists edges x work = Some True"
  using assms(2,1)
proof (induction arbitrary: work rule: converse_rtrancl_induct)
  case base
  then show ?case by (simp add: rec_exists.simps)
next
  case (step y z)
  then have "z \<in> set (edge_step_all edges work)" by (auto simp: set_edge_step_all)
  then have "rec_exists edges x (edge_step_all edges work) = Some True" by (rule step.IH)
  with step.prems show ?case by (subst rec_exists.simps) auto
qed

lemma rec_exists_False:
  assumes ret: "rec_union_all edges acc work = Some rs" and "x \<notin> (set edges)\<^sup>* `` set work"
  shows "rec_exists edges x work = Some False"
proof -
  let ?P = "\<lambda>edges work. x \<notin> (set edges)\<^sup>* `` set work \<longrightarrow> rec_exists edges x work = Some False"
  have "?P edges work"
  proof (rule rec_union_all.raw_induct [where P = "\<lambda>edges acc work rs. ?P edges work", OF _ ret])
    fix f :: "('a \<times> 'a) list \<Rightarrow> 'a list \<Rightarrow> 'a list \<Rightarrow> 'a list option"
    fix edges :: "('a \<times> 'a) list" and acc work rs
    assume IH: "\<And>edges acc work rs. f edges acc work = Some rs \<Longrightarrow> ?P edges work"
      and eq: "(if work = [] then Some acc else f edges (acc @ work) (edge_step_all edges work)) = Some rs"
    show "?P edges work"
    proof (cases "work = []")
      case True
      then show ?thesis by (simp add: rec_exists.simps)
    next
      case False
      with eq have "?P edges (edge_step_all edges work)" by (intro IH) simp
      moreover have "(set edges)\<^sup>* `` (set edges `` set work) \<subseteq> (set edges)\<^sup>* `` set work"
        by (auto intro: converse_rtrancl_into_rtrancl)
      ultimately show ?thesis
        using False by (subst rec_exists.simps) (auto simp: set_edge_step_all)
    qed
  qed
  with assms(2) show ?thesis by blast
qed

lemma rec_exists_returns:
  assumes "\<And>a. a \<in> (set edges)\<^sup>* `` set start \<Longrightarrow> (a, a) \<notin> (set edges)\<^sup>+"
  shows "rec_exists edges x start = Some (x \<in> (set edges)\<^sup>* `` set start)"
proof (cases "x \<in> (set edges)\<^sup>* `` set start")
  case True
  then obtain a where "a \<in> set start" "(a, x) \<in> (set edges)\<^sup>*" by auto
  with True show ?thesis by (simp add: rec_exists_True)
next
  case False
  obtain rs where "rec_union_all edges [] start = Some rs"
    using rec_union_all_returns [OF assms] by blast
  from rec_exists_False [OF this False] False show ?thesis by simp
qed

text \<open>Whatever the graph, an answer \<open>False\<close> is right: the target is not reachable.\<close>

lemma rec_exists_False_sound:
  "rec_exists edges x start = Some False \<Longrightarrow> x \<notin> (set edges)\<^sup>* `` set start"
  using rec_exists_True by fastforce

end
