(* ===== verification/Database.thy ===== *)
theory Database
  imports Core_Error Recursive_Query
begin

text \<open>
  The database of \<open>migrations/\<close> and the rest of the server's state: one record per table
  row with the columns the services read or write, the \<open>vault\<close> state that holds the
  tables beside the in-memory parts of \<open>src/app_state.rs\<close>, and the SQL statements with
  the constraints and foreign key actions the migrations declare (\<open>ON DELETE CASCADE\<close>
  and \<open>ON DELETE SET NULL\<close>). What those constraints promise is stated in the theory \<open>Integrity\<close>.
\<close>

subsection \<open>Rows\<close>

datatype json =
    JNull | JBool bool | JInt int | JStr string | JUuid uuid | JTime timestamp
  | JArr "json list" | JObj "(string \<times> json) list"

record user_row =
  u_id :: uuid
  u_email :: string
  u_email_normalized :: string
  u_full_name :: string
  u_salt :: bytes
  u_argon2_params :: json
  u_auth_key_hash :: string
  u_recovery_auth_key_hash :: string
  u_wrapped_dek :: bytes
  u_wrapped_dek_nonce :: bytes
  u_recovery_wrapped_dek :: bytes
  u_recovery_wrapped_dek_nonce :: bytes
  u_identity_pubkey :: bytes
  u_avatar_url :: "string option"
  u_created_at :: timestamp
  u_updated_at :: timestamp
  u_disabled_at :: "timestamp option"

record device_row =
  d_id :: uuid
  d_user :: uuid
  d_name :: string
  d_pubkey :: bytes
  d_created_at :: timestamp
  d_last_seen_at :: timestamp
  d_revoked_at :: "timestamp option"

record session_row =
  s_id :: uuid
  s_user :: uuid
  s_device :: uuid
  s_token_hash :: string
  s_jti :: uuid
  s_issued_at :: timestamp
  s_expires_at :: timestamp
  s_revoked_at :: "timestamp option"
  s_revoked_reason :: "string option"
  s_rotated_to :: "uuid option"
  s_user_agent :: "string option"
  s_ip :: "string option"

record folder_row =
  fo_id :: uuid
  fo_user :: uuid
  fo_parent :: "uuid option"
  fo_metadata :: bytes
  fo_nonce :: bytes
  fo_created_at :: timestamp
  fo_updated_at :: timestamp
  fo_deleted_at :: "timestamp option"

record file_row =
  f_id :: uuid
  f_user :: uuid
  f_folder :: "uuid option"
  f_metadata :: bytes
  f_nonce :: bytes
  f_blake3 :: bytes
  f_size :: int
  f_current :: "uuid option"
  f_created_at :: timestamp
  f_updated_at :: timestamp
  f_deleted_at :: "timestamp option"

record version_row =
  v_id :: uuid
  v_file :: uuid
  v_number :: int
  v_size :: int
  v_total_chunks :: int
  v_blake3 :: bytes
  v_header :: bytes
  v_device :: uuid
  v_active :: bool
  v_created_at :: timestamp
  v_key :: "bytes option"
  v_key_nonce :: "bytes option"

record chunk_row =
  c_id :: uuid
  c_version :: uuid
  c_index :: int
  c_segment :: int
  c_size :: int
  c_blake3 :: bytes
  c_key :: string
  c_etag :: "string option"
  c_uploaded_at :: "timestamp option"
  c_created_at :: timestamp

record audit_row =
  a_user :: "uuid option"
  a_device :: "uuid option"
  a_event :: string
  a_metadata :: json
  a_created_at :: timestamp

record share_row =
  sh_id :: uuid
  sh_owner :: uuid
  sh_item :: uuid
  sh_type :: string
  sh_payload :: bytes
  sh_nonce :: bytes
  sh_header :: "bytes option"
  sh_created_at :: timestamp
  sh_expires_at :: "timestamp option"
  sh_revoked_at :: "timestamp option"
  sh_access :: string

record pending_row =
  p_key :: string
  p_user :: "uuid option"
  p_created_at :: timestamp
  p_attempts :: int
  p_last_attempt_at :: "timestamp option"
  p_last_error :: "string option"

subsection \<open>The server's state\<close>

record pending_signup =
  ps_email :: string
  ps_email_normalized :: string
  ps_salt :: bytes
  ps_argon2_params :: json
  ps_expires_at :: timestamp

record sync_event =
  ev_seq :: "64 word"
  ev_type :: string
  ev_resource_type :: string
  ev_resource_id :: uuid
  ev_payload :: json

text \<open>
  \<open>sse_channels\<close> holds the broadcast channel of each user with its number of receivers,
  \<open>sse_sent\<close> the events sent on a channel, and \<open>r2_deletes\<close> the batches of keys of the
  delete requests sent to the object store.
\<close>

record vault =
  t_users :: "user_row list"
  t_devices :: "device_row list"
  t_sessions :: "session_row list"
  t_folders :: "folder_row list"
  t_files :: "file_row list"
  t_versions :: "version_row list"
  t_chunks :: "chunk_row list"
  t_audit :: "audit_row list"
  t_shares :: "share_row list"
  t_pending :: "pending_row list"
  pending_signups :: "(string \<times> pending_signup) list"
  sse_channels :: "(uuid \<times> nat) list"
  event_seq :: "64 word"
  sse_sent :: "(uuid \<times> sync_event) list"
  r2_deletes :: "string list list"

definition empty_vault :: vault where
  "empty_vault =
     \<lparr>t_users = [], t_devices = [], t_sessions = [], t_folders = [], t_files = [], t_versions = [],
      t_chunks = [], t_audit = [], t_shares = [], t_pending = [], pending_signups = [],
      sse_channels = [], event_seq = 0, sse_sent = [], r2_deletes = []\<rparr>"

text \<open>
  \<open>WHERE user_id = $u AND deleted_at IS NULL\<close> and its variants: the row tests that recur in
  the queries.
\<close>

definition live_file :: "uuid \<Rightarrow> uuid \<Rightarrow> file_row \<Rightarrow> bool" where
  "live_file fid u f \<longleftrightarrow> f_id f = fid \<and> f_user f = u \<and> f_deleted_at f = None"

definition live_folder :: "uuid \<Rightarrow> uuid \<Rightarrow> folder_row \<Rightarrow> bool" where
  "live_folder fid u fo \<longleftrightarrow> fo_id fo = fid \<and> fo_user fo = u \<and> fo_deleted_at fo = None"

subsection \<open>Deletion with foreign key actions\<close>

definition delete_chunks :: "(chunk_row \<Rightarrow> bool) \<Rightarrow> vault \<Rightarrow> vault" where
  "delete_chunks P w = w\<lparr>t_chunks := del P (t_chunks w)\<rparr>"

text \<open>
  Deleting versions cascades to their chunks and sets \<open>current_version_id\<close> of the files
  that point to them to NULL (\<open>fk_files_current_version\<close>).
\<close>

definition delete_versions :: "(version_row \<Rightarrow> bool) \<Rightarrow> vault \<Rightarrow> vault" where
  "delete_versions P w =
     (let gone = map v_id (filter P (t_versions w))
      in w\<lparr>t_versions := del P (t_versions w),
           t_chunks := del (\<lambda>c. c_version c \<in> set gone) (t_chunks w),
           t_files := upd (\<lambda>f. opt_in (f_current f) gone) (\<lambda>f. f\<lparr>f_current := None\<rparr>) (t_files w)\<rparr>)"

definition delete_files :: "(file_row \<Rightarrow> bool) \<Rightarrow> vault \<Rightarrow> vault" where
  "delete_files P w =
     (let gone = map f_id (filter P (t_files w))
      in delete_versions (\<lambda>v. v_file v \<in> set gone) (w\<lparr>t_files := del P (t_files w)\<rparr>))"

text \<open>The parent edges of the folder table, from parent to child.\<close>

definition child_edges :: "(folder_row \<Rightarrow> bool) \<Rightarrow> folder_row list \<Rightarrow> (uuid \<times> uuid) list" where
  "child_edges P fos =
     concat (map (\<lambda>fo. case fo_parent fo of None \<Rightarrow> [] | Some p \<Rightarrow> if P fo then [(p, fo_id fo)] else []) fos)"

text \<open>Deleting folders cascades to their subfolders and to the files in all of them.\<close>

definition delete_folders :: "(folder_row \<Rightarrow> bool) \<Rightarrow> vault \<Rightarrow> vault" where
  "delete_folders P w =
     (let gone = rec_union (child_edges (\<lambda>_. True) (t_folders w)) (map fo_id (filter P (t_folders w)))
      in delete_files (\<lambda>f. opt_in (f_folder f) gone)
           (w\<lparr>t_folders := del (\<lambda>fo. fo_id fo \<in> set gone) (t_folders w)\<rparr>))"

subsection \<open>Insertion with constraints\<close>

definition user_exists :: "vault \<Rightarrow> uuid \<Rightarrow> bool" where
  "user_exists w u = has_row (\<lambda>r. u_id r = u) (t_users w)"

definition device_exists :: "vault \<Rightarrow> uuid \<Rightarrow> bool" where
  "device_exists w d = has_row (\<lambda>r. d_id r = d) (t_devices w)"

definition folder_exists :: "vault \<Rightarrow> uuid \<Rightarrow> bool" where
  "folder_exists w d = has_row (\<lambda>r. fo_id r = d) (t_folders w)"

definition insert_folder :: "folder_row \<Rightarrow> vault \<Rightarrow> sqlx_error + vault" where
  "insert_folder r w =
     (if length (fo_nonce r) \<noteq> 24 then Inl check_violation
      else if has_row (\<lambda>x. fo_id x = fo_id r) (t_folders w) then Inl unique_violation
      else if \<not> user_exists w (fo_user r) then Inl fk_violation
      else if (case fo_parent r of None \<Rightarrow> False | Some p \<Rightarrow> p \<noteq> fo_id r \<and> \<not> folder_exists w p)
        then Inl fk_violation
      else Inr (w\<lparr>t_folders := t_folders w @ [r]\<rparr>))"

definition insert_file :: "file_row \<Rightarrow> vault \<Rightarrow> sqlx_error + vault" where
  "insert_file r w =
     (if length (f_nonce r) \<noteq> 24 \<or> f_size r < 0 then Inl check_violation
      else if has_row (\<lambda>x. f_id x = f_id r) (t_files w) then Inl unique_violation
      else if \<not> user_exists w (f_user r) then Inl fk_violation
      else if (case f_folder r of None \<Rightarrow> False | Some d \<Rightarrow> \<not> folder_exists w d) then Inl fk_violation
      else Inr (w\<lparr>t_files := t_files w @ [r]\<rparr>))"

definition insert_version :: "version_row \<Rightarrow> vault \<Rightarrow> sqlx_error + vault" where
  "insert_version r w =
     (if v_number r \<le> 0 \<or> v_total_chunks r \<le> 0 \<or> length (v_header r) \<noteq> 24 then Inl check_violation
      else if has_row (\<lambda>x. v_id x = v_id r \<or> v_file x = v_file r \<and> v_number x = v_number r) (t_versions w)
        then Inl unique_violation
      else if \<not> has_row (\<lambda>x. f_id x = v_file r) (t_files w) then Inl fk_violation
      else if \<not> device_exists w (v_device r) then Inl fk_violation
      else Inr (w\<lparr>t_versions := t_versions w @ [r]\<rparr>))"

definition insert_chunk :: "chunk_row \<Rightarrow> vault \<Rightarrow> sqlx_error + vault" where
  "insert_chunk r w =
     (if c_size r \<le> 0 \<or> c_index r < 0 \<or> c_segment r < 0 then Inl check_violation
      else if has_row (\<lambda>x. c_id x = c_id r \<or> c_version x = c_version r \<and> c_index x = c_index r) (t_chunks w)
        then Inl unique_violation
      else if \<not> has_row (\<lambda>x. v_id x = c_version r) (t_versions w) then Inl fk_violation
      else Inr (w\<lparr>t_chunks := t_chunks w @ [r]\<rparr>))"

definition insert_share :: "share_row \<Rightarrow> vault \<Rightarrow> sqlx_error + vault" where
  "insert_share r w =
     (if sh_type r \<noteq> ''file'' \<and> sh_type r \<noteq> ''folder'' then Inl check_violation
      else if has_row (\<lambda>x. sh_id x = sh_id r) (t_shares w) then Inl unique_violation
      else if \<not> user_exists w (sh_owner r) then Inl fk_violation
      else Inr (w\<lparr>t_shares := t_shares w @ [r]\<rparr>))"

text \<open>
  \<open>INSERT INTO pending_storage_deletions ... ON CONFLICT (r2_key) DO NOTHING\<close>: a key that is
  already queued, or occurs twice in the array, is queued once.
\<close>

fun queue_keys :: "timestamp \<Rightarrow> uuid option \<Rightarrow> string list \<Rightarrow> pending_row list \<Rightarrow> pending_row list" where
  "queue_keys now u [] ps = ps"
| "queue_keys now u (k # ks) ps =
     queue_keys now u ks
       (if has_row (\<lambda>p. p_key p = k) ps then ps
        else ps @ [\<lparr>p_key = k, p_user = u, p_created_at = now, p_attempts = 0,
                    p_last_attempt_at = None, p_last_error = None\<rparr>])"

definition queue_deletions :: "timestamp \<Rightarrow> uuid option \<Rightarrow> string list \<Rightarrow> vault \<Rightarrow> vault" where
  "queue_deletions now u ks w = w\<lparr>t_pending := queue_keys now u ks (t_pending w)\<rparr>"

end
