(* ===== verification/App_State.thy ===== *)
theory App_State
  imports Database
begin

text \<open>
  The in-memory part of \<open>src/app_state.rs\<close> (the per-user event channels and the event
  counter), the \<open>broadcast\<close> of the file service, and the audit log of
  \<open>src/features/audit/service.rs\<close>.
\<close>

subsection \<open>Event channels\<close>

text \<open>\<open>AppState::sse_channel\<close>: the channel of the user, created on first use.\<close>

definition sse_channel :: "uuid \<Rightarrow> vault \<Rightarrow> vault" where
  "sse_channel u w =
     (if has_row (\<lambda>ch. fst ch = u) (sse_channels w) then w
      else w\<lparr>sse_channels := sse_channels w @ [(u, 0)]\<rparr>)"

definition maybe_cleanup_sse_channel :: "uuid \<Rightarrow> vault \<Rightarrow> vault" where
  "maybe_cleanup_sse_channel u w =
     (case find (\<lambda>ch. fst ch = u) (sse_channels w) of
        None \<Rightarrow> w
      | Some ch \<Rightarrow> if snd ch = 0 then w\<lparr>sse_channels := del (\<lambda>c. fst c = u) (sse_channels w)\<rparr> else w)"

text \<open>Sending on the user's channel, when there is one.\<close>

definition send_event :: "uuid \<Rightarrow> sync_event \<Rightarrow> vault \<Rightarrow> vault" where
  "send_event u e w =
     (if has_row (\<lambda>ch. fst ch = u) (sse_channels w) then w\<lparr>sse_sent := sse_sent w @ [(u, e)]\<rparr> else w)"

text \<open>\<open>AppState::broadcast_sync\<close> numbers the event with the atomic counter.\<close>

definition broadcast_sync :: "uuid \<Rightarrow> sync_event \<Rightarrow> vault \<Rightarrow> vault" where
  "broadcast_sync u e w =
     send_event u (e\<lparr>ev_seq := event_seq w\<rparr>) (w\<lparr>event_seq := event_seq w + 1\<rparr>)"

text \<open>\<open>FileService::broadcast\<close> sends the event as it is.\<close>

definition file_broadcast :: "uuid \<Rightarrow> sync_event \<Rightarrow> vault \<Rightarrow> vault" where
  "file_broadcast u e w = send_event u e w"

definition mk_event :: "string \<Rightarrow> string \<Rightarrow> uuid \<Rightarrow> json \<Rightarrow> sync_event" where
  "mk_event t r i p =
     \<lparr>ev_seq = 0, ev_type = t, ev_resource_type = r, ev_resource_id = i, ev_payload = p\<rparr>"

subsection \<open>Audit log\<close>

definition audit_log ::
  "timestamp \<Rightarrow> uuid option \<Rightarrow> uuid option \<Rightarrow> string \<Rightarrow> json \<Rightarrow> vault \<Rightarrow> sqlx_error + vault" where
  "audit_log now u d ev meta w =
     (if (case u of None \<Rightarrow> False | Some i \<Rightarrow> \<not> user_exists w i) then Inl fk_violation
      else if (case d of None \<Rightarrow> False | Some i \<Rightarrow> \<not> device_exists w i) then Inl fk_violation
      else Inr (w\<lparr>t_audit := t_audit w @
             [\<lparr>a_user = u, a_device = d, a_event = ev, a_metadata = meta, a_created_at = now\<rparr>]\<rparr>))"

text \<open>\<open>audit::log(...).await.ok()\<close>: a failure is dropped.\<close>

definition audit_log_ok ::
  "timestamp \<Rightarrow> uuid option \<Rightarrow> uuid option \<Rightarrow> string \<Rightarrow> json \<Rightarrow> vault \<Rightarrow> vault" where
  "audit_log_ok now u d ev meta w =
     (case audit_log now u d ev meta w of Inl _ \<Rightarrow> w | Inr w' \<Rightarrow> w')"

definition list_for_user :: "vault \<Rightarrow> uuid \<Rightarrow> int \<Rightarrow> int \<Rightarrow> json list" where
  "list_for_user w u limit offset =
     (let limit = clamp 1 500 limit; offset = max offset 0
      in map a_metadata
           (page limit offset (sort_desc a_created_at (filter (\<lambda>a. a_user a = Some u) (t_audit w)))))"

subsection \<open>Frame lemmas\<close>

text \<open>
  \<open>tables w\<close> is the part of the state the file and folder services share; events and
  audit rows leave it alone.
\<close>

definition same_tables :: "vault \<Rightarrow> vault \<Rightarrow> bool" where
  "same_tables w w' \<longleftrightarrow>
     t_users w' = t_users w \<and> t_devices w' = t_devices w \<and> t_sessions w' = t_sessions w \<and>
     t_folders w' = t_folders w \<and> t_files w' = t_files w \<and> t_versions w' = t_versions w \<and>
     t_chunks w' = t_chunks w \<and> t_shares w' = t_shares w \<and> t_pending w' = t_pending w"

named_theorems frame \<open>projections of the state that an effect leaves alone\<close>

lemma send_event_frame [simp, frame]:
  "t_users (send_event u e w) = t_users w"
  "t_devices (send_event u e w) = t_devices w"
  "t_sessions (send_event u e w) = t_sessions w"
  "t_folders (send_event u e w) = t_folders w"
  "t_files (send_event u e w) = t_files w"
  "t_versions (send_event u e w) = t_versions w"
  "t_chunks (send_event u e w) = t_chunks w"
  "t_shares (send_event u e w) = t_shares w"
  "t_pending (send_event u e w) = t_pending w"
  "t_audit (send_event u e w) = t_audit w"
  "event_seq (send_event u e w) = event_seq w"
  "r2_deletes (send_event u e w) = r2_deletes w"
  by (simp_all add: send_event_def)

lemma file_broadcast_frame [simp, frame]:
  "t_users (file_broadcast u e w) = t_users w"
  "t_devices (file_broadcast u e w) = t_devices w"
  "t_sessions (file_broadcast u e w) = t_sessions w"
  "t_folders (file_broadcast u e w) = t_folders w"
  "t_files (file_broadcast u e w) = t_files w"
  "t_versions (file_broadcast u e w) = t_versions w"
  "t_chunks (file_broadcast u e w) = t_chunks w"
  "t_shares (file_broadcast u e w) = t_shares w"
  "t_pending (file_broadcast u e w) = t_pending w"
  "t_audit (file_broadcast u e w) = t_audit w"
  by (simp_all add: file_broadcast_def)

lemma broadcast_sync_frame [simp, frame]:
  "t_users (broadcast_sync u e w) = t_users w"
  "t_devices (broadcast_sync u e w) = t_devices w"
  "t_sessions (broadcast_sync u e w) = t_sessions w"
  "t_folders (broadcast_sync u e w) = t_folders w"
  "t_files (broadcast_sync u e w) = t_files w"
  "t_versions (broadcast_sync u e w) = t_versions w"
  "t_chunks (broadcast_sync u e w) = t_chunks w"
  "t_shares (broadcast_sync u e w) = t_shares w"
  "t_pending (broadcast_sync u e w) = t_pending w"
  "t_audit (broadcast_sync u e w) = t_audit w"
  by (simp_all add: broadcast_sync_def)

lemma audit_log_frame:
  assumes "audit_log now u d ev meta w = Inr w'"
  shows "same_tables w w'"
  using assms by (auto simp: audit_log_def same_tables_def split: if_splits)

lemma audit_log_Inr:
  assumes "audit_log now u d ev meta w = Inr w'"
  shows "w' = w\<lparr>t_audit := t_audit w @
             [\<lparr>a_user = u, a_device = d, a_event = ev, a_metadata = meta, a_created_at = now\<rparr>]\<rparr>"
  using assms by (auto simp: audit_log_def split: if_splits)

lemma audit_log_ok_frame [simp, frame]:
  "t_users (audit_log_ok now u d ev meta w) = t_users w"
  "t_devices (audit_log_ok now u d ev meta w) = t_devices w"
  "t_sessions (audit_log_ok now u d ev meta w) = t_sessions w"
  "t_folders (audit_log_ok now u d ev meta w) = t_folders w"
  "t_files (audit_log_ok now u d ev meta w) = t_files w"
  "t_versions (audit_log_ok now u d ev meta w) = t_versions w"
  "t_chunks (audit_log_ok now u d ev meta w) = t_chunks w"
  "t_shares (audit_log_ok now u d ev meta w) = t_shares w"
  "t_pending (audit_log_ok now u d ev meta w) = t_pending w"
  by (auto simp: audit_log_ok_def audit_log_def)

end
