(* ===== verification/Storage.thy ===== *)
theory Storage
  imports App_State
begin

text \<open>
  The object store client of \<open>src/storage/r2.rs\<close> and the service of
  \<open>src/storage/service.rs\<close> over it. The S3 SDK, the base64 codec and the \<open>Display\<close> of
  UUIDs are code outside the repository: the fields of the record \<open>ext\<close>, an argument of
  every definition that calls them.
\<close>

subsection \<open>Code outside the repository\<close>

datatype head_response = HeadOk "string option" | HeadServiceError nat | HeadOtherError

datatype delete_response = DeleteBuildError | DeleteSendError | DeleteDone nat

record ext =
  b64_decode :: "string \<Rightarrow> bytes option"
  b64_encode :: "bytes \<Rightarrow> string"
  uuid_str :: "uuid \<Rightarrow> string"
  r2_configured :: bool
  sdk_presign_config_ok :: bool
  sdk_presign_put :: "string \<Rightarrow> string option"
  sdk_presign_get :: "string \<Rightarrow> string option"
  sdk_head :: "string \<Rightarrow> head_response"
  sdk_delete :: "string list \<Rightarrow> delete_response"
  sdk_delete_one :: "string \<Rightarrow> bool"
  sdk_put :: "string \<Rightarrow> bytes \<Rightarrow> bool"

text \<open>\<open>crypto::decode_b64\<close> and \<open>crypto::encode_b64\<close>.\<close>

definition decode_b64 :: "ext \<Rightarrow> string \<Rightarrow> bytes result" where
  "decode_b64 x s = (case b64_decode x s of None \<Rightarrow> Inl (BadRequest ''invalid base64 encoding'') | Some b \<Rightarrow> Inr b)"

definition encode_b64 :: "ext \<Rightarrow> bytes \<Rightarrow> string" where
  "encode_b64 x b = b64_encode x b"

subsection \<open>The object store client\<close>

definition chunk_key :: "ext \<Rightarrow> uuid \<Rightarrow> uuid \<Rightarrow> uuid \<Rightarrow> int \<Rightarrow> int \<Rightarrow> string" where
  "chunk_key x user_id file_id version_id segment_index chunk_index =
     uuid_str x user_id @ ''/'' @ uuid_str x file_id @ ''/'' @ uuid_str x version_id @ ''/'' @
     show_int segment_index @ ''/'' @ show_int chunk_index"

definition r2_presign_put :: "ext \<Rightarrow> string \<Rightarrow> string result" where
  "r2_presign_put x key =
     (if \<not> sdk_presign_config_ok x then Inl (Internal ''storage configuration error'')
      else case sdk_presign_put x key of
             None \<Rightarrow> Inl (ServiceUnavailable ''failed to generate upload URL'')
           | Some url \<Rightarrow> Inr url)"

definition r2_presign_get :: "ext \<Rightarrow> string \<Rightarrow> string result" where
  "r2_presign_get x key =
     (if \<not> sdk_presign_config_ok x then Inl (Internal ''storage configuration error'')
      else case sdk_presign_get x key of
             None \<Rightarrow> Inl (ServiceUnavailable ''failed to generate download URL'')
           | Some url \<Rightarrow> Inr url)"

text \<open>\<open>None\<close> is the answer for a missing object, and also for an object that has no ETag.\<close>

definition r2_head_object :: "ext \<Rightarrow> string \<Rightarrow> string option result" where
  "r2_head_object x key =
     (case sdk_head x key of
        HeadOk etag \<Rightarrow> Inr etag
      | HeadServiceError status \<Rightarrow>
          if status = 404 then Inr None
          else if status = 403 then Inl (Internal ''storage access denied'')
          else Inl (ServiceUnavailable ''storage temporarily unavailable'')
      | HeadOtherError \<Rightarrow> Inl (ServiceUnavailable ''storage temporarily unavailable''))"

text \<open>\<open>slice::chunks\<close>: consecutive pieces of at most \<open>n\<close> elements.\<close>

function chunks_of :: "nat \<Rightarrow> 'a list \<Rightarrow> 'a list list" where
  "chunks_of n xs = (if xs = [] \<or> n = 0 then [] else take n xs # chunks_of n (drop n xs))"
  by pat_completeness auto
termination chunks_of
  by (relation "measure (\<lambda>(n, xs). length xs)") auto

declare chunks_of.simps [simp del]

text \<open>The batches are sent in turn until one fails; the second component is what was sent.\<close>

fun delete_batches :: "ext \<Rightarrow> string list list \<Rightarrow> unit result \<times> string list list" where
  "delete_batches x [] = (Inr (), [])"
| "delete_batches x (b # bs) =
     (case sdk_delete x b of
        DeleteBuildError \<Rightarrow> (Inl (Internal ''batch delete build failed''), [])
      | DeleteSendError \<Rightarrow> (Inl (Internal ''batch delete failed''), [b])
      | DeleteDone n \<Rightarrow>
          if n \<noteq> 0 then (Inl (Internal (show_int (int n) @ '' object(s) failed to delete'')), [b])
          else (case delete_batches x bs of (r, sent) \<Rightarrow> (r, b # sent)))"

definition r2_delete_objects :: "ext \<Rightarrow> string list \<Rightarrow> unit result \<times> string list list" where
  "r2_delete_objects x keys = (if keys = [] then (Inr (), []) else delete_batches x (chunks_of 1000 keys))"

definition r2_delete_object :: "ext \<Rightarrow> string \<Rightarrow> unit result" where
  "r2_delete_object x key =
     (if sdk_delete_one x key then Inr () else Inl (Internal ''storage deletion failed''))"

definition r2_upload_object :: "ext \<Rightarrow> string \<Rightarrow> bytes \<Rightarrow> unit result" where
  "r2_upload_object x key data =
     (if sdk_put x key data then Inr () else Inl (ServiceUnavailable ''storage upload failed''))"

subsection \<open>The storage service\<close>

record chunk_upload_url =
  cu_index :: int
  cu_segment :: int
  cu_url :: string
  cu_key :: string
  cu_already_uploaded :: bool

record download_chunk_info =
  dc_index :: int
  dc_segment :: int
  dc_size :: int
  dc_url :: string

definition require_r2 :: "ext \<Rightarrow> unit result" where
  "require_r2 x = (if r2_configured x then Inr () else Inl (ServiceUnavailable ''storage is not configured''))"

definition presign_put :: "ext \<Rightarrow> string \<Rightarrow> string result" where
  "presign_put x key = (case require_r2 x of Inl e \<Rightarrow> Inl e | Inr _ \<Rightarrow> r2_presign_put x key)"

definition presign_get :: "ext \<Rightarrow> string \<Rightarrow> string result" where
  "presign_get x key = (case require_r2 x of Inl e \<Rightarrow> Inl e | Inr _ \<Rightarrow> r2_presign_get x key)"

definition head_object :: "ext \<Rightarrow> string \<Rightarrow> string option result" where
  "head_object x key = (case require_r2 x of Inl e \<Rightarrow> Inl e | Inr _ \<Rightarrow> r2_head_object x key)"

fun upload_urls :: "ext \<Rightarrow> uuid \<Rightarrow> uuid \<Rightarrow> uuid \<Rightarrow> (int \<times> int) list \<Rightarrow> chunk_upload_url list result" where
  "upload_urls x u f v [] = Inr []"
| "upload_urls x u f v ((chunk_index, segment_index) # cs) =
     (let r2_key = chunk_key x u f v segment_index chunk_index
      in case presign_put x r2_key of
           Inl e \<Rightarrow> Inl e
         | Inr url \<Rightarrow>
             (case upload_urls x u f v cs of
                Inl e \<Rightarrow> Inl e
              | Inr rest \<Rightarrow>
                  Inr (\<lparr>cu_index = chunk_index, cu_segment = segment_index, cu_url = url,
                        cu_key = r2_key, cu_already_uploaded = False\<rparr> # rest)))"

definition generate_upload_urls ::
  "ext \<Rightarrow> uuid \<Rightarrow> uuid \<Rightarrow> uuid \<Rightarrow> (int \<times> int) list \<Rightarrow> chunk_upload_url list result" where
  "generate_upload_urls x u f v chunks =
     (case require_r2 x of Inl e \<Rightarrow> Inl e | Inr _ \<Rightarrow> upload_urls x u f v chunks)"

fun download_urls :: "ext \<Rightarrow> (int \<times> int \<times> int \<times> string) list \<Rightarrow> download_chunk_info list result" where
  "download_urls x [] = Inr []"
| "download_urls x ((chunk_index, segment_index, chunk_size, r2_key) # cs) =
     (case presign_get x r2_key of
        Inl e \<Rightarrow> Inl e
      | Inr url \<Rightarrow>
          (case download_urls x cs of
             Inl e \<Rightarrow> Inl e
           | Inr rest \<Rightarrow>
               Inr (\<lparr>dc_index = chunk_index, dc_segment = segment_index, dc_size = chunk_size,
                     dc_url = url\<rparr> # rest)))"

definition generate_download_urls ::
  "ext \<Rightarrow> (int \<times> int \<times> int \<times> string) list \<Rightarrow> download_chunk_info list result" where
  "generate_download_urls x chunks =
     (case require_r2 x of Inl e \<Rightarrow> Inl e | Inr _ \<Rightarrow> download_urls x chunks)"

definition delete_objects_best_effort :: "ext \<Rightarrow> string list \<Rightarrow> vault \<Rightarrow> vault" where
  "delete_objects_best_effort x keys w =
     (if r2_configured x \<and> keys \<noteq> []
      then w\<lparr>r2_deletes := r2_deletes w @ snd (r2_delete_objects x keys)\<rparr>
      else w)"

definition delete_objects :: "ext \<Rightarrow> string list \<Rightarrow> vault \<Rightarrow> unit result \<times> vault" where
  "delete_objects x keys w =
     (if keys = [] then (Inr (), w)
      else case require_r2 x of
             Inl e \<Rightarrow> (Inl e, w)
           | Inr _ \<Rightarrow>
               (case r2_delete_objects x keys of
                  (r, sent) \<Rightarrow> (r, w\<lparr>r2_deletes := r2_deletes w @ sent\<rparr>)))"

subsection \<open>Properties\<close>

lemma chunks_of_concat: "0 < n \<Longrightarrow> concat (chunks_of n xs) = xs"
proof (induction n xs rule: chunks_of.induct)
  case (1 n xs)
  then show ?case by (subst chunks_of.simps) auto
qed

lemma chunks_of_bound: "b \<in> set (chunks_of n xs) \<Longrightarrow> b \<noteq> [] \<and> length b \<le> n"
proof (induction n xs rule: chunks_of.induct)
  case (1 n xs)
  then show ?case by (subst (asm) chunks_of.simps) (auto split: if_splits)
qed

lemma delete_batches_prefix: "prefix (snd (delete_batches x bs)) bs"
  by (induction bs) (auto split: delete_response.splits prod.splits)

lemma delete_batches_ok:
  "fst (delete_batches x bs) = Inr () \<Longrightarrow>
     snd (delete_batches x bs) = bs \<and> (\<forall>b\<in>set bs. sdk_delete x b = DeleteDone 0)"
  by (induction bs) (auto split: delete_response.splits prod.splits if_splits)

lemma delete_objects_best_effort_frame [simp, frame]:
  "t_users (delete_objects_best_effort x ks w) = t_users w"
  "t_devices (delete_objects_best_effort x ks w) = t_devices w"
  "t_sessions (delete_objects_best_effort x ks w) = t_sessions w"
  "t_folders (delete_objects_best_effort x ks w) = t_folders w"
  "t_files (delete_objects_best_effort x ks w) = t_files w"
  "t_versions (delete_objects_best_effort x ks w) = t_versions w"
  "t_chunks (delete_objects_best_effort x ks w) = t_chunks w"
  "t_shares (delete_objects_best_effort x ks w) = t_shares w"
  "t_pending (delete_objects_best_effort x ks w) = t_pending w"
  "t_audit (delete_objects_best_effort x ks w) = t_audit w"
  by (simp_all add: delete_objects_best_effort_def)

lemma upload_urls_ok:
  "upload_urls x u f v cs = Inr urls \<Longrightarrow>
     map (\<lambda>r. (cu_index r, cu_segment r)) urls = cs \<and>
     (\<forall>r\<in>set urls. cu_key r = chunk_key x u f v (cu_segment r) (cu_index r) \<and>
        presign_put x (chunk_key x u f v (cu_segment r) (cu_index r)) = Inr (cu_url r) \<and>
        \<not> cu_already_uploaded r)"
  by (induction cs arbitrary: urls) (auto simp: Let_def split: sum.splits)

lemma download_urls_ok:
  "download_urls x cs = Inr infos \<Longrightarrow>
     map (\<lambda>r. (dc_index r, dc_segment r, dc_size r)) infos = map (\<lambda>(i, s, z, k). (i, s, z)) cs \<and>
     list_all2 (\<lambda>r (i, s, z, k). presign_get x k = Inr (dc_url r)) infos cs"
  by (induction cs arbitrary: infos) (auto split: sum.splits)

end
