(* ===== verification/Integrity.thy ===== *)
theory Integrity
  imports Storage
begin

text \<open>
  The invariants of the database and their preservation by single statements.
  \<open>integrity\<close> collects the keys, unique constraints and foreign keys of the migrations;
  \<open>version_ok\<close> is what the file service keeps between files and versions: an active
  version is the current version of its file, and the current version of a file is one
  of its own versions.
\<close>

subsection \<open>Invariants\<close>

definition folder_ids :: "vault \<Rightarrow> uuid set" where
  "folder_ids w = fo_id ` set (t_folders w)"

definition file_ids :: "vault \<Rightarrow> uuid set" where
  "file_ids w = f_id ` set (t_files w)"

definition version_ids :: "vault \<Rightarrow> uuid set" where
  "version_ids w = v_id ` set (t_versions w)"

definition chunk_keys :: "vault \<Rightarrow> string set" where
  "chunk_keys w = c_key ` set (t_chunks w)"

definition queued_keys :: "vault \<Rightarrow> string set" where
  "queued_keys w = p_key ` set (t_pending w)"

definition pk_ok :: "vault \<Rightarrow> bool" where
  "pk_ok w \<longleftrightarrow> ukey fo_id (t_folders w) \<and> ukey f_id (t_files w) \<and> ukey v_id (t_versions w) \<and>
     ukey c_id (t_chunks w) \<and> ukey p_key (t_pending w)"

definition fk_ok :: "vault \<Rightarrow> bool" where
  "fk_ok w \<longleftrightarrow>
     fkey fo_parent fo_id (t_folders w) (t_folders w) \<and>
     fkey f_folder fo_id (t_files w) (t_folders w) \<and>
     fkey f_current v_id (t_files w) (t_versions w) \<and>
     fkey (\<lambda>v. Some (v_file v)) f_id (t_versions w) (t_files w) \<and>
     fkey (\<lambda>c. Some (c_version c)) v_id (t_chunks w) (t_versions w)"

definition uniq_ok :: "vault \<Rightarrow> bool" where
  "uniq_ok w \<longleftrightarrow> ukey (\<lambda>v. (v_file v, v_number v)) (t_versions w) \<and>
     ukey (\<lambda>c. (c_version c, c_index c)) (t_chunks w)"

definition integrity :: "vault \<Rightarrow> bool" where
  "integrity w \<longleftrightarrow> pk_ok w \<and> fk_ok w \<and> uniq_ok w"

definition active_ok :: "file_row list \<Rightarrow> version_row list \<Rightarrow> bool" where
  "active_ok fs vs \<longleftrightarrow>
     (\<forall>v\<in>set vs. \<forall>f\<in>set fs. v_active v \<longrightarrow> f_id f = v_file v \<longrightarrow> f_current f = Some (v_id v))"

definition current_ok :: "file_row list \<Rightarrow> version_row list \<Rightarrow> bool" where
  "current_ok fs vs \<longleftrightarrow>
     (\<forall>f\<in>set fs. \<forall>v\<in>set vs. f_current f = Some (v_id v) \<longrightarrow> v_file v = f_id f)"

definition version_ok :: "vault \<Rightarrow> bool" where
  "version_ok w \<longleftrightarrow> active_ok (t_files w) (t_versions w) \<and> current_ok (t_files w) (t_versions w)"

definition vault_inv :: "vault \<Rightarrow> bool" where
  "vault_inv w \<longleftrightarrow> integrity w \<and> version_ok w"

lemmas vault_inv_defs = vault_inv_def integrity_def pk_ok_def fk_ok_def uniq_ok_def version_ok_def

text \<open>Together with the keys this is the reading a client relies on.\<close>

lemma active_okD:
  "active_ok fs vs \<Longrightarrow> v \<in> set vs \<Longrightarrow> f \<in> set fs \<Longrightarrow> v_active v \<Longrightarrow> f_id f = v_file v \<Longrightarrow>
     f_current f = Some (v_id v)"
  by (simp add: active_ok_def)

lemma current_okD:
  "current_ok fs vs \<Longrightarrow> f \<in> set fs \<Longrightarrow> v \<in> set vs \<Longrightarrow> f_current f = Some (v_id v) \<Longrightarrow> v_file v = f_id f"
  by (simp add: current_ok_def)

lemma vault_invD:
  assumes "vault_inv w"
  shows "ukey fo_id (t_folders w)" "ukey f_id (t_files w)" "ukey v_id (t_versions w)"
    "ukey c_id (t_chunks w)" "ukey p_key (t_pending w)"
    "fkey fo_parent fo_id (t_folders w) (t_folders w)" "fkey f_folder fo_id (t_files w) (t_folders w)"
    "fkey f_current v_id (t_files w) (t_versions w)"
    "fkey (\<lambda>v. Some (v_file v)) f_id (t_versions w) (t_files w)"
    "fkey (\<lambda>c. Some (c_version c)) v_id (t_chunks w) (t_versions w)"
    "active_ok (t_files w) (t_versions w)" "current_ok (t_files w) (t_versions w)"
    "ukey (\<lambda>c. (c_version c, c_index c)) (t_chunks w)"
    "ukey (\<lambda>v. (v_file v, v_number v)) (t_versions w)"
  using assms by (simp_all add: vault_inv_defs)

lemma version_file:
  assumes "vault_inv w" and "v \<in> set (t_versions w)"
  obtains f where "f \<in> set (t_files w)" "f_id f = v_file v"
  using fkeyD [OF vault_invD(9) [OF assms(1)] assms(2)] by auto

lemma one_active_version:
  assumes "vault_inv w" and "v \<in> set (t_versions w)" and "v' \<in> set (t_versions w)"
    and "v_active v" and "v_active v'" and "v_file v = v_file v'"
  shows "v = v'"
proof -
  obtain f where f: "f \<in> set (t_files w)" "f_id f = v_file v"
    using assms(1,2) by (rule version_file)
  have "f_current f = Some (v_id v)" "f_current f = Some (v_id v')"
    using assms f vault_invD(11) [OF assms(1)] by (auto intro: active_okD)
  then have "v_id v = v_id v'" by simp
  with assms(2,3) show ?thesis using ukeyD [OF vault_invD(3) [OF assms(1)]] by blast
qed

text \<open>The invariants read the tables only.\<close>

lemma vault_inv_cong:
  assumes "t_folders w' = t_folders w" "t_files w' = t_files w" "t_versions w' = t_versions w"
    "t_chunks w' = t_chunks w" "t_pending w' = t_pending w"
  shows "vault_inv w' = vault_inv w"
  using assms by (simp add: vault_inv_defs)

named_theorems inv_intro \<open>statements that preserve the invariant\<close>

lemma vault_inv_send [simp]: "vault_inv (send_event u e w) = vault_inv w"
  by (rule vault_inv_cong) simp_all

lemma vault_inv_file_broadcast [simp]: "vault_inv (file_broadcast u e w) = vault_inv w"
  by (rule vault_inv_cong) simp_all

lemma vault_inv_broadcast_sync [simp]: "vault_inv (broadcast_sync u e w) = vault_inv w"
  by (rule vault_inv_cong) simp_all

lemma vault_inv_audit_ok [simp]: "vault_inv (audit_log_ok now u d ev meta w) = vault_inv w"
  by (rule vault_inv_cong) simp_all

lemma vault_inv_best_effort [simp]: "vault_inv (delete_objects_best_effort x ks w) = vault_inv w"
  by (rule vault_inv_cong) simp_all

lemma vault_inv_audit: "audit_log now u d ev meta w = Inr w' \<Longrightarrow> vault_inv w' = vault_inv w"
  by (rule vault_inv_cong) (auto dest: audit_log_Inr)

lemma vault_inv_shares [simp]: "vault_inv (w\<lparr>t_shares := sh\<rparr>) = vault_inv w"
  by (rule vault_inv_cong) simp_all

lemma vault_inv_r2 [simp]: "vault_inv (w\<lparr>r2_deletes := ds\<rparr>) = vault_inv w"
  by (rule vault_inv_cong) simp_all

subsection \<open>Deletion\<close>

lemma delete_chunks_inv [inv_intro]: "vault_inv w \<Longrightarrow> vault_inv (delete_chunks P w)"
  by (simp add: vault_inv_defs delete_chunks_def ukey_del fkey_del_src)

lemma active_ok_sub:
  "active_ok fs vs \<Longrightarrow> set fs' \<subseteq> set fs \<Longrightarrow> set vs' \<subseteq> set vs \<Longrightarrow> active_ok fs' vs'"
  unfolding active_ok_def by blast

lemma current_ok_sub:
  "current_ok fs vs \<Longrightarrow> set fs' \<subseteq> set fs \<Longrightarrow> set vs' \<subseteq> set vs \<Longrightarrow> current_ok fs' vs'"
  unfolding current_ok_def by blast

text \<open>
  \<open>ON DELETE SET NULL\<close> clears a pointer of a file only when the version it points to is
  gone, so a surviving active version is still current.
\<close>

lemma set_null_version_ok:
  assumes "active_ok fs vs" "current_ok fs vs"
    and gone: "\<And>v. v \<in> set vs' \<Longrightarrow> v \<in> set vs \<and> v_id v \<notin> gone"
    and Q: "\<And>f. Q f \<longleftrightarrow> (\<exists>v\<in>gone. f_current f = Some v)"
  shows "active_ok (upd Q (\<lambda>f. f\<lparr>f_current := None\<rparr>) fs) vs' \<and>
         current_ok (upd Q (\<lambda>f. f\<lparr>f_current := None\<rparr>) fs) vs'"
proof
  show "active_ok (upd Q (\<lambda>f. f\<lparr>f_current := None\<rparr>) fs) vs'"
    unfolding active_ok_def ball_upd
  proof (intro ballI impI)
    fix v f assume v: "v \<in> set vs'" and f: "f \<in> set fs" "v_active v"
      "f_id (if Q f then f\<lparr>f_current := None\<rparr> else f) = v_file v"
    then have "f_current f = Some (v_id v)"
      using assms(1) gone by (auto intro: active_okD split: if_splits)
    moreover from this have "\<not> Q f" using Q gone [OF v] by auto
    ultimately show "f_current (if Q f then f\<lparr>f_current := None\<rparr> else f) = Some (v_id v)" by simp
  qed
  show "current_ok (upd Q (\<lambda>f. f\<lparr>f_current := None\<rparr>) fs) vs'"
    unfolding current_ok_def ball_upd using current_okD [OF assms(2)] gone by auto
qed

lemma delete_versions_inv [inv_intro]:
  assumes "vault_inv w"
  shows "vault_inv (delete_versions P w)"
proof -
  let ?gone = "map v_id (filter P (t_versions w))"
  let ?Q = "\<lambda>f. opt_in (f_current f) ?gone"
  let ?fs = "upd ?Q (\<lambda>f. f\<lparr>f_current := None\<rparr>) (t_files w)"
  note I = vault_invD [OF assms]
  have fc: "fkey f_current v_id ?fs (del P (t_versions w))"
    unfolding fkey_def ball_upd
  proof (intro ballI allI impI)
    fix f k assume f: "f \<in> set (t_files w)" "f_current (if ?Q f then f\<lparr>f_current := None\<rparr> else f) = Some k"
    then have c: "\<not> ?Q f" "f_current f = Some k" by (auto split: if_splits)
    then obtain t where "t \<in> set (t_versions w)" "v_id t = k" using fkeyD [OF I(8) f(1)] by blast
    with c show "\<exists>t\<in>set (del P (t_versions w)). v_id t = k" by auto
  qed
  have cv: "fkey (\<lambda>c. Some (c_version c)) v_id (del (\<lambda>c. c_version c \<in> set ?gone) (t_chunks w)) (del P (t_versions w))"
    by (rule fkey_del_tgt [OF fkey_del_src [OF I(10)]]) auto
  have ff: "fkey f_folder fo_id ?fs (t_folders w)"
    by (rule fkey_upd_src_keep [OF I(7)]) simp
  have vf: "fkey (\<lambda>v. Some (v_file v)) f_id (del P (t_versions w)) ?fs"
    by (rule fkey_upd_tgt [OF fkey_del_src [OF I(9)]]) simp
  have uf: "ukey f_id ?fs"
    by (rule ukey_upd [OF I(2)]) simp
  have vo: "active_ok ?fs (del P (t_versions w)) \<and> current_ok ?fs (del P (t_versions w))"
    using I(3) by (intro set_null_version_ok [OF I(11,12), where gone = "set ?gone"])
      (auto simp: opt_in_iff dest: ukeyD)
  show ?thesis
    using I fc cv ff vf uf vo
    by (simp only: vault_inv_defs delete_versions_def Let_def ukey_del vault.simps) (simp add: ukey_del)
qed

lemma drop_files_inv:
  assumes "vault_inv w" and "\<And>f v. f \<in> set (t_files w) \<Longrightarrow> P f \<Longrightarrow> v \<in> set (t_versions w) \<Longrightarrow> v_file v \<noteq> f_id f"
  shows "vault_inv (w\<lparr>t_files := del P (t_files w)\<rparr>)"
proof -
  note I = vault_invD [OF assms(1)]
  have "fkey (\<lambda>v. Some (v_file v)) f_id (t_versions w) (del P (t_files w))"
    using assms(2) by (intro fkey_del_tgt [OF I(9)]) blast
  moreover have "active_ok (del P (t_files w)) (t_versions w)" "current_ok (del P (t_files w)) (t_versions w)"
    by (auto intro: active_ok_sub [OF I(11)] current_ok_sub [OF I(12)])
  ultimately show ?thesis
    using I by (simp add: vault_inv_defs ukey_del fkey_del_src)
qed

lemma upd_del_commute:
  "(\<And>r. r \<in> set rs \<Longrightarrow> P r \<longleftrightarrow> P' (if Q r then g r else r)) \<Longrightarrow> upd Q g (del P rs) = del P' (upd Q g rs)"
  by (induction rs) (auto simp: upd_def del_def)

lemma delete_files_inv [inv_intro]:
  assumes "vault_inv w"
  shows "vault_inv (delete_files P w)"
proof -
  let ?gone = "map f_id (filter P (t_files w))"
  let ?V = "\<lambda>v. v_file v \<in> set ?gone"
  let ?w = "delete_versions ?V w"
  let ?P = "\<lambda>f. f_id f \<in> set ?gone"
  have "P f \<longleftrightarrow> f_id f \<in> set ?gone" if "f \<in> set (t_files w)" for f
    using that ukeyD [OF vault_invD(2) [OF assms]] by auto
  then have "t_files (delete_files P w) = del ?P (t_files ?w)"
    unfolding delete_files_def delete_versions_def Let_def
    by (simp add: upd_del_commute [where P' = ?P])
  then have eq: "delete_files P w = ?w\<lparr>t_files := del ?P (t_files ?w)\<rparr>"
    by (simp add: delete_files_def delete_versions_def Let_def)
  have "v_file v \<noteq> f_id f" if "?P f" "v \<in> set (t_versions ?w)" for f v
    using that by (auto simp: delete_versions_def Let_def)
  then show ?thesis
    unfolding eq by (intro drop_files_inv delete_versions_inv [OF assms])
qed

lemma set_child_edges:
  "set (child_edges P fos) = {(p, fo_id fo) |p fo. fo \<in> set fos \<and> P fo \<and> fo_parent fo = Some p}"
  by (force simp: child_edges_def split: option.splits)

lemma delete_files_folders:
  "delete_files P (w\<lparr>t_folders := X\<rparr>) = (delete_files P w)\<lparr>t_folders := X\<rparr>"
  by (simp add: delete_files_def delete_versions_def Let_def)

lemma delete_files_frame [simp, frame]:
  "t_folders (delete_files P w) = t_folders w" "t_pending (delete_files P w) = t_pending w"
  "t_shares (delete_files P w) = t_shares w" "t_users (delete_files P w) = t_users w"
  "t_devices (delete_files P w) = t_devices w" "t_sessions (delete_files P w) = t_sessions w"
  by (simp_all add: delete_files_def delete_versions_def Let_def)

lemma delete_versions_frame [simp, frame]:
  "t_folders (delete_versions P w) = t_folders w" "t_pending (delete_versions P w) = t_pending w"
  "t_shares (delete_versions P w) = t_shares w" "t_users (delete_versions P w) = t_users w"
  "t_devices (delete_versions P w) = t_devices w" "t_sessions (delete_versions P w) = t_sessions w"
  by (simp_all add: delete_versions_def Let_def)

lemma delete_chunks_frame [simp, frame]:
  "t_folders (delete_chunks P w) = t_folders w" "t_pending (delete_chunks P w) = t_pending w"
  "t_shares (delete_chunks P w) = t_shares w" "t_users (delete_chunks P w) = t_users w"
  "t_devices (delete_chunks P w) = t_devices w" "t_sessions (delete_chunks P w) = t_sessions w"
  "t_files (delete_chunks P w) = t_files w" "t_versions (delete_chunks P w) = t_versions w"
  by (simp_all add: delete_chunks_def)

lemma in_delete_files_files:
  "f \<in> set (t_files (delete_files P w)) \<Longrightarrow>
     \<exists>f0\<in>set (t_files w). \<not> P f0 \<and> (f = f0 \<or> f = f0\<lparr>f_current := None\<rparr>)"
  by (auto simp: delete_files_def delete_versions_def Let_def in_upd_iff split: if_splits)

definition folder_closure :: "(folder_row \<Rightarrow> bool) \<Rightarrow> folder_row list \<Rightarrow> uuid list" where
  "folder_closure P fos = rec_union (child_edges (\<lambda>_. True) fos) (map fo_id (filter P fos))"

lemma folder_closure_child:
  assumes "p \<in> set (folder_closure P fos)" and "fo \<in> set fos" and "fo_parent fo = Some p"
  shows "fo_id fo \<in> set (folder_closure P fos)"
proof -
  have "(p, fo_id fo) \<in> set (child_edges (\<lambda>_. True) fos)"
    using assms(2,3) by (auto simp: set_child_edges)
  with assms(1) show ?thesis
    by (auto simp: folder_closure_def set_rec_union intro: rtrancl_into_rtrancl)
qed

lemma delete_folders_inv [inv_intro]:
  assumes "vault_inv w"
  shows "vault_inv (delete_folders P w)"
proof -
  let ?gone = "folder_closure P (t_folders w)"
  let ?D = "\<lambda>fo. fo_id fo \<in> set ?gone"
  let ?w = "delete_files (\<lambda>f. opt_in (f_folder f) ?gone) w"
  have eq: "delete_folders P w = ?w\<lparr>t_folders := del ?D (t_folders w)\<rparr>"
    by (simp add: delete_folders_def folder_closure_def Let_def delete_files_folders)
  have inv: "vault_inv ?w" by (rule delete_files_inv [OF assms])
  note I = vault_invD [OF inv]
  have "fkey fo_parent fo_id (del ?D (t_folders w)) (del ?D (t_folders w))"
    using folder_closure_child by (intro fkey_del_tgt [OF fkey_del_src]) (use vault_invD(6) [OF assms] in auto)
  moreover have "fkey f_folder fo_id (t_files ?w) (del ?D (t_folders w))"
    using I(7) by (intro fkey_del_tgt) (auto dest!: in_delete_files_files)
  ultimately show ?thesis
    using I unfolding eq by (simp add: vault_inv_defs ukey_del)
qed

subsection \<open>Updates and insertions\<close>

lemma active_ok_upd_files:
  assumes "active_ok fs vs" and "\<And>f. P f \<Longrightarrow> f_id (g f) = f_id f" and "\<And>f. P f \<Longrightarrow> f_current (g f) = f_current f"
  shows "active_ok (upd P g fs) vs"
  unfolding active_ok_def ball_upd
  by (intro ballI impI) (use assms in \<open>auto intro: active_okD split: if_splits\<close>)

lemma current_ok_upd_files:
  assumes "current_ok fs vs" and "\<And>f. P f \<Longrightarrow> f_id (g f) = f_id f" and "\<And>f. P f \<Longrightarrow> f_current (g f) = f_current f"
  shows "current_ok (upd P g fs) vs"
  unfolding current_ok_def ball_upd
  by (intro ballI impI) (use assms in \<open>auto intro: current_okD split: if_splits\<close>)

lemma active_ok_app_file:
  "active_ok fs vs \<Longrightarrow> (\<And>v. v \<in> set vs \<Longrightarrow> v_file v \<noteq> f_id r) \<Longrightarrow> active_ok (fs @ [r]) vs"
  unfolding active_ok_def by fastforce

lemma current_ok_app_file: "current_ok fs vs \<Longrightarrow> f_current r = None \<Longrightarrow> current_ok (fs @ [r]) vs"
  unfolding current_ok_def by fastforce

lemma active_ok_app_version: "active_ok fs vs \<Longrightarrow> \<not> v_active r \<Longrightarrow> active_ok fs (vs @ [r])"
  unfolding active_ok_def by fastforce

lemma current_ok_app_version:
  "current_ok fs vs \<Longrightarrow> (\<And>f. f \<in> set fs \<Longrightarrow> f_current f \<noteq> Some (v_id r)) \<Longrightarrow> current_ok fs (vs @ [r])"
  unfolding current_ok_def by fastforce

lemma upd_files_inv:
  assumes "vault_inv w" and "\<And>f. P f \<Longrightarrow> f_id (g f) = f_id f" and "\<And>f. P f \<Longrightarrow> f_current (g f) = f_current f"
    and "\<And>f d. f \<in> set (t_files w) \<Longrightarrow> P f \<Longrightarrow> f_folder (g f) = Some d \<Longrightarrow>
           f_folder f = Some d \<or> (\<exists>fo\<in>set (t_folders w). fo_id fo = d)"
  shows "vault_inv (w\<lparr>t_files := upd P g (t_files w)\<rparr>)"
proof -
  note I = vault_invD [OF assms(1)]
  have "active_ok (upd P g (t_files w)) (t_versions w)" "current_ok (upd P g (t_files w)) (t_versions w)"
    using assms(2,3) by (auto intro: active_ok_upd_files [OF I(11)] current_ok_upd_files [OF I(12)])
  moreover have "fkey f_folder fo_id (upd P g (t_files w)) (t_folders w)"
    using assms(4) by (intro fkey_upd_src [OF I(7)]) auto
  moreover have "ukey f_id (upd P g (t_files w))" "fkey f_current v_id (upd P g (t_files w)) (t_versions w)"
    "fkey (\<lambda>v. Some (v_file v)) f_id (t_versions w) (upd P g (t_files w))"
    using assms(2,3) by (auto intro: ukey_upd [OF I(2)] fkey_upd_src_keep [OF I(8)] fkey_upd_tgt [OF I(9)])
  ultimately show ?thesis
    using I by (simp add: vault_inv_defs)
qed

lemma upd_folders_inv:
  assumes "vault_inv w" and "\<And>fo. P fo \<Longrightarrow> fo_id (g fo) = fo_id fo"
    and "\<And>fo d. fo \<in> set (t_folders w) \<Longrightarrow> P fo \<Longrightarrow> fo_parent (g fo) = Some d \<Longrightarrow>
           fo_parent fo = Some d \<or> (\<exists>fo\<in>set (t_folders w). fo_id fo = d)"
  shows "vault_inv (w\<lparr>t_folders := upd P g (t_folders w)\<rparr>)"
proof -
  note I = vault_invD [OF assms(1)]
  have "fkey fo_parent fo_id (upd P g (t_folders w)) (upd P g (t_folders w))"
    using assms(2,3) by (intro fkey_upd_tgt fkey_upd_src [OF I(6)]) auto
  moreover have "ukey fo_id (upd P g (t_folders w))" "fkey f_folder fo_id (t_files w) (upd P g (t_folders w))"
    using assms(2) by (auto intro: ukey_upd [OF I(1)] fkey_upd_tgt [OF I(7)])
  ultimately show ?thesis
    using I by (simp add: vault_inv_defs)
qed

lemma upd_chunks_inv:
  assumes "vault_inv w" and "\<And>c. P c \<Longrightarrow> c_id (g c) = c_id c \<and> c_version (g c) = c_version c \<and> c_index (g c) = c_index c"
  shows "vault_inv (w\<lparr>t_chunks := upd P g (t_chunks w)\<rparr>)"
proof -
  note I = vault_invD [OF assms(1)]
  have "ukey c_id (upd P g (t_chunks w))" "ukey (\<lambda>c. (c_version c, c_index c)) (upd P g (t_chunks w))"
    "fkey (\<lambda>c. Some (c_version c)) v_id (upd P g (t_chunks w)) (t_versions w)"
    using assms(2) by (auto intro: ukey_upd [OF I(4)] ukey_upd [OF I(13)] fkey_upd_src_keep [OF I(10)])
  then show ?thesis using I by (simp add: vault_inv_defs)
qed

lemma upd_versions_inv:
  assumes "vault_inv w" and "\<And>v. P v \<Longrightarrow> v_id (g v) = v_id v \<and> v_file (g v) = v_file v \<and> v_number (g v) = v_number v"
    and "\<And>v. v \<in> set (t_versions w) \<Longrightarrow> P v \<Longrightarrow> v_active (g v) \<Longrightarrow>
      v_active v \<or> (\<forall>f\<in>set (t_files w). f_id f = v_file v \<longrightarrow> f_current f = Some (v_id v))"
  shows "vault_inv (w\<lparr>t_versions := upd P g (t_versions w)\<rparr>)"
proof -
  note I = vault_invD [OF assms(1)]
  have "active_ok (t_files w) (upd P g (t_versions w))"
    unfolding active_ok_def ball_upd
  proof (intro ballI impI)
    fix v f assume "v \<in> set (t_versions w)" "f \<in> set (t_files w)"
      "v_active (if P v then g v else v)" "f_id f = v_file (if P v then g v else v)"
    then show "f_current f = Some (v_id (if P v then g v else v))"
      using active_okD [OF I(11), of v f] assms(2) [of v] assms(3) [of v] by (cases "P v") auto
  qed
  moreover have "current_ok (t_files w) (upd P g (t_versions w))"
    using I(12) assms(2) by (auto simp: current_ok_def ball_upd)
  moreover have "ukey v_id (upd P g (t_versions w))" "ukey (\<lambda>v. (v_file v, v_number v)) (upd P g (t_versions w))"
    "fkey f_current v_id (t_files w) (upd P g (t_versions w))"
    "fkey (\<lambda>v. Some (v_file v)) f_id (upd P g (t_versions w)) (t_files w)"
    "fkey (\<lambda>c. Some (c_version c)) v_id (t_chunks w) (upd P g (t_versions w))"
    using assms(2) by (auto intro: ukey_upd [OF I(3)] ukey_upd [OF I(14)] fkey_upd_tgt [OF I(8)]
        fkey_upd_src_keep [OF I(9)] fkey_upd_tgt [OF I(10)])
  ultimately show ?thesis
    using I by (simp add: vault_inv_defs)
qed

lemma insert_file_Inr:
  assumes "insert_file r w = Inr w'"
  shows "w' = w\<lparr>t_files := t_files w @ [r]\<rparr>" and "\<And>f. f \<in> set (t_files w) \<Longrightarrow> f_id f \<noteq> f_id r"
    and "\<And>d. f_folder r = Some d \<Longrightarrow> \<exists>fo\<in>set (t_folders w). fo_id fo = d"
    and "length (f_nonce r) = 24" and "0 \<le> f_size r" and "user_exists w (f_user r)"
  using assms by (auto simp: insert_file_def folder_exists_def split: if_splits)

lemma insert_file_inv:
  assumes "insert_file r w = Inr w'" and "vault_inv w" and "f_current r = None"
  shows "vault_inv w'"
proof -
  note I = vault_invD [OF assms(2)]
  note J = insert_file_Inr [OF assms(1)]
  have "v_file v \<noteq> f_id r" if "v \<in> set (t_versions w)" for v
    using version_file [OF assms(2) that] J(2) by metis
  then have "active_ok (t_files w @ [r]) (t_versions w)" "current_ok (t_files w @ [r]) (t_versions w)"
    using assms(3) by (auto intro: active_ok_app_file [OF I(11)] current_ok_app_file [OF I(12)])
  moreover have "ukey f_id (t_files w @ [r])" "fkey f_folder fo_id (t_files w @ [r]) (t_folders w)"
    "fkey f_current v_id (t_files w @ [r]) (t_versions w)"
    "fkey (\<lambda>v. Some (v_file v)) f_id (t_versions w) (t_files w @ [r])"
    using J(2,3) assms(3) by (auto intro: ukey_app [OF I(2)] fkey_app_src [OF I(7)] fkey_app_src [OF I(8)]
        fkey_app_tgt [OF I(9)])
  ultimately show ?thesis
    using I by (simp add: vault_inv_defs J(1))
qed

lemma insert_version_Inr:
  assumes "insert_version r w = Inr w'"
  shows "w' = w\<lparr>t_versions := t_versions w @ [r]\<rparr>" and "\<And>v. v \<in> set (t_versions w) \<Longrightarrow> v_id v \<noteq> v_id r"
    and "\<And>v. v \<in> set (t_versions w) \<Longrightarrow> (v_file v, v_number v) \<noteq> (v_file r, v_number r)"
    and "\<exists>f\<in>set (t_files w). f_id f = v_file r"
    and "0 < v_total_chunks r" and "0 < v_number r" and "length (v_header r) = 24"
  using assms by (auto simp: insert_version_def split: if_splits)

lemma insert_version_inv:
  assumes "insert_version r w = Inr w'" and "vault_inv w" and "\<not> v_active r"
  shows "vault_inv w'"
proof -
  note I = vault_invD [OF assms(2)]
  note J = insert_version_Inr [OF assms(1)]
  have "f_current f \<noteq> Some (v_id r)" if "f \<in> set (t_files w)" for f
    using fkeyD [OF I(8) that] J(2) by blast
  then have "active_ok (t_files w) (t_versions w @ [r])" "current_ok (t_files w) (t_versions w @ [r])"
    using assms(3) by (auto intro: active_ok_app_version [OF I(11)] current_ok_app_version [OF I(12)])
  moreover have "ukey v_id (t_versions w @ [r])" "ukey (\<lambda>v. (v_file v, v_number v)) (t_versions w @ [r])"
    "fkey f_current v_id (t_files w) (t_versions w @ [r])"
    "fkey (\<lambda>v. Some (v_file v)) f_id (t_versions w @ [r]) (t_files w)"
    "fkey (\<lambda>c. Some (c_version c)) v_id (t_chunks w) (t_versions w @ [r])"
    using J(2-4) by (auto intro: ukey_app [OF I(3)] ukey_app [OF I(14)] fkey_app_tgt [OF I(8)]
        fkey_app_src [OF I(9)] fkey_app_tgt [OF I(10)])
  ultimately show ?thesis
    using I by (simp add: vault_inv_defs J(1))
qed

lemma insert_chunk_Inr:
  assumes "insert_chunk r w = Inr w'"
  shows "w' = w\<lparr>t_chunks := t_chunks w @ [r]\<rparr>" and "\<And>c. c \<in> set (t_chunks w) \<Longrightarrow> c_id c \<noteq> c_id r"
    and "\<And>c. c \<in> set (t_chunks w) \<Longrightarrow> (c_version c, c_index c) \<noteq> (c_version r, c_index r)"
    and "\<exists>v\<in>set (t_versions w). v_id v = c_version r"
    and "0 < c_size r" and "0 \<le> c_index r" and "0 \<le> c_segment r"
  using assms by (auto simp: insert_chunk_def split: if_splits)

lemma insert_chunk_inv:
  assumes "insert_chunk r w = Inr w'" and "vault_inv w"
  shows "vault_inv w'"
proof -
  note I = vault_invD [OF assms(2)]
  note J = insert_chunk_Inr [OF assms(1)]
  have "ukey c_id (t_chunks w @ [r])" "ukey (\<lambda>c. (c_version c, c_index c)) (t_chunks w @ [r])"
    "fkey (\<lambda>c. Some (c_version c)) v_id (t_chunks w @ [r]) (t_versions w)"
    using J(2-4) by (auto intro: ukey_app [OF I(4)] ukey_app [OF I(13)] fkey_app_src [OF I(10)])
  then show ?thesis
    using I by (simp add: vault_inv_defs J(1))
qed

lemma insert_folder_Inr:
  assumes "insert_folder r w = Inr w'"
  shows "w' = w\<lparr>t_folders := t_folders w @ [r]\<rparr>" and "\<And>fo. fo \<in> set (t_folders w) \<Longrightarrow> fo_id fo \<noteq> fo_id r"
    and "\<And>p. fo_parent r = Some p \<Longrightarrow> p = fo_id r \<or> (\<exists>fo\<in>set (t_folders w). fo_id fo = p)"
    and "length (fo_nonce r) = 24" and "user_exists w (fo_user r)"
  using assms by (auto simp: insert_folder_def folder_exists_def split: if_splits)

lemma insert_folder_inv:
  assumes "insert_folder r w = Inr w'" and "vault_inv w"
  shows "vault_inv w'"
proof -
  note I = vault_invD [OF assms(2)]
  note J = insert_folder_Inr [OF assms(1)]
  have "fkey fo_parent fo_id (t_folders w @ [r]) (t_folders w @ [r])"
    using I(6) J(3) by (auto simp: fkey_def)
  moreover have "ukey fo_id (t_folders w @ [r])" "fkey f_folder fo_id (t_files w) (t_folders w @ [r])"
    using J(2) by (auto intro: ukey_app [OF I(1)] fkey_app_tgt [OF I(7)])
  ultimately show ?thesis
    using I by (simp add: vault_inv_defs J(1))
qed

text \<open>Pointing a file at one of its versions, when no other version of it is active.\<close>

lemma set_current_inv:
  assumes "vault_inv w" and "ver \<in> set (t_versions w)"
    and "\<And>v. v \<in> set (t_versions w) \<Longrightarrow> v_file v = v_file ver \<Longrightarrow> v_active v \<Longrightarrow> v = ver"
    and "\<And>f. P f \<Longrightarrow> f_id f = v_file ver"
    and g: "\<And>f. f_id (g f) = f_id f" "\<And>f. f_folder (g f) = f_folder f" "\<And>f. f_current (g f) = Some (v_id ver)"
  shows "vault_inv (w\<lparr>t_files := upd P g (t_files w)\<rparr>)"
proof -
  note I = vault_invD [OF assms(1)]
  have "active_ok (upd P g (t_files w)) (t_versions w)"
    unfolding active_ok_def ball_upd
  proof (intro ballI impI)
    fix v f assume v: "v \<in> set (t_versions w)" "f \<in> set (t_files w)" "v_active v"
      "f_id (if P f then g f else f) = v_file v"
    show "f_current (if P f then g f else f) = Some (v_id v)"
    proof (cases "P f")
      case True
      then have "v = ver" using v assms(3,4) g(1) by simp
      then show ?thesis using True g(3) by simp
    next
      case False
      with v show ?thesis by (simp add: active_okD [OF I(11)])
    qed
  qed
  moreover have "current_ok (upd P g (t_files w)) (t_versions w)"
    using current_okD [OF I(12)] ukeyD [OF I(3) assms(2)] assms(4) g
    by (auto simp: current_ok_def ball_upd)
  moreover have "fkey f_current v_id (upd P g (t_files w)) (t_versions w)"
    using assms(2) g by (intro fkey_upd_src [OF I(8)]) auto
  moreover have "ukey f_id (upd P g (t_files w))" "fkey f_folder fo_id (upd P g (t_files w)) (t_folders w)"
    "fkey (\<lambda>v. Some (v_file v)) f_id (t_versions w) (upd P g (t_files w))"
    using g by (auto intro: ukey_upd [OF I(2)] fkey_upd_src_keep [OF I(7)] fkey_upd_tgt [OF I(9)])
  ultimately show ?thesis
    using I by (simp add: vault_inv_defs)
qed

lemma queue_keys_spec:
  "p_key ` set (queue_keys now u ks ps) = p_key ` set ps \<union> set ks" (is ?keys)
  "ukey p_key ps \<Longrightarrow> ukey p_key (queue_keys now u ks ps)"
  "set ps \<subseteq> set (queue_keys now u ks ps)"
proof (induction ks arbitrary: ps)
  case (Cons k ks)
  {
    case 1
    show ?case using Cons(1) by (auto simp: image_iff)
  next
    case 2
    then show ?case by (auto intro!: Cons(2) ukey_app)
  next
    case 3
    have "set ps \<subseteq> set (if has_row (\<lambda>p. p_key p = k) ps then ps
        else ps @ [\<lparr>p_key = k, p_user = u, p_created_at = now, p_attempts = 0,
                    p_last_attempt_at = None, p_last_error = None\<rparr>])" by auto
    also note Cons(3)
    finally show ?case by simp
  }
qed auto

lemma queue_deletions_inv [inv_intro]: "vault_inv w \<Longrightarrow> vault_inv (queue_deletions now u ks w)"
  by (simp add: vault_inv_defs queue_deletions_def queue_keys_spec)

lemma queue_deletions_frame [simp, frame]:
  "t_folders (queue_deletions now u ks w) = t_folders w" "t_files (queue_deletions now u ks w) = t_files w"
  "t_versions (queue_deletions now u ks w) = t_versions w" "t_chunks (queue_deletions now u ks w) = t_chunks w"
  "t_shares (queue_deletions now u ks w) = t_shares w" "t_users (queue_deletions now u ks w) = t_users w"
  "t_devices (queue_deletions now u ks w) = t_devices w" "t_sessions (queue_deletions now u ks w) = t_sessions w"
  by (simp_all add: queue_deletions_def)

end
