(* ===== verification/Purge.thy ===== *)
theory Purge
  imports Integrity
begin

text \<open>
  Permanent deletion: \<open>hard_delete_files\<close> of \<open>src/features/files/service.rs\<close>, which every
  purge path of the file and folder services calls inside its transaction, and the
  subtree query they share. The lemmas say what it removes, that no object key is lost
  (each is still referenced or queued for deletion), and whose rows it touches.
\<close>

subsection \<open>The shared subtree query\<close>

text \<open>
  \<open>WITH RECURSIVE tree AS (SELECT folder_id FROM folders WHERE folder_id = ANY($1) AND
  user_id = $2 UNION ...)\<close>.
\<close>

definition subtree :: "vault \<Rightarrow> uuid list \<Rightarrow> uuid \<Rightarrow> uuid list" where
  "subtree w roots u =
     rec_union (child_edges (\<lambda>fo. fo_user fo = u) (t_folders w))
       (map fo_id (filter (\<lambda>fo. fo_id fo \<in> set roots \<and> fo_user fo = u) (t_folders w)))"

subsection \<open>Hard deletion\<close>

definition hard_delete_files ::
  "timestamp \<Rightarrow> uuid list \<Rightarrow> uuid option \<Rightarrow> vault \<Rightarrow> (nat \<times> string list) \<times> vault" where
  "hard_delete_files now fids user_id w =
     (if fids = [] then ((0, []), w)
      else
        let touched_keys = map c_key (filter (\<lambda>c. has_row (\<lambda>v. v_id v = c_version c \<and> v_file v \<in> set fids)
                                                     (t_versions w)) (t_chunks w));
            w1 = delete_chunks (\<lambda>c. c_version c \<in> set (map v_id (filter (\<lambda>v. v_file v \<in> set fids) (t_versions w)))) w;
            w2 = delete_versions (\<lambda>v. v_file v \<in> set fids) w1;
            deleted = row_count (\<lambda>f. f_id f \<in> set fids) (t_files w2);
            w3 = delete_files (\<lambda>f. f_id f \<in> set fids) w2;
            w4 = w3\<lparr>t_shares := upd (\<lambda>s. sh_type s = ''file'' \<and> sh_item s \<in> set fids \<and> sh_revoked_at s = None)
                                  (\<lambda>s. s\<lparr>sh_revoked_at := Some now\<rparr>) (t_shares w3)\<rparr>;
            keys = filter (\<lambda>k. \<not> has_row (\<lambda>c. c_key c = k) (t_chunks w4)) touched_keys;
            w5 = (if keys \<noteq> [] then queue_deletions now user_id keys w4 else w4)
        in ((deleted, keys), w5))"

subsection \<open>Object keys\<close>

text \<open>
  What the comment on the deletion queue promises of a transaction: every object key that
  a chunk row named is still named by a chunk row, or is in the queue; and nothing leaves
  the queue.
\<close>

definition keys_safe :: "vault \<Rightarrow> vault \<Rightarrow> bool" where
  "keys_safe w w' \<longleftrightarrow> chunk_keys w \<subseteq> chunk_keys w' \<union> queued_keys w' \<and> queued_keys w \<subseteq> queued_keys w'"

lemma keys_safe_refl [simp]: "keys_safe w w"
  by (simp add: keys_safe_def)

lemma keys_safe_trans: "keys_safe w w' \<Longrightarrow> keys_safe w' w'' \<Longrightarrow> keys_safe w w''"
  unfolding keys_safe_def by blast

lemma keys_safe_cong:
  "t_chunks w' = t_chunks w \<Longrightarrow> t_pending w' = t_pending w \<Longrightarrow> keys_safe w w'"
  by (simp add: keys_safe_def chunk_keys_def queued_keys_def)

lemma keys_safe_right_cong:
  "t_chunks w2 = t_chunks w1 \<Longrightarrow> t_pending w2 = t_pending w1 \<Longrightarrow> keys_safe w w2 = keys_safe w w1"
  by (simp add: keys_safe_def chunk_keys_def queued_keys_def)

lemma queued_queue_deletions:
  "queued_keys (queue_deletions now u ks w) = queued_keys w \<union> set ks"
  by (simp add: queued_keys_def queue_deletions_def queue_keys_spec)

text \<open>The chunks that survive a hard deletion: those of other files.\<close>

definition file_chunk :: "vault \<Rightarrow> uuid list \<Rightarrow> chunk_row \<Rightarrow> bool" where
  "file_chunk w fids c \<longleftrightarrow> (\<exists>v\<in>set (t_versions w). v_id v = c_version c \<and> v_file v \<in> set fids)"

lemma delete_versions_none:
  assumes "\<And>v. v \<in> set (t_versions w) \<Longrightarrow> \<not> P v"
  shows "delete_versions P w = w"
proof -
  have "filter P (t_versions w) = []" using assms by (simp add: filter_empty_conv)
  then show ?thesis using assms by (simp add: delete_versions_def Let_def del_none upd_none)
qed

lemma delete_files_no_versions:
  assumes "\<And>f v. f \<in> set (t_files w) \<Longrightarrow> P f \<Longrightarrow> v \<in> set (t_versions w) \<Longrightarrow> v_file v \<noteq> f_id f"
  shows "delete_files P w = w\<lparr>t_files := del P (t_files w)\<rparr>"
  using assms unfolding delete_files_def Let_def by (subst delete_versions_none) auto

text \<open>The state after the three deletions, before shares and the queue.\<close>

definition purged :: "uuid list \<Rightarrow> vault \<Rightarrow> vault" where
  "purged fids w =
     w\<lparr>t_versions := del (\<lambda>v. v_file v \<in> set fids) (t_versions w),
       t_chunks := del (file_chunk w fids) (t_chunks w),
       t_files := del (\<lambda>f. f_id f \<in> set fids)
         (upd (\<lambda>f. opt_in (f_current f) (map v_id (filter (\<lambda>v. v_file v \<in> set fids) (t_versions w))))
            (\<lambda>f. f\<lparr>f_current := None\<rparr>) (t_files w))\<rparr>"

lemma purge_steps:
  "delete_files (\<lambda>f. f_id f \<in> set fids) (delete_versions (\<lambda>v. v_file v \<in> set fids)
     (delete_chunks (\<lambda>c. c_version c \<in> set (map v_id (filter (\<lambda>v. v_file v \<in> set fids) (t_versions w)))) w))
   = purged fids w"
proof -
  let ?V = "\<lambda>v. v_file v \<in> set fids"
  let ?C = "\<lambda>c. c_version c \<in> set (map v_id (filter ?V (t_versions w)))"
  let ?w2 = "delete_versions ?V (delete_chunks ?C w)"
  have "delete_files (\<lambda>f. f_id f \<in> set fids) ?w2 = ?w2\<lparr>t_files := del (\<lambda>f. f_id f \<in> set fids) (t_files ?w2)\<rparr>"
    by (rule delete_files_no_versions) (auto simp: delete_versions_def Let_def)
  moreover have "?C = file_chunk w fids"
    by (rule ext) (force simp: file_chunk_def)
  then have "t_chunks ?w2 = del (file_chunk w fids) (t_chunks w)"
    unfolding delete_versions_def delete_chunks_def Let_def by (simp add: del_def conj_commute)
  ultimately show ?thesis
    by (simp add: purged_def delete_versions_def delete_chunks_def Let_def)
qed

lemma hard_delete_files_eq:
  assumes "fids \<noteq> []"
  shows "hard_delete_files now fids u w =
    (let ks = filter (\<lambda>k. k \<notin> chunk_keys (purged fids w)) (map c_key (filter (file_chunk w fids) (t_chunks w)));
         w4 = (purged fids w)\<lparr>t_shares := upd (\<lambda>s. sh_type s = ''file'' \<and> sh_item s \<in> set fids \<and> sh_revoked_at s = None)
                 (\<lambda>s. s\<lparr>sh_revoked_at := Some now\<rparr>) (t_shares w)\<rparr>
     in ((row_count (\<lambda>f. f_id f \<in> set fids) (t_files w), ks), queue_deletions now u ks w4))"
proof -
  let ?fs = "t_files (delete_versions (\<lambda>v. v_file v \<in> set fids)
     (delete_chunks (\<lambda>c. c_version c \<in> set (map v_id (filter (\<lambda>v. v_file v \<in> set fids) (t_versions w)))) w))"
  have cnt: "row_count (\<lambda>f. f_id f \<in> set fids) ?fs = row_count (\<lambda>f. f_id f \<in> set fids) (t_files w)"
    by (simp add: delete_versions_def delete_chunks_def Let_def row_count_def upd_def filter_map o_def if_distrib
        cong: if_cong)
  have keys: "(\<exists>c\<in>set cs. c_key c = k) \<longleftrightarrow> k \<in> c_key ` set cs" for k cs by auto
  have nil: "queue_deletions now u [] x = x" for x by (simp add: queue_deletions_def)
  have touched: "(\<lambda>c. has_row (\<lambda>v. v_id v = c_version c \<and> v_file v \<in> set fids) (t_versions w)) = file_chunk w fids"
    by (rule ext) (simp add: file_chunk_def)
  have shares: "t_shares (purged fids w) = t_shares w" by (simp add: purged_def)
  show ?thesis
    unfolding hard_delete_files_def Let_def purge_steps cnt touched chunk_keys_def keys [symmetric] shares
    using assms nil by simp
qed

lemma purged_inv [inv_intro]: "vault_inv w \<Longrightarrow> vault_inv (purged fids w)"
  unfolding purge_steps [symmetric] by (intro inv_intro)

lemma hard_delete_inv [inv_intro]: "vault_inv w \<Longrightarrow> vault_inv (snd (hard_delete_files now fids u w))"
  by (cases "fids = []")
    (simp_all add: hard_delete_files_eq Let_def inv_intro, simp add: hard_delete_files_def)

lemma hard_delete_result_inv:
  assumes "hard_delete_files now fids u w = ((n, ks), w')" and "vault_inv w"
  shows "vault_inv w'"
  using hard_delete_inv [OF assms(2), of now fids u] by (simp add: assms(1))

lemma hard_delete_keys_safe: "keys_safe w (snd (hard_delete_files now fids u w))"
proof (cases "fids = []")
  case True
  then show ?thesis by (simp add: hard_delete_files_def)
next
  case False
  then show ?thesis
    by (auto simp: keys_safe_def hard_delete_files_eq Let_def queued_queue_deletions)
      (auto simp: chunk_keys_def queued_keys_def purged_def)
qed

text \<open>A hard deletion reports exactly the keys that it queues and that no row names any more.\<close>

lemma hard_delete_reported:
  assumes "hard_delete_files now fids u w = ((n, ks), w')"
  shows "set ks \<subseteq> queued_keys w'" and "set ks = chunk_keys w - chunk_keys w'"
    and "n = row_count (\<lambda>f. f_id f \<in> set fids) (t_files w)"
proof -
  have "set ks \<subseteq> queued_keys w' \<and> set ks = chunk_keys w - chunk_keys w' \<and>
        n = row_count (\<lambda>f. f_id f \<in> set fids) (t_files w)"
  proof (cases "fids = []")
    case True
    then show ?thesis using assms by (auto simp: hard_delete_files_def row_count_def)
  next
    case False
    have ck: "chunk_keys (purged fids w) = c_key ` {c \<in> set (t_chunks w). \<not> file_chunk w fids c}"
      by (simp add: chunk_keys_def purged_def)
    let ?K = "filter (\<lambda>k. k \<notin> chunk_keys (purged fids w)) (map c_key (filter (file_chunk w fids) (t_chunks w)))"
    from assms have "?K = ks" and cnt: "row_count (\<lambda>f. f_id f \<in> set fids) (t_files w) = n"
      and w': "queue_deletions now u ?K ((purged fids w)\<lparr>t_shares :=
            upd (\<lambda>s. sh_type s = ''file'' \<and> sh_item s \<in> set fids \<and> sh_revoked_at s = None)
              (\<lambda>s. s\<lparr>sh_revoked_at := Some now\<rparr>) (t_shares w)\<rparr>) = w'"
      unfolding hard_delete_files_eq [OF False] Let_def prod.inject by blast+
    then have eqs: "ks = ?K" "t_chunks w' = t_chunks (purged fids w)" "set ks \<subseteq> queued_keys w'"
      unfolding w' [symmetric] queued_queue_deletions by (simp_all only:) auto
    then have "chunk_keys w' = chunk_keys (purged fids w)"
      and ks: "set ks = {k \<in> c_key ` {c \<in> set (t_chunks w). file_chunk w fids c}. k \<notin> chunk_keys (purged fids w)}"
      unfolding chunk_keys_def by (simp_all only: set_filter set_map)
    moreover have "set ks = chunk_keys w - chunk_keys (purged fids w)"
      unfolding ks ck unfolding chunk_keys_def by blast
    ultimately show ?thesis using eqs(3) cnt by simp
  qed
  then show "set ks \<subseteq> queued_keys w'" "set ks = chunk_keys w - chunk_keys w'"
    "n = row_count (\<lambda>f. f_id f \<in> set fids) (t_files w)" by auto
qed

lemma hard_delete_gone:
  assumes "hard_delete_files now fids u w = ((n, ks), w')" and "fids \<noteq> []"
  shows "file_ids w' = file_ids w - set fids"
    and "t_versions w' = del (\<lambda>v. v_file v \<in> set fids) (t_versions w)"
    and "t_chunks w' = del (file_chunk w fids) (t_chunks w)"
    and "t_folders w' = t_folders w"
proof -
  have w': "t_files w' = t_files (purged fids w)" "t_versions w' = t_versions (purged fids w)"
    "t_chunks w' = t_chunks (purged fids w)" "t_folders w' = t_folders (purged fids w)"
    using assms by (auto simp: hard_delete_files_eq Let_def)
  show "file_ids w' = file_ids w - set fids"
  proof -
    have "f_id ` set (t_files w') =
        f_id ` set (upd (\<lambda>f. opt_in (f_current f) (map v_id (filter (\<lambda>v. v_file v \<in> set fids) (t_versions w))))
            (\<lambda>f. f\<lparr>f_current := None\<rparr>) (t_files w)) - set fids"
      by (auto simp: w' purged_def)
    then show ?thesis by (simp add: file_ids_def image_upd_keep)
  qed
  show "t_versions w' = del (\<lambda>v. v_file v \<in> set fids) (t_versions w)"
    "t_chunks w' = del (file_chunk w fids) (t_chunks w)" "t_folders w' = t_folders w"
    by (simp_all add: w' purged_def)
qed

text \<open>Under the invariant, clearing pointers reaches no surviving file.\<close>

lemma purged_files:
  assumes "vault_inv w"
  shows "t_files (purged fids w) = del (\<lambda>f. f_id f \<in> set fids) (t_files w)"
proof -
  have "f_id f \<in> set fids" if "f \<in> set (t_files w)"
    "opt_in (f_current f) (map v_id (filter (\<lambda>v. v_file v \<in> set fids) (t_versions w)))" for f
    using that current_okD [OF vault_invD(12) [OF assms]] by (force simp: opt_in_iff)
  then show ?thesis
    by (auto simp: purged_def del_def upd_def filter_map o_def if_distrib cong: if_cong intro!: map_idI filter_cong)
qed

subsection \<open>Whose rows\<close>

text \<open>
  \<open>isolated u w w'\<close>: the step from \<open>w\<close> to \<open>w'\<close> leaves the folders, files, versions and
  chunks of every other user exactly as they were.
\<close>

definition owner_file :: "vault \<Rightarrow> uuid \<Rightarrow> uuid \<Rightarrow> bool" where
  "owner_file w u fid = has_row (\<lambda>f. f_id f = fid \<and> f_user f = u) (t_files w)"

definition owner_version :: "vault \<Rightarrow> uuid \<Rightarrow> uuid \<Rightarrow> bool" where
  "owner_version w u vid = has_row (\<lambda>v. v_id v = vid \<and> owner_file w u (v_file v)) (t_versions w)"

definition user_rows :: "vault \<Rightarrow> uuid \<Rightarrow> folder_row list \<times> file_row list \<times> version_row list \<times> chunk_row list" where
  "user_rows w u =
     (filter (\<lambda>fo. fo_user fo = u) (t_folders w), filter (\<lambda>f. f_user f = u) (t_files w),
      filter (\<lambda>v. owner_file w u (v_file v)) (t_versions w),
      filter (\<lambda>c. owner_version w u (c_version c)) (t_chunks w))"

definition isolated :: "uuid \<Rightarrow> vault \<Rightarrow> vault \<Rightarrow> bool" where
  "isolated u w w' \<longleftrightarrow> (\<forall>u'. u' \<noteq> u \<longrightarrow> user_rows w' u' = user_rows w u')"

lemma isolated_refl [simp]: "isolated u w w"
  by (simp add: isolated_def)

lemma isolated_trans: "isolated u w w' \<Longrightarrow> isolated u w' w'' \<Longrightarrow> isolated u w w''"
  by (simp add: isolated_def)

lemma user_rows_cong:
  assumes "t_folders w' = t_folders w" "t_files w' = t_files w" "t_versions w' = t_versions w" "t_chunks w' = t_chunks w"
  shows "user_rows w' = user_rows w"
  by (rule ext) (simp add: user_rows_def owner_version_def owner_file_def assms)

lemma isolated_right_cong:
  assumes "t_folders w2 = t_folders w1" "t_files w2 = t_files w1" "t_versions w2 = t_versions w1" "t_chunks w2 = t_chunks w1"
  shows "isolated u w w2 = isolated u w w1"
  by (simp add: isolated_def user_rows_cong [OF assms])

lemma filter_del_iff:
  "(\<And>r. r \<in> set rs \<Longrightarrow> Q r \<longleftrightarrow> Q' r \<and> \<not> P r) \<Longrightarrow> filter Q' (del P rs) = filter Q rs"
  unfolding del_def filter_filter by (rule filter_cong) auto

text \<open>
  Deleting files all of whose rows belong to \<open>u\<close>, with their versions and chunks, leaves the
  other users' rows alone.
\<close>

lemma drop_owned_isolated:
  assumes inv: "vault_inv w" and own: "\<And>f. f \<in> set (t_files w) \<Longrightarrow> f_id f \<in> set fids \<Longrightarrow> f_user f = u"
    and files: "t_files w' = del (\<lambda>f. f_id f \<in> set fids) (t_files w)"
    and versions: "t_versions w' = del (\<lambda>v. v_file v \<in> set fids) (t_versions w)"
    and chunks: "t_chunks w' = del (file_chunk w fids) (t_chunks w)"
    and folders: "t_folders w' = t_folders w"
  shows "isolated u w w'"
  unfolding isolated_def
proof (intro allI impI)
  fix u' assume u': "u' \<noteq> u"
  have of: "owner_file w u' i \<longleftrightarrow> owner_file w' u' i \<and> i \<notin> set fids" for i
    using own u' by (auto simp: owner_file_def files)
  have ov: "owner_version w u' (c_version c) \<longleftrightarrow> owner_version w' u' (c_version c) \<and> \<not> file_chunk w fids c" for c
  proof
    assume "owner_version w u' (c_version c)"
    then obtain v where v: "v \<in> set (t_versions w)" "v_id v = c_version c" "owner_file w u' (v_file v)"
      by (auto simp: owner_version_def)
    then have "v_file v \<notin> set fids" "owner_file w' u' (v_file v)" using of by blast+
    moreover have "\<not> file_chunk w fids c"
      using v calculation ukeyD [OF vault_invD(3) [OF inv]] by (metis file_chunk_def)
    ultimately show "owner_version w' u' (c_version c) \<and> \<not> file_chunk w fids c"
      using v by (auto simp: owner_version_def versions)
  next
    assume "owner_version w' u' (c_version c) \<and> \<not> file_chunk w fids c"
    then show "owner_version w u' (c_version c)" using of by (auto simp: owner_version_def versions)
  qed
  have "filter (\<lambda>f. f_user f = u') (t_files w') = filter (\<lambda>f. f_user f = u') (t_files w)"
    unfolding files using own u' by (intro filter_del_iff) auto
  moreover have "filter (\<lambda>v. owner_file w' u' (v_file v)) (t_versions w') = filter (\<lambda>v. owner_file w u' (v_file v)) (t_versions w)"
    unfolding versions using of by (intro filter_del_iff) auto
  moreover have "filter (\<lambda>c. owner_version w' u' (c_version c)) (t_chunks w') = filter (\<lambda>c. owner_version w u' (c_version c)) (t_chunks w)"
    unfolding chunks using ov by (intro filter_del_iff) auto
  ultimately show "user_rows w' u' = user_rows w u'"
    by (simp add: user_rows_def folders)
qed

lemma hard_delete_isolated:
  assumes "vault_inv w" and "\<And>f. f \<in> set (t_files w) \<Longrightarrow> f_id f \<in> set fids \<Longrightarrow> f_user f = u"
  shows "isolated u w (snd (hard_delete_files now fids who w))"
proof (cases "fids = []")
  case True
  then show ?thesis by (simp add: hard_delete_files_def)
next
  case False
  let ?w' = "snd (hard_delete_files now fids who w)"
  obtain n ks where h: "hard_delete_files now fids who w = ((n, ks), ?w')"
    by (metis prod.collapse)
  have "t_files ?w' = t_files (purged fids w)" using False by (simp add: hard_delete_files_eq Let_def)
  then have "t_files ?w' = del (\<lambda>f. f_id f \<in> set fids) (t_files w)"
    by (simp add: purged_files [OF assms(1)])
  then show ?thesis
    using drop_owned_isolated [OF assms] hard_delete_gone(2-4) [OF h False] by blast
qed

end
