(* ===== verification/Isolation.thy ===== *)
theory Isolation
  imports Purge
begin

text \<open>
  Which statements leave the rows of other users alone: one rule per statement form, for
  the operation contracts of the services. \<open>quiet\<close> is the interface of the effects that
  run beside the tables (events, audit rows, requests to the object store).
\<close>

named_theorems iso_intro \<open>statements that leave other users' rows alone\<close>

subsection \<open>Effects beside the tables\<close>

locale quiet =
  fixes eff :: "vault \<Rightarrow> vault"
  assumes folders: "t_folders (eff w) = t_folders w"
    and files: "t_files (eff w) = t_files w"
    and versions: "t_versions (eff w) = t_versions w"
    and chunks: "t_chunks (eff w) = t_chunks w"
    and pending: "t_pending (eff w) = t_pending w"
begin

lemma inv: "vault_inv (eff w) = vault_inv w"
  by (rule vault_inv_cong) (simp_all add: folders files versions chunks pending)

lemma keys: "keys_safe w0 (eff w) = keys_safe w0 w"
  by (rule keys_safe_right_cong) (simp_all add: chunks pending)

lemma iso: "isolated u w0 (eff w) = isolated u w0 w"
  by (rule isolated_right_cong) (simp_all add: folders files versions chunks)

lemma key_sets: "chunk_keys (eff w) = chunk_keys w" "queued_keys (eff w) = queued_keys w"
  by (simp_all add: chunk_keys_def queued_keys_def chunks pending)

end

interpretation broadcast_sync: quiet "broadcast_sync u e"
  by unfold_locales simp_all

interpretation file_broadcast: quiet "file_broadcast u e"
  by unfold_locales simp_all

interpretation audit_log_ok: quiet "audit_log_ok now u d ev meta"
  by unfold_locales simp_all

interpretation best_effort: quiet "delete_objects_best_effort x ks"
  by unfold_locales simp_all

lemmas quiet_simps =
  broadcast_sync.keys broadcast_sync.iso broadcast_sync.key_sets
  file_broadcast.keys file_broadcast.iso file_broadcast.key_sets
  audit_log_ok.keys audit_log_ok.iso audit_log_ok.key_sets
  best_effort.keys best_effort.iso best_effort.key_sets

lemma audit_keys: "audit_log now u d ev meta w = Inr w' \<Longrightarrow> keys_safe w0 w' = keys_safe w0 w"
  by (rule keys_safe_right_cong) (auto dest: audit_log_Inr)

lemma audit_iso: "audit_log now u d ev meta w = Inr w' \<Longrightarrow> isolated i w0 w' = isolated i w0 w"
  by (rule isolated_right_cong) (auto dest: audit_log_Inr)

subsection \<open>Updates\<close>

lemma owner_file_cong:
  assumes "(\<lambda>f. (f_id f, f_user f)) ` set (t_files w') = (\<lambda>f. (f_id f, f_user f)) ` set (t_files w)"
  shows "owner_file w' u i = owner_file w u i"
proof -
  have "owner_file v u i \<longleftrightarrow> (i, u) \<in> (\<lambda>f. (f_id f, f_user f)) ` set (t_files v)" for v
    by (auto simp: owner_file_def)
  then show ?thesis using assms by simp
qed

lemma owner_version_cong:
  assumes "\<And>i. owner_file w' u i = owner_file w u i"
    and "(\<lambda>v. (v_id v, v_file v)) ` set (t_versions w') = (\<lambda>v. (v_id v, v_file v)) ` set (t_versions w)"
  shows "owner_version w' u i = owner_version w u i"
proof -
  have "owner_version y u i \<longleftrightarrow> (\<exists>fid. (i, fid) \<in> (\<lambda>v. (v_id v, v_file v)) ` set (t_versions y) \<and> owner_file y u fid)" for y
    by (auto simp: owner_version_def)
  then show ?thesis using assms by simp
qed

lemma upd_folders_isolated [iso_intro]:
  assumes "\<And>fo. fo \<in> set (t_folders w) \<Longrightarrow> P fo \<Longrightarrow> fo_user fo = u" and "\<And>fo. fo_user (g fo) = fo_user fo"
  shows "isolated u w (w\<lparr>t_folders := upd P g (t_folders w)\<rparr>)"
  unfolding isolated_def
proof (intro allI impI)
  fix u' assume "u' \<noteq> u"
  then have "filter (\<lambda>fo. fo_user fo = u') (upd P g (t_folders w)) = filter (\<lambda>fo. fo_user fo = u') (t_folders w)"
    using assms by (intro filter_upd_other) auto
  then show "user_rows (w\<lparr>t_folders := upd P g (t_folders w)\<rparr>) u' = user_rows w u'"
    by (simp add: user_rows_def owner_version_def owner_file_def)
qed

lemma upd_files_isolated [iso_intro]:
  assumes "\<And>f. f \<in> set (t_files w) \<Longrightarrow> P f \<Longrightarrow> f_user f = u" and g: "\<And>f. f_user (g f) = f_user f" "\<And>f. f_id (g f) = f_id f"
  shows "isolated u w (w\<lparr>t_files := upd P g (t_files w)\<rparr>)"
  unfolding isolated_def
proof (intro allI impI)
  let ?w = "w\<lparr>t_files := upd P g (t_files w)\<rparr>"
  fix u' assume "u' \<noteq> u"
  then have "filter (\<lambda>f. f_user f = u') (upd P g (t_files w)) = filter (\<lambda>f. f_user f = u') (t_files w)"
    using assms by (intro filter_upd_other) auto
  moreover have of: "owner_file ?w u' i = owner_file w u' i" for i
    by (rule owner_file_cong) (simp add: image_upd_keep g)
  moreover have "owner_version ?w u' i = owner_version w u' i" for i
    by (rule owner_version_cong [OF of]) simp
  ultimately show "user_rows ?w u' = user_rows w u'" by (simp add: user_rows_def)
qed

lemma owner_unique:
  assumes "vault_inv w" and "owner_file w u i" and "owner_file w u' i"
  shows "u = u'"
  using assms(2,3) ukeyD [OF vault_invD(2) [OF assms(1)]] by (fastforce simp: owner_file_def)

lemma owner_version_unique:
  assumes "vault_inv w" and "owner_version w u i" and "owner_version w u' i"
  shows "u = u'"
proof -
  obtain v v' where v: "v \<in> set (t_versions w)" "v_id v = i" "owner_file w u (v_file v)"
    and v': "v' \<in> set (t_versions w)" "v_id v' = i" "owner_file w u' (v_file v')"
    using assms(2,3) by (auto simp: owner_version_def)
  then have "v = v'" using ukeyD [OF vault_invD(3) [OF assms(1)]] by blast
  with v v' show ?thesis using owner_unique [OF assms(1)] by blast
qed

lemma upd_versions_isolated [iso_intro]:
  assumes "vault_inv w" and "\<And>v. v \<in> set (t_versions w) \<Longrightarrow> P v \<Longrightarrow> owner_file w u (v_file v)"
    and g: "\<And>v. v_id (g v) = v_id v" "\<And>v. v_file (g v) = v_file v"
  shows "isolated u w (w\<lparr>t_versions := upd P g (t_versions w)\<rparr>)"
  unfolding isolated_def
proof (intro allI impI)
  let ?w = "w\<lparr>t_versions := upd P g (t_versions w)\<rparr>"
  fix u' assume u': "u' \<noteq> u"
  have of: "owner_file ?w u' i = owner_file w u' i" for i
    by (rule owner_file_cong) simp
  have "owner_version ?w u' i = owner_version w u' i" for i
    by (rule owner_version_cong [OF of]) (simp add: image_upd_keep g)
  moreover have "filter (\<lambda>v. owner_file w u' (v_file v)) (upd P g (t_versions w)) = filter (\<lambda>v. owner_file w u' (v_file v)) (t_versions w)"
    using assms(2) owner_unique [OF assms(1)] u' g by (intro filter_upd_other) auto
  ultimately show "user_rows ?w u' = user_rows w u'" by (simp add: user_rows_def of)
qed

lemma upd_chunks_isolated [iso_intro]:
  assumes "vault_inv w" and "\<And>c. c \<in> set (t_chunks w) \<Longrightarrow> P c \<Longrightarrow> owner_version w u (c_version c)"
    and g: "\<And>c. c_version (g c) = c_version c"
  shows "isolated u w (w\<lparr>t_chunks := upd P g (t_chunks w)\<rparr>)"
  unfolding isolated_def
proof (intro allI impI)
  let ?w = "w\<lparr>t_chunks := upd P g (t_chunks w)\<rparr>"
  fix u' assume u': "u' \<noteq> u"
  have of: "owner_file ?w u' i = owner_file w u' i" for i
    by (rule owner_file_cong) simp
  have "owner_version ?w u' i = owner_version w u' i" for i
    by (rule owner_version_cong [OF of]) simp
  moreover have "filter (\<lambda>c. owner_version w u' (c_version c)) (upd P g (t_chunks w)) = filter (\<lambda>c. owner_version w u' (c_version c)) (t_chunks w)"
    using assms(2) owner_version_unique [OF assms(1)] u' g by (intro filter_upd_other) auto
  ultimately show "user_rows ?w u' = user_rows w u'" by (simp add: user_rows_def of)
qed

subsection \<open>Insertions\<close>

lemma insert_folder_isolated:
  assumes "insert_folder r w = Inr w'" and "fo_user r = u"
  shows "isolated u w w'"
  using insert_folder_Inr(1) [OF assms(1)] assms(2)
  by (auto simp: isolated_def user_rows_def owner_version_def owner_file_def)

lemma insert_file_isolated:
  assumes "insert_file r w = Inr w'" and "vault_inv w" and "f_user r = u"
  shows "isolated u w w'"
  unfolding isolated_def
proof (intro allI impI)
  fix u' assume u': "u' \<noteq> u"
  note J = insert_file_Inr [OF assms(1)]
  have of: "owner_file w' u' i = owner_file w u' i" for i
    using u' assms(3) by (auto simp: owner_file_def J(1))
  have "owner_version w' u' i = owner_version w u' i" for i
    by (rule owner_version_cong [OF of]) (simp add: J(1))
  then show "user_rows w' u' = user_rows w u'"
    using u' assms(3) of by (simp add: user_rows_def J(1))
qed

lemma insert_version_isolated:
  assumes "insert_version r w = Inr w'" and "vault_inv w" and "owner_file w u (v_file r)"
  shows "isolated u w w'"
  unfolding isolated_def
proof (intro allI impI)
  fix u' assume u': "u' \<noteq> u"
  note J = insert_version_Inr [OF assms(1)]
  have of: "owner_file w' u' i = owner_file w u' i" for i
    by (rule owner_file_cong) (simp add: J(1))
  have no: "\<not> owner_file w u' (v_file r)"
    using owner_unique [OF assms(2) _ assms(3)] u' by blast
  then have "owner_version w' u' i = owner_version w u' i" for i
    using of by (auto simp: owner_version_def J(1))
  then show "user_rows w' u' = user_rows w u'"
    using no of by (simp add: user_rows_def J(1))
qed

lemma insert_chunk_isolated:
  assumes "insert_chunk r w = Inr w'" and "vault_inv w" and "owner_version w u (c_version r)"
  shows "isolated u w w'"
  unfolding isolated_def
proof (intro allI impI)
  fix u' assume u': "u' \<noteq> u"
  note J = insert_chunk_Inr [OF assms(1)]
  have of: "owner_file w' u' i = owner_file w u' i" for i
    by (rule owner_file_cong) (simp add: J(1))
  have ov: "owner_version w' u' i = owner_version w u' i" for i
    by (rule owner_version_cong [OF of]) (simp add: J(1))
  have "\<not> owner_version w u' (c_version r)"
    using owner_version_unique [OF assms(2) _ assms(3)] u' by blast
  then show "user_rows w' u' = user_rows w u'"
    using of ov by (simp add: user_rows_def J(1))
qed

end
