(* ===== verification/Tree.thy ===== *)
theory Tree
  imports Isolation
begin

text \<open>
  The folder hierarchy: the ancestor query and the soft-deletion statements that the folder
  and the file service share, and the three invariants of the hierarchy. \<open>tenant_ok\<close>: what
  lies in a folder belongs to the folder's owner. \<open>trash_ok\<close>: what lies in a trashed folder
  is trashed, and not later than the folder; so a live item has only live ancestors.
  \<open>forest\<close>: no folder is its own ancestor.
\<close>

subsection \<open>Queries and statements\<close>

text \<open>The ancestor chain of the restore statements, from child to parent.\<close>

definition parent_edges :: "folder_row list \<Rightarrow> (uuid \<times> uuid) list" where
  "parent_edges fos =
     concat (map (\<lambda>fo. case fo_parent fo of None \<Rightarrow> [] | Some p \<Rightarrow> [(fo_id fo, p)]) fos)"

definition ancestors :: "folder_row list \<Rightarrow> uuid list \<Rightarrow> uuid list" where
  "ancestors fos start = rec_union (parent_edges fos) start"

definition trash_folders :: "timestamp \<Rightarrow> uuid list \<Rightarrow> vault \<Rightarrow> vault" where
  "trash_folders now ids w =
     w\<lparr>t_folders := upd (\<lambda>fo. fo_id fo \<in> set ids \<and> fo_deleted_at fo = None)
                     (\<lambda>fo. fo\<lparr>fo_deleted_at := Some now, fo_updated_at := now\<rparr>) (t_folders w)\<rparr>"

definition trash_files_in :: "timestamp \<Rightarrow> uuid list \<Rightarrow> vault \<Rightarrow> vault" where
  "trash_files_in now ids w =
     w\<lparr>t_files := upd (\<lambda>f. opt_in (f_folder f) ids \<and> f_deleted_at f = None)
                   (\<lambda>f. f\<lparr>f_deleted_at := Some now, f_updated_at := now\<rparr>) (t_files w)\<rparr>"

definition untrash_folders :: "timestamp \<Rightarrow> (folder_row \<Rightarrow> bool) \<Rightarrow> vault \<Rightarrow> vault" where
  "untrash_folders now P w =
     w\<lparr>t_folders := upd P (\<lambda>fo. fo\<lparr>fo_deleted_at := None, fo_updated_at := now\<rparr>) (t_folders w)\<rparr>"

definition untrash_files :: "timestamp \<Rightarrow> (file_row \<Rightarrow> bool) \<Rightarrow> vault \<Rightarrow> vault" where
  "untrash_files now P w =
     w\<lparr>t_files := upd P (\<lambda>f. f\<lparr>f_deleted_at := None, f_updated_at := now\<rparr>) (t_files w)\<rparr>"

lemma set_parent_edges:
  "set (parent_edges fos) = {(fo_id fo, p) |fo p. fo \<in> set fos \<and> fo_parent fo = Some p}"
  by (force simp: parent_edges_def split: option.splits)

subsection \<open>The invariants\<close>

definition tenant_ok :: "vault \<Rightarrow> bool" where
  "tenant_ok w \<longleftrightarrow> (\<forall>p\<in>set (t_folders w).
     (\<forall>c\<in>set (t_folders w). fo_parent c = Some (fo_id p) \<longrightarrow> fo_user c = fo_user p) \<and>
     (\<forall>f\<in>set (t_files w). f_folder f = Some (fo_id p) \<longrightarrow> f_user f = fo_user p))"

text \<open>\<open>trash_le tp tc\<close>: a parent with stamp \<open>tp\<close> may have a child with stamp \<open>tc\<close>.\<close>

fun trash_le :: "timestamp option \<Rightarrow> timestamp option \<Rightarrow> bool" where
  "trash_le None _ = True"
| "trash_le (Some _) None = False"
| "trash_le (Some a) (Some b) = (b \<le> a)"

definition trash_ok :: "vault \<Rightarrow> bool" where
  "trash_ok w \<longleftrightarrow> (\<forall>p\<in>set (t_folders w).
     (\<forall>c\<in>set (t_folders w). fo_parent c = Some (fo_id p) \<longrightarrow> trash_le (fo_deleted_at p) (fo_deleted_at c)) \<and>
     (\<forall>f\<in>set (t_files w). f_folder f = Some (fo_id p) \<longrightarrow> trash_le (fo_deleted_at p) (f_deleted_at f)))"

definition child_rel :: "vault \<Rightarrow> (uuid \<times> uuid) set" where
  "child_rel w = {(p, fo_id fo) |p fo. fo \<in> set (t_folders w) \<and> fo_parent fo = Some p}"

definition forest :: "vault \<Rightarrow> bool" where
  "forest w \<longleftrightarrow> acyclic (child_rel w)"

definition tree_inv :: "vault \<Rightarrow> bool" where
  "tree_inv w \<longleftrightarrow> tenant_ok w \<and> trash_ok w \<and> forest w"

text \<open>No stamp lies after \<open>now\<close>.\<close>

definition clock_ok :: "timestamp \<Rightarrow> vault \<Rightarrow> bool" where
  "clock_ok now w \<longleftrightarrow>
     (\<forall>fo\<in>set (t_folders w). \<forall>t. fo_deleted_at fo = Some t \<longrightarrow> t \<le> now) \<and>
     (\<forall>f\<in>set (t_files w). \<forall>t. f_deleted_at f = Some t \<longrightarrow> t \<le> now)"

lemma child_rel_image: "child_rel w = {(p, i). (i, Some p) \<in> (\<lambda>fo. (fo_id fo, fo_parent fo)) ` set (t_folders w)}"
  by (auto simp: child_rel_def image_iff)

lemma child_rel_upd:
  assumes "t_folders w' = upd P g (t_folders w)" and "\<And>fo. P fo \<Longrightarrow> fo_id (g fo) = fo_id fo \<and> fo_parent (g fo) = fo_parent fo"
  shows "child_rel w' = child_rel w"
  unfolding child_rel_image assms(1) by (subst image_upd_keep) (simp_all add: assms(2))

lemma child_edges_rel: "set (child_edges (\<lambda>_. True) (t_folders w)) = child_rel w"
  by (auto simp: set_child_edges child_rel_def)

lemma parent_edges_rel: "set (parent_edges (t_folders w)) = (child_rel w)\<inverse>"
  by (auto simp: set_parent_edges child_rel_def)

lemma tenant_okD:
  assumes "tenant_ok w" "p \<in> set (t_folders w)"
  shows "c \<in> set (t_folders w) \<Longrightarrow> fo_parent c = Some (fo_id p) \<Longrightarrow> fo_user c = fo_user p"
    and "f \<in> set (t_files w) \<Longrightarrow> f_folder f = Some (fo_id p) \<Longrightarrow> f_user f = fo_user p"
  using assms by (auto simp: tenant_ok_def)

lemma trash_okD:
  assumes "trash_ok w" "p \<in> set (t_folders w)"
  shows "c \<in> set (t_folders w) \<Longrightarrow> fo_parent c = Some (fo_id p) \<Longrightarrow> trash_le (fo_deleted_at p) (fo_deleted_at c)"
    and "f \<in> set (t_files w) \<Longrightarrow> f_folder f = Some (fo_id p) \<Longrightarrow> trash_le (fo_deleted_at p) (f_deleted_at f)"
  using assms by (auto simp: trash_ok_def)

subsection \<open>What the invariants read\<close>

definition folder_view :: "folder_row \<Rightarrow> uuid \<times> uuid \<times> uuid option \<times> timestamp option" where
  "folder_view fo = (fo_id fo, fo_user fo, fo_parent fo, fo_deleted_at fo)"

definition file_view :: "file_row \<Rightarrow> uuid option \<times> uuid \<times> timestamp option" where
  "file_view f = (f_folder f, f_user f, f_deleted_at f)"

text \<open>Removing rows, and changing what the views do not show, keeps all three.\<close>

lemma tree_inv_mono:
  assumes fo: "folder_view ` set (t_folders w') \<subseteq> folder_view ` set (t_folders w)"
    and f: "file_view ` set (t_files w') \<subseteq> file_view ` set (t_files w)"
    and inv: "tree_inv w"
  shows "tree_inv w'"
proof -
  have old_fo: "\<exists>fo\<in>set (t_folders w). fo_id fo = fo_id fo' \<and> fo_user fo = fo_user fo' \<and>
      fo_parent fo = fo_parent fo' \<and> fo_deleted_at fo = fo_deleted_at fo'"
    if "fo' \<in> set (t_folders w')" for fo'
  proof -
    from that fo have "folder_view fo' \<in> folder_view ` set (t_folders w)" by blast
    then show ?thesis by (force simp: folder_view_def)
  qed
  have old_f: "\<exists>f\<in>set (t_files w). f_folder f = f_folder f' \<and> f_user f = f_user f' \<and> f_deleted_at f = f_deleted_at f'"
    if "f' \<in> set (t_files w')" for f'
  proof -
    from that f have "file_view f' \<in> file_view ` set (t_files w)" by blast
    then show ?thesis by (force simp: file_view_def)
  qed
  have "tenant_ok w'"
    using inv unfolding tree_inv_def tenant_ok_def by (metis old_fo old_f)
  moreover have "trash_ok w'"
    using inv unfolding tree_inv_def trash_ok_def by (metis old_fo old_f)
  moreover have "child_rel w' \<subseteq> child_rel w"
    unfolding child_rel_def by (clarsimp, metis old_fo)
  then have "forest w'"
    using inv unfolding tree_inv_def forest_def by (blast intro: acyclic_subset)
  ultimately show ?thesis by (simp add: tree_inv_def)
qed

lemma tree_inv_cong: "t_folders w' = t_folders w \<Longrightarrow> t_files w' = t_files w \<Longrightarrow> tree_inv w' = tree_inv w"
  by (simp add: tree_inv_def tenant_ok_def trash_ok_def forest_def child_rel_def)

context quiet
begin

lemma tree: "tree_inv (eff w) = tree_inv w"
  by (rule tree_inv_cong) (simp_all add: folders files)

end

lemmas quiet_tree = broadcast_sync.tree file_broadcast.tree audit_log_ok.tree best_effort.tree

subsection \<open>Subtrees\<close>

definition owned_rel :: "vault \<Rightarrow> uuid \<Rightarrow> (uuid \<times> uuid) set" where
  "owned_rel w u = {(p, fo_id fo) |p fo. fo \<in> set (t_folders w) \<and> fo_user fo = u \<and> fo_parent fo = Some p}"

lemma set_subtree:
  "set (subtree w roots u) =
     (owned_rel w u)\<^sup>* `` {fo_id fo |fo. fo \<in> set (t_folders w) \<and> fo_id fo \<in> set roots \<and> fo_user fo = u}"
proof -
  have "set (child_edges (\<lambda>fo. fo_user fo = u) (t_folders w)) = owned_rel w u"
    by (auto simp: set_child_edges owned_rel_def)
  moreover have "set (map fo_id (filter (\<lambda>fo. fo_id fo \<in> set roots \<and> fo_user fo = u) (t_folders w)))
      = {fo_id fo |fo. fo \<in> set (t_folders w) \<and> fo_id fo \<in> set roots \<and> fo_user fo = u}" by auto
  ultimately show ?thesis by (simp add: subtree_def set_rec_union)
qed

lemma subtree_row:
  assumes "i \<in> set (subtree w roots u)"
  obtains fo where "fo \<in> set (t_folders w)" "fo_id fo = i" "fo_user fo = u"
proof -
  from assms obtain r where "(r, i) \<in> (owned_rel w u)\<^sup>*"
    and r: "\<exists>fo\<in>set (t_folders w). fo_id fo = r \<and> fo_user fo = u"
    by (auto simp: set_subtree)
  then have "\<exists>fo\<in>set (t_folders w). fo_id fo = i \<and> fo_user fo = u"
    by (cases rule: rtranclE) (auto simp: owned_rel_def)
  then show ?thesis using that by blast
qed

lemma subtree_owned:
  assumes "vault_inv w" and "fo \<in> set (t_folders w)" and "fo_id fo \<in> set (subtree w roots u)"
  shows "fo_user fo = u"
  using assms ukeyD [OF vault_invD(1) [OF assms(1)]] by (metis subtree_row)

lemma subtree_root:
  "fo \<in> set (t_folders w) \<Longrightarrow> fo_user fo = u \<Longrightarrow> fo_id fo \<in> set roots \<Longrightarrow> fo_id fo \<in> set (subtree w roots u)"
  by (auto simp: set_subtree)

lemma subtree_child:
  assumes "vault_inv w" and "tenant_ok w" and "p \<in> set (subtree w roots u)"
    and "c \<in> set (t_folders w)" and "fo_parent c = Some p"
  shows "fo_id c \<in> set (subtree w roots u)"
proof -
  obtain fo where "fo \<in> set (t_folders w)" "fo_id fo = p" "fo_user fo = u"
    using assms(3) by (rule subtree_row)
  then have "fo_user c = u" using tenant_okD(1) [OF assms(2)] assms(4,5) by metis
  then have "(p, fo_id c) \<in> owned_rel w u" using assms(4,5) by (auto simp: owned_rel_def)
  with assms(3) show ?thesis by (auto simp: set_subtree intro: rtrancl_into_rtrancl)
qed

lemma subtree_file:
  assumes "tenant_ok w" and "f \<in> set (t_files w)" and "f_folder f = Some i" and "i \<in> set (subtree w roots u)"
  shows "f_user f = u"
  using subtree_row [OF assms(4)] tenant_okD(2) [OF assms(1) _ assms(2)] assms(3) by metis

text \<open>Under the tenant invariant the query is the whole subtree.\<close>

lemma subtree_all:
  assumes "vault_inv w" and "tenant_ok w" and "fo \<in> set (t_folders w)" and "fo_user fo = u"
  shows "set (subtree w [fo_id fo] u) = (child_rel w)\<^sup>* `` {fo_id fo}"
proof
  have "owned_rel w u \<subseteq> child_rel w" by (auto simp: owned_rel_def child_rel_def)
  then have "(owned_rel w u)\<^sup>* \<subseteq> (child_rel w)\<^sup>*" by (rule rtrancl_mono)
  then show "set (subtree w [fo_id fo] u) \<subseteq> (child_rel w)\<^sup>* `` {fo_id fo}"
    by (auto simp: set_subtree)
  have "i \<in> set (subtree w [fo_id fo] u)" if "(fo_id fo, i) \<in> (child_rel w)\<^sup>*" for i
    using that
  proof (induction rule: rtrancl_induct)
    case base
    show ?case using assms(3,4) by (auto intro: subtree_root)
  next
    case (step y z)
    then obtain c where "c \<in> set (t_folders w)" "fo_parent c = Some y" "z = fo_id c" by (auto simp: child_rel_def)
    with step.IH show ?case using subtree_child [OF assms(1,2)] by blast
  qed
  then show "(child_rel w)\<^sup>* `` {fo_id fo} \<subseteq> set (subtree w [fo_id fo] u)" by auto
qed

subsection \<open>Soft deletion and the invariants\<close>

text \<open>Trashing a set of folders that is closed under children, with the files in it.\<close>

lemma trash_tree_inv:
  assumes inv: "tree_inv w" and clock: "clock_ok now w"
    and closed: "\<And>p c. p \<in> set ids \<Longrightarrow> c \<in> set (t_folders w) \<Longrightarrow> fo_parent c = Some p \<Longrightarrow> fo_id c \<in> set ids"
  shows "tree_inv (trash_files_in now ids (trash_folders now ids w))" (is "tree_inv ?w")
proof -
  have fos: "t_folders ?w = upd (\<lambda>fo. fo_id fo \<in> set ids \<and> fo_deleted_at fo = None)
      (\<lambda>fo. fo\<lparr>fo_deleted_at := Some now, fo_updated_at := now\<rparr>) (t_folders w)"
    and fs: "t_files ?w = upd (\<lambda>f. opt_in (f_folder f) ids \<and> f_deleted_at f = None)
      (\<lambda>f. f\<lparr>f_deleted_at := Some now, f_updated_at := now\<rparr>) (t_files w)"
    by (simp_all add: trash_files_in_def trash_folders_def)
  have T: "tenant_ok w" "trash_ok w" "forest w" using inv by (auto simp: tree_inv_def)
  have "tenant_ok ?w"
    using T(1) unfolding tenant_ok_def fos fs ball_upd by (auto split: if_splits)
  moreover have "child_rel ?w = child_rel w"
    by (rule child_rel_upd [OF fos]) simp
  then have "forest ?w" using T(3) by (simp add: forest_def)
  moreover have "trash_ok ?w"
    unfolding trash_ok_def fos fs ball_upd
  proof (intro ballI conjI impI, goal_cases)
    case (1 p c)
    then have pc: "fo_parent c = Some (fo_id p)" by (auto split: if_splits)
    have "trash_le (fo_deleted_at p) (fo_deleted_at c)" using trash_okD(1) [OF T(2) 1(1,2) pc] .
    moreover have "fo_id p \<in> set ids \<Longrightarrow> fo_id c \<in> set ids" using closed [OF _ 1(2) pc] .
    moreover have "t \<le> now" if "fo_deleted_at c = Some t" for t using clock 1(2) that by (auto simp: clock_ok_def)
    ultimately show ?case by (cases "fo_deleted_at p"; cases "fo_deleted_at c") auto
  next
    case (2 p f)
    then have pf: "f_folder f = Some (fo_id p)" by (auto split: if_splits)
    have "trash_le (fo_deleted_at p) (f_deleted_at f)" using trash_okD(2) [OF T(2) 2(1,2) pf] .
    moreover have "t \<le> now" if "f_deleted_at f = Some t" for t using clock 2(2) that by (auto simp: clock_ok_def)
    ultimately show ?case using pf by (cases "fo_deleted_at p"; cases "f_deleted_at f") auto
  qed
  ultimately show ?thesis by (simp add: tree_inv_def)
qed

text \<open>
  Restoring the folders \<open>P\<close> and the files \<open>Q\<close> keeps the invariants when the parent of
  everything restored is live or restored too.
\<close>

lemma untrash_tree_inv:
  assumes inv: "tree_inv w"
    and fos: "t_folders w' = upd P (\<lambda>fo. fo\<lparr>fo_deleted_at := None, fo_updated_at := now\<rparr>) (t_folders w)"
    and fs: "t_files w' = upd Q (\<lambda>f. f\<lparr>f_deleted_at := None, f_updated_at := now\<rparr>) (t_files w)"
    and P: "\<And>p c. p \<in> set (t_folders w) \<Longrightarrow> c \<in> set (t_folders w) \<Longrightarrow> fo_parent c = Some (fo_id p) \<Longrightarrow> P c \<Longrightarrow>
              P p \<or> fo_deleted_at p = None"
    and Q: "\<And>p f. p \<in> set (t_folders w) \<Longrightarrow> f \<in> set (t_files w) \<Longrightarrow> f_folder f = Some (fo_id p) \<Longrightarrow> Q f \<Longrightarrow>
              P p \<or> fo_deleted_at p = None"
  shows "tree_inv w'"
proof -
  have T: "tenant_ok w" "trash_ok w" "forest w" using inv by (auto simp: tree_inv_def)
  have "tenant_ok w'"
    using T(1) unfolding tenant_ok_def fos fs ball_upd by (auto split: if_splits)
  moreover have "child_rel w' = child_rel w"
    by (rule child_rel_upd [OF fos]) simp
  then have "forest w'" using T(3) by (simp add: forest_def)
  moreover have "trash_ok w'"
    unfolding trash_ok_def fos fs ball_upd
  proof (intro ballI conjI impI, goal_cases)
    case (1 p c)
    then have pc: "fo_parent c = Some (fo_id p)" by (auto split: if_splits)
    have "trash_le (fo_deleted_at p) (fo_deleted_at c)" using trash_okD(1) [OF T(2) 1(1,2) pc] .
    then show ?case using P [OF 1(1,2) pc] by auto
  next
    case (2 p f)
    then have pf: "f_folder f = Some (fo_id p)" by (auto split: if_splits)
    have "trash_le (fo_deleted_at p) (f_deleted_at f)" using trash_okD(2) [OF T(2) 2(1,2) pf] .
    then show ?case using Q [OF 2(1,2) pf] by auto
  qed
  ultimately show ?thesis by (simp add: tree_inv_def)
qed

subsection \<open>Ancestors\<close>

lemma set_ancestors: "set (ancestors (t_folders w) start) = ((child_rel w)\<inverse>)\<^sup>* `` set start"
  by (simp add: ancestors_def set_rec_union parent_edges_rel)

lemma ancestors_parent:
  fixes w :: vault
  assumes "fo_id c \<in> set (ancestors (t_folders w) start)" and "c \<in> set (t_folders w)" and "fo_parent c = Some p"
  shows "p \<in> set (ancestors (t_folders w) start)"
proof -
  have "(fo_id c, p) \<in> (child_rel w)\<inverse>" using assms(2,3) by (auto simp: child_rel_def)
  with assms(1) show ?thesis by (auto simp: set_ancestors intro: rtrancl_into_rtrancl)
qed

lemma ancestors_start: "p \<in> set start \<Longrightarrow> p \<in> set (ancestors fos start)"
  by (auto simp: ancestors_def set_rec_union)

lemma ancestors_owned:
  assumes "vault_inv w" and "tenant_ok w" and "\<And>p fo. p \<in> set start \<Longrightarrow> fo \<in> set (t_folders w) \<Longrightarrow> fo_id fo = p \<Longrightarrow> fo_user fo = u"
    and "fo \<in> set (t_folders w)" and "fo_id fo \<in> set (ancestors (t_folders w) start)"
  shows "fo_user fo = u"
proof -
  from assms(5) obtain s where s: "s \<in> set start" and path: "(s, fo_id fo) \<in> ((child_rel w)\<inverse>)\<^sup>*"
    by (auto simp: set_ancestors)
  from path have "\<forall>r\<in>set (t_folders w). fo_id r = fo_id fo \<longrightarrow> fo_user r = u"
  proof (induction rule: rtrancl_induct)
    case base
    then show ?case using assms(3) [OF s] by blast
  next
    case (step y z)
    then obtain c where c: "c \<in> set (t_folders w)" "fo_parent c = Some z" "fo_id c = y" by (auto simp: child_rel_def)
    then have "fo_user c = u" using step.IH by blast
    with c show ?case using tenant_okD(1) [OF assms(2) _ c(1)] by auto
  qed
  with assms(4) show ?thesis by blast
qed

subsection \<open>Live paths\<close>

definition live_rel :: "vault \<Rightarrow> (uuid \<times> uuid) set" where
  "live_rel w = {(p, fo_id fo) |p fo. fo \<in> set (t_folders w) \<and> fo_deleted_at fo = None \<and> fo_parent fo = Some p}"

lemma live_edges_rel: "set (child_edges (\<lambda>fo. fo_deleted_at fo = None) (t_folders w)) = live_rel w"
  by (auto simp: set_child_edges live_rel_def)

lemma live_rel_sub: "live_rel w \<subseteq> child_rel w"
  by (auto simp: live_rel_def child_rel_def)

text \<open>All ancestors of a live folder are live, and the path to it consists of live folders.\<close>

lemma live_path:
  assumes "vault_inv w" and "trash_ok w" and "(a, b) \<in> (child_rel w)\<^sup>*"
    and "fo \<in> set (t_folders w)" and "fo_id fo = b" and "fo_deleted_at fo = None"
  shows "(a, b) \<in> (live_rel w)\<^sup>* \<and> (\<forall>p\<in>set (t_folders w). fo_id p = a \<longrightarrow> fo_deleted_at p = None)"
  using assms(3-6)
proof (induction arbitrary: fo rule: rtrancl_induct)
  case base
  then show ?case using ukeyD [OF vault_invD(1) [OF assms(1)]] by (metis rtrancl.rtrancl_refl)
next
  case (step y z)
  then obtain c where c: "c \<in> set (t_folders w)" "fo_parent c = Some y" "z = fo_id c" by (auto simp: child_rel_def)
  then have "c = fo" using step.prems ukeyD [OF vault_invD(1) [OF assms(1)]] by metis
  obtain p where p: "p \<in> set (t_folders w)" "fo_id p = y"
    using fkeyD [OF vault_invD(6) [OF assms(1)] c(1,2)] by blast
  have "trash_le (fo_deleted_at p) (fo_deleted_at c)" using trash_okD(1) [OF assms(2) p(1) c(1)] c(2) p(2) by simp
  then have "fo_deleted_at p = None"
    using step.prems \<open>c = fo\<close> by (cases "fo_deleted_at p") auto
  with step.IH p have "(a, y) \<in> (live_rel w)\<^sup>*" "\<forall>p\<in>set (t_folders w). fo_id p = a \<longrightarrow> fo_deleted_at p = None" by blast+
  moreover have "(y, z) \<in> live_rel w" using c step.prems \<open>c = fo\<close> by (auto simp: live_rel_def)
  ultimately show ?case by (auto intro: rtrancl_into_rtrancl)
qed

lemma live_acyclic: "forest w \<Longrightarrow> (a, a) \<notin> (live_rel w)\<^sup>+"
  unfolding forest_def acyclic_def using trancl_mono [OF _ live_rel_sub] by blast

subsection \<open>Moving and inserting folders\<close>

lemma reparent_forest:
  assumes "forest w" and "\<And>t. target = Some t \<Longrightarrow> (fid, t) \<notin> (child_rel w)\<^sup>*"
    and "t_folders w' = upd P g (t_folders w)" and "\<And>fo. P fo \<Longrightarrow> fo_id fo = fid"
    and g: "\<And>fo. fo_id (g fo) = fo_id fo" "\<And>fo. fo_parent (g fo) = target"
  shows "forest w'"
proof -
  have sub: "child_rel w' \<subseteq> child_rel w \<union> (case target of None \<Rightarrow> {} | Some t \<Rightarrow> {(t, fid)})"
    unfolding child_rel_def assms(3) in_upd_iff using assms(4) g by (auto split: if_splits)
  show ?thesis
  proof (cases target)
    case None
    with sub assms(1) show ?thesis unfolding forest_def by (auto intro: acyclic_subset)
  next
    case (Some t)
    have "acyclic (insert (t, fid) (child_rel w))"
      using assms(1,2) Some by (simp add: forest_def acyclic_insert)
    moreover have "child_rel w' \<subseteq> insert (t, fid) (child_rel w)" using sub Some by auto
    ultimately show ?thesis unfolding forest_def by (rule acyclic_subset)
  qed
qed

text \<open>A live folder of \<open>u\<close> may be put under a live folder of \<open>u\<close>, or at the top.\<close>

lemma reparent_tree_inv:
  assumes vi: "vault_inv w" and inv: "tree_inv w"
    and target: "\<And>t. target = Some t \<Longrightarrow> (fid, t) \<notin> (child_rel w)\<^sup>* \<and> has_row (live_folder t u) (t_folders w)"
    and fos: "t_folders w' = upd (live_folder fid u) g (t_folders w)" and fs: "t_files w' = t_files w"
    and g: "\<And>fo. fo_id (g fo) = fo_id fo" "\<And>fo. fo_parent (g fo) = target" "\<And>fo. fo_user (g fo) = fo_user fo"
      "\<And>fo. fo_deleted_at (g fo) = fo_deleted_at fo"
  shows "tree_inv w'"
proof -
  have T: "tenant_ok w" "trash_ok w" "forest w" using inv by (auto simp: tree_inv_def)
  have tgt: "fo_user p = u \<and> fo_deleted_at p = None" if "target = Some (fo_id p)" "p \<in> set (t_folders w)" for p
    using target that ukeyD [OF vault_invD(1) [OF vi]] by (fastforce simp: live_folder_def)
  have keep: "fo_id (if live_folder fid u fo then g fo else fo) = fo_id fo"
    "fo_user (if live_folder fid u fo then g fo else fo) = fo_user fo"
    "fo_deleted_at (if live_folder fid u fo then g fo else fo) = fo_deleted_at fo" for fo
    by (simp_all add: g)
  have par: "(fo_parent (if live_folder fid u fo then g fo else fo) = Some p) \<longleftrightarrow>
     (if live_folder fid u fo then target = Some p else fo_parent fo = Some p)" for fo p by (simp add: g)
  have own: "fo_user c = u \<and> fo_deleted_at c = None" if "live_folder fid u c" for c
    using that by (simp add: live_folder_def)
  have "tenant_ok w'"
    unfolding tenant_ok_def fos fs ball_upd keep par
  proof (intro ballI conjI impI, goal_cases)
    case (1 p c)
    then show ?case using tenant_okD(1) [OF T(1) 1(1,2)] tgt [of p] own [of c] by (cases "live_folder fid u c") auto
  next
    case (2 p f)
    then show ?case using tenant_okD(2) [OF T(1) 2(1,2)] by blast
  qed
  moreover have "trash_ok w'"
    unfolding trash_ok_def fos fs ball_upd keep par
  proof (intro ballI conjI impI, goal_cases)
    case (1 p c)
    then show ?case using trash_okD(1) [OF T(2) 1(1,2)] tgt [of p] own [of c] by (cases "live_folder fid u c") auto
  next
    case (2 p f)
    then show ?case using trash_okD(2) [OF T(2) 2(1,2)] by blast
  qed
  moreover have "forest w'"
    by (rule reparent_forest [OF T(3) _ fos]) (use target g in \<open>auto simp: live_folder_def\<close>)
  ultimately show ?thesis by (simp add: tree_inv_def)
qed

lemma insert_folder_tree_inv:
  assumes ins: "insert_folder r w = Inr w'" and vi: "vault_inv w" and inv: "tree_inv w"
    and live: "fo_deleted_at r = None"
    and parent: "\<And>p. fo_parent r = Some p \<Longrightarrow> has_row (live_folder p (fo_user r)) (t_folders w)"
  shows "tree_inv w'"
proof -
  have T: "tenant_ok w" "trash_ok w" "forest w" using inv by (auto simp: tree_inv_def)
  note J = insert_folder_Inr [OF ins]
  have fresh: "fo_parent fo \<noteq> Some (fo_id r)" if "fo \<in> set (t_folders w)" for fo
    using fkeyD [OF vault_invD(6) [OF vi] that] J(2) by blast
  have freshf: "f_folder f \<noteq> Some (fo_id r)" if "f \<in> set (t_files w)" for f
    using fkeyD [OF vault_invD(7) [OF vi] that] J(2) by blast
  have par: "fo_user p = fo_user r \<and> fo_deleted_at p = None" if "fo_parent r = Some (fo_id p)" "p \<in> set (t_folders w)" for p
    using parent that ukeyD [OF vault_invD(1) [OF vi]] by (fastforce simp: live_folder_def)
  have self: "fo_parent r \<noteq> Some (fo_id r)"
    using parent J(2) by (fastforce simp: live_folder_def)
  have "tenant_ok w'" using T(1) fresh freshf par self by (auto simp: tenant_ok_def J(1))
  moreover have "trash_ok w'" using T(2) fresh freshf par self live by (auto simp: trash_ok_def J(1))
  moreover have "forest w'"
  proof (cases "fo_parent r")
    case None
    then have "child_rel w' = child_rel w" by (auto simp: child_rel_def J(1))
    with T(3) show ?thesis by (simp add: forest_def)
  next
    case (Some p)
    then have eq: "child_rel w' = insert (p, fo_id r) (child_rel w)" by (auto simp: child_rel_def J(1))
    have "(fo_id r, p) \<notin> (child_rel w)\<^sup>*"
    proof
      assume "(fo_id r, p) \<in> (child_rel w)\<^sup>*"
      then show False using Some self fresh by (cases rule: converse_rtranclE) (auto simp: child_rel_def)
    qed
    with T(3) show ?thesis by (simp add: forest_def eq acyclic_insert)
  qed
  ultimately show ?thesis by (simp add: tree_inv_def)
qed

lemma insert_file_tree_inv:
  assumes ins: "insert_file r w = Inr w'" and vi: "vault_inv w" and inv: "tree_inv w"
    and folder: "\<And>p. f_folder r = Some p \<Longrightarrow> has_row (live_folder p (f_user r)) (t_folders w)"
  shows "tree_inv w'"
proof -
  have T: "tenant_ok w" "trash_ok w" "forest w" using inv by (auto simp: tree_inv_def)
  note J = insert_file_Inr [OF ins]
  have par: "fo_user p = f_user r \<and> fo_deleted_at p = None" if "f_folder r = Some (fo_id p)" "p \<in> set (t_folders w)" for p
    using folder that ukeyD [OF vault_invD(1) [OF vi]] by (fastforce simp: live_folder_def)
  have "tenant_ok w'" using T(1) par by (auto simp: tenant_ok_def J(1))
  moreover have "trash_ok w'" using T(2) par by (auto simp: trash_ok_def J(1))
  moreover have "forest w'" using T(3) by (simp add: forest_def child_rel_def J(1))
  ultimately show ?thesis by (simp add: tree_inv_def)
qed

end
