(* ===== verification/Contract.thy ===== *)
theory Contract
  imports Tree
begin

text \<open>
  What the operations of the services promise. An operation is a relation between the state
  before, the result and the state after, so that one whose query may not return fits too.
  \<open>operation\<close>: every outcome keeps the invariant of the database. \<open>tenant_operation\<close>: an
  operation on behalf of one user keeps the folder hierarchy well formed too and leaves the
  rows of other users alone. \<open>safe_operation\<close>: moreover it loses no object key.
  \<open>tenant_transaction\<close> is the interface of the operations that run in one transaction: an
  error leaves the tables as they were, so the promises have to be kept on success only.
\<close>

subsection \<open>The invariant of the system\<close>

definition system_inv :: "timestamp \<Rightarrow> vault \<Rightarrow> bool" where
  "system_inv now w \<longleftrightarrow> vault_inv w \<and> tree_inv w \<and> clock_ok now w"

lemma system_invD:
  assumes "system_inv now w"
  shows "vault_inv w" "tree_inv w" "clock_ok now w" "tenant_ok w" "trash_ok w" "forest w"
  using assms by (auto simp: system_inv_def tree_inv_def)

lemma system_inv_later: "system_inv now w \<Longrightarrow> now \<le> later \<Longrightarrow> system_inv later w"
  by (force simp: system_inv_def clock_ok_def)

lemma system_inv_empty: "system_inv now empty_vault"
  by (simp add: system_inv_def vault_inv_defs tree_inv_def tenant_ok_def trash_ok_def forest_def child_rel_def
      clock_ok_def empty_vault_def ukey_def fkey_def active_ok_def current_ok_def acyclic_def)

lemma clock_ok_cong: "t_folders w' = t_folders w \<Longrightarrow> t_files w' = t_files w \<Longrightarrow> clock_ok now w' = clock_ok now w"
  by (simp add: clock_ok_def)

lemma clock_ok_mono:
  assumes "clock_ok now w"
    and fo: "fo_deleted_at ` set (t_folders w') \<subseteq> insert None (insert (Some now) (fo_deleted_at ` set (t_folders w)))"
    and f: "f_deleted_at ` set (t_files w') \<subseteq> insert None (insert (Some now) (f_deleted_at ` set (t_files w)))"
  shows "clock_ok now w'"
proof -
  have "t \<le> now" if "r \<in> set (t_folders w')" "fo_deleted_at r = Some t" for r t
  proof -
    have "Some t \<in> fo_deleted_at ` set (t_folders w')" using that by force
    with fo have "t = now \<or> Some t \<in> fo_deleted_at ` set (t_folders w)" by blast
    then show ?thesis using assms(1) by (auto simp: clock_ok_def)
  qed
  moreover have "t \<le> now" if "r \<in> set (t_files w')" "f_deleted_at r = Some t" for r t
  proof -
    have "Some t \<in> f_deleted_at ` set (t_files w')" using that by force
    with f have "t = now \<or> Some t \<in> f_deleted_at ` set (t_files w)" by blast
    then show ?thesis using assms(1) by (auto simp: clock_ok_def)
  qed
  ultimately show ?thesis by (simp add: clock_ok_def)
qed

lemma clock_ok_upd:
  assumes "clock_ok now w" and fos: "t_folders w' = upd P g (t_folders w)" and fs: "t_files w' = upd Q h (t_files w)"
    and g: "\<And>fo. P fo \<Longrightarrow> fo_deleted_at (g fo) \<in> {None, Some now, fo_deleted_at fo}"
    and h: "\<And>f. Q f \<Longrightarrow> f_deleted_at (h f) \<in> {None, Some now, f_deleted_at f}"
  shows "clock_ok now w'"
proof -
  have "\<forall>t. fo_deleted_at (if P fo then g fo else fo) = Some t \<longrightarrow> t \<le> now" if "fo \<in> set (t_folders w)" for fo
    using assms(1) that g [of fo] by (auto simp: clock_ok_def)
  moreover have "\<forall>t. f_deleted_at (if Q f then h f else f) = Some t \<longrightarrow> t \<le> now" if "f \<in> set (t_files w)" for f
    using assms(1) that h [of f] by (auto simp: clock_ok_def)
  ultimately show ?thesis by (simp add: clock_ok_def fos fs ball_upd)
qed

text \<open>A step on behalf of \<open>u\<close>, seen from outside.\<close>

definition good_step :: "timestamp \<Rightarrow> uuid \<Rightarrow> vault \<Rightarrow> vault \<Rightarrow> bool" where
  "good_step now u w w' \<longleftrightarrow> system_inv now w' \<and> isolated u w w' \<and> keys_safe w w'"

lemma good_stepI: "system_inv now w' \<Longrightarrow> isolated u w w' \<Longrightarrow> keys_safe w w' \<Longrightarrow> good_step now u w w'"
  by (simp add: good_step_def)

lemma good_step_refl: "system_inv now w \<Longrightarrow> good_step now u w w"
  by (simp add: good_step_def)

lemma good_step_trans: "good_step now u w w' \<Longrightarrow> good_step now u w' w'' \<Longrightarrow> good_step now u w w''"
  unfolding good_step_def by (blast intro: isolated_trans keys_safe_trans)

lemma good_step_system: "good_step now u w w' \<Longrightarrow> system_inv now w'"
  by (simp add: good_step_def)

context quiet
begin

lemma clock: "clock_ok now (eff w) = clock_ok now w"
  by (rule clock_ok_cong) (simp_all add: folders files)

lemma system: "system_inv now (eff w) = system_inv now w"
  by (simp add: system_inv_def inv tree clock)

lemma good: "good_step now u w0 (eff w) = good_step now u w0 w"
  by (simp add: good_step_def system iso keys)

end

lemmas quiet_good =
  broadcast_sync.good file_broadcast.good audit_log_ok.good best_effort.good

lemma same_tables_refl [simp]: "same_tables w w"
  by (simp add: same_tables_def)

lemma same_tablesD:
  assumes "same_tables w w'"
  shows "t_folders w' = t_folders w" "t_files w' = t_files w" "t_versions w' = t_versions w"
    "t_chunks w' = t_chunks w" "t_pending w' = t_pending w"
  using assms by (simp_all add: same_tables_def)

lemma same_tables_inv: "same_tables w w' \<Longrightarrow> vault_inv w' = vault_inv w"
  by (rule vault_inv_cong) (simp_all add: same_tablesD)

lemma same_tables_system: "same_tables w w' \<Longrightarrow> system_inv now w' = system_inv now w"
  using same_tables_inv [of w w'] tree_inv_cong [of w' w] clock_ok_cong [of w' w now]
  by (simp add: system_inv_def same_tablesD)

lemma same_tables_safe: "same_tables w w' \<Longrightarrow> isolated u w w' \<and> keys_safe w w'"
  using isolated_right_cong [of w' w u w] keys_safe_cong [of w' w] by (simp add: same_tablesD)

lemma audit_good:
  assumes "audit_log now u d ev meta w = Inr w'"
  shows "good_step t i w0 w' = good_step t i w0 w"
  using same_tables_system [OF audit_log_frame [OF assms]]
  by (simp add: good_step_def audit_keys [OF assms] audit_iso [OF assms])

lemma same_tables_good: "same_tables w w' \<Longrightarrow> system_inv now w \<Longrightarrow> good_step now u w w'"
  by (simp add: good_step_def same_tables_system same_tables_safe)

subsection \<open>Operations and transactions\<close>

locale operation =
  fixes run :: "vault \<Rightarrow> 'r result \<Rightarrow> vault \<Rightarrow> bool"
  assumes inv: "vault_inv w \<Longrightarrow> run w res w' \<Longrightarrow> vault_inv w'"

locale tenant_operation = operation run
  for run :: "vault \<Rightarrow> 'r result \<Rightarrow> vault \<Rightarrow> bool" +
  fixes now :: timestamp and u :: uuid
  assumes system: "system_inv now w \<Longrightarrow> run w res w' \<Longrightarrow> system_inv now w'"
    and tenant_isolated: "system_inv now w \<Longrightarrow> run w res w' \<Longrightarrow> isolated u w w'"

locale safe_operation = tenant_operation run now u
  for run :: "vault \<Rightarrow> 'r result \<Rightarrow> vault \<Rightarrow> bool" and now u +
  assumes keys_kept: "system_inv now w \<Longrightarrow> run w res w' \<Longrightarrow> keys_safe w w'"
begin

lemma good: "system_inv now w \<Longrightarrow> run w res w' \<Longrightarrow> good_step now u w w'"
  by (simp add: good_step_def system tenant_isolated keys_kept)

text \<open>Later requests of the same user see a state as good as the first one did.\<close>

lemma good_twice:
  "system_inv now w \<Longrightarrow> run w res w' \<Longrightarrow> run w' res' w'' \<Longrightarrow> good_step now u w w''"
  by (blast intro: good good_step_trans good_step_system)

end

locale transaction =
  fixes run :: "vault \<Rightarrow> 'r result \<Rightarrow> vault \<Rightarrow> bool"
  assumes rollback: "run w (Inl e) w' \<Longrightarrow> same_tables w w'"
    and commit_inv: "vault_inv w \<Longrightarrow> run w (Inr r) w' \<Longrightarrow> vault_inv w'"
begin

lemma outcome_inv: "vault_inv w \<Longrightarrow> run w res w' \<Longrightarrow> vault_inv w'"
  by (cases res) (auto simp: same_tables_inv dest: rollback intro: commit_inv)

end

locale tenant_transaction = transaction run
  for run :: "vault \<Rightarrow> 'r result \<Rightarrow> vault \<Rightarrow> bool" +
  fixes now :: timestamp and u :: uuid
  assumes commit_good: "system_inv now w \<Longrightarrow> run w (Inr r) w' \<Longrightarrow> good_step now u w w'"
begin

lemma outcome_good: "system_inv now w \<Longrightarrow> run w res w' \<Longrightarrow> good_step now u w w'"
  by (cases res) (auto intro: commit_good same_tables_good dest: rollback)

end

sublocale tenant_transaction \<subseteq> safe_operation run now u
  by unfold_locales (auto simp: good_step_def intro: outcome_inv dest: outcome_good)

subsection \<open>Single statements\<close>

lemma good_of_inv:
  assumes "system_inv now w" and "vault_inv w'" and "t_folders w' = t_folders w" and "t_files w' = t_files w"
    and "isolated u w w'" and "keys_safe w w'"
  shows "good_step now u w w'"
  using system_invD [OF assms(1)] assms tree_inv_cong [OF assms(3,4)] clock_ok_cong [OF assms(3,4)]
  by (simp add: good_step_def system_inv_def)

text \<open>A step that leaves the folders, files, versions, chunks and the deletion queue alone is a good one.\<close>

lemma other_tables_good:
  assumes "system_inv now w" and "t_folders w' = t_folders w" "t_files w' = t_files w"
    "t_versions w' = t_versions w" "t_chunks w' = t_chunks w" "t_pending w' = t_pending w"
  shows "good_step now u w w'"
  using assms vault_inv_cong [OF assms(2-6)] isolated_right_cong [OF assms(2-5), of u w] keys_safe_cong [OF assms(5,6)]
  by (intro good_of_inv) (simp_all add: system_inv_def)

lemma insert_file_good:
  assumes ins: "insert_file r w = Inr w'" and sys: "system_inv now w"
    and "f_deleted_at r = None" and "f_current r = None"
    and folder: "\<And>p. f_folder r = Some p \<Longrightarrow> has_row (live_folder p (f_user r)) (t_folders w)"
  shows "good_step now (f_user r) w w'"
proof (rule good_stepI)
  note I = system_invD [OF sys] and J = insert_file_Inr(1) [OF ins]
  have "clock_ok now w'"
    using I(3) by (rule clock_ok_mono) (auto simp: J assms(3))
  then show "system_inv now w'"
    using insert_file_inv [OF ins I(1) assms(4)] insert_file_tree_inv [OF ins I(1,2) folder]
    by (simp add: system_inv_def)
  show "isolated (f_user r) w w'" by (rule insert_file_isolated [OF ins I(1) refl])
  show "keys_safe w w'" by (rule keys_safe_cong) (simp_all add: J)
qed

lemma insert_version_good:
  assumes ins: "insert_version r w = Inr w'" and sys: "system_inv now w" and "\<not> v_active r"
    and own: "owner_file w u (v_file r)"
  shows "good_step now u w w'"
proof -
  note I = system_invD [OF sys] and J = insert_version_Inr(1) [OF ins]
  show ?thesis
    by (rule good_of_inv [OF sys insert_version_inv [OF ins I(1) assms(3)]])
      (simp_all add: J insert_version_isolated [OF ins I(1) own, unfolded J] keys_safe_cong)
qed

lemma insert_chunk_good:
  assumes ins: "insert_chunk r w = Inr w'" and sys: "system_inv now w" and own: "owner_version w u (c_version r)"
  shows "good_step now u w w'"
proof -
  note I = system_invD [OF sys] and J = insert_chunk_Inr(1) [OF ins]
  have "keys_safe w w'" by (auto simp: keys_safe_def chunk_keys_def queued_keys_def J)
  then show ?thesis
    using insert_chunk_isolated [OF ins I(1) own]
    by (intro good_of_inv [OF sys insert_chunk_inv [OF ins I(1)]]) (simp_all add: J)
qed

lemma upd_chunks_good:
  assumes sys: "system_inv now w" and own: "\<And>c. c \<in> set (t_chunks w) \<Longrightarrow> P c \<Longrightarrow> owner_version w u (c_version c)"
    and g: "\<And>c. c_id (g c) = c_id c \<and> c_version (g c) = c_version c \<and> c_index (g c) = c_index c \<and> c_key (g c) = c_key c"
  shows "good_step now u w (w\<lparr>t_chunks := upd P g (t_chunks w)\<rparr>)"
proof -
  note I = system_invD [OF sys]
  have "c_key ` set (upd P g (t_chunks w)) = c_key ` set (t_chunks w)" by (rule image_upd_keep) (simp add: g)
  then have "keys_safe w (w\<lparr>t_chunks := upd P g (t_chunks w)\<rparr>)" by (simp add: keys_safe_def chunk_keys_def queued_keys_def)
  moreover have "isolated u w (w\<lparr>t_chunks := upd P g (t_chunks w)\<rparr>)"
    by (rule upd_chunks_isolated [OF I(1) own]) (simp_all add: g)
  moreover have "vault_inv (w\<lparr>t_chunks := upd P g (t_chunks w)\<rparr>)"
    by (rule upd_chunks_inv [OF I(1)]) (simp add: g)
  ultimately show ?thesis by (intro good_of_inv [OF sys]) simp_all
qed

lemma delete_files_purged:
  assumes "vault_inv w"
  shows "delete_files P w = purged (map f_id (filter P (t_files w))) w"
proof -
  let ?gone = "map f_id (filter P (t_files w))"
  have P: "P f \<longleftrightarrow> f_id f \<in> set ?gone" if "f \<in> set (t_files w)" for f
    using that ukeyD [OF vault_invD(2) [OF assms]] by auto
  have "upd Q g (del P (t_files w)) = del (\<lambda>f. f_id f \<in> set ?gone) (upd Q g (t_files w))"
    if "\<And>f. f_id (g f) = f_id f" for Q g
    using that P by (intro upd_del_commute) auto
  moreover have "(\<lambda>c. c_version c \<in> v_id ` {v \<in> set (t_versions w). v_file v \<in> f_id ` {f \<in> set (t_files w). P f}})
      = file_chunk w ?gone"
    by (rule ext) (force simp: file_chunk_def)
  ultimately show ?thesis
    by (simp add: delete_files_def delete_versions_def purged_def Let_def)
qed

lemma delete_files_tenant:
  assumes sys: "system_inv now w" and own: "\<And>f. f \<in> set (t_files w) \<Longrightarrow> P f \<Longrightarrow> f_user f = u"
  shows "system_inv now (delete_files P w)" and "isolated u w (delete_files P w)"
proof -
  note I = system_invD [OF sys]
  let ?gone = "map f_id (filter P (t_files w))" and ?w = "delete_files P w"
  have files: "t_files ?w = del (\<lambda>f. f_id f \<in> set ?gone) (t_files w)"
    by (simp add: delete_files_purged [OF I(1)] purged_files [OF I(1), simplified])
  then have "set (t_files ?w) \<subseteq> set (t_files w)" by auto
  then have "tree_inv ?w" "clock_ok now ?w"
    using I(2,3) by (auto intro!: tree_inv_mono [OF _ _ I(2)] clock_ok_mono [OF I(3)])
  then show "system_inv now ?w" using delete_files_inv [OF I(1)] by (simp add: system_inv_def)
  show "isolated u w ?w"
  proof (rule drop_owned_isolated [OF I(1) _ files])
    show "f_user f = u" if "f \<in> set (t_files w)" "f_id f \<in> set ?gone" for f
      using that own ukeyD [OF vault_invD(2) [OF I(1)]] by auto
    show "t_versions ?w = del (\<lambda>v. v_file v \<in> set ?gone) (t_versions w)"
      "t_chunks ?w = del (file_chunk w ?gone) (t_chunks w)" "t_folders ?w = t_folders w"
      by (simp_all add: delete_files_purged [OF I(1)] purged_def)
  qed
qed

lemma delete_versions_isolated:
  assumes inv: "vault_inv w" and own: "\<And>v. v \<in> set (t_versions w) \<Longrightarrow> P v \<Longrightarrow> owner_file w u (v_file v)"
  shows "isolated u w (delete_versions P w)"
  unfolding isolated_def
proof (intro allI impI)
  let ?gone = "map v_id (filter P (t_versions w))" and ?w = "delete_versions P w"
  let ?Q = "\<lambda>f. opt_in (f_current f) ?gone" and ?g = "\<lambda>f. f\<lparr>f_current := None\<rparr>"
  have rows: "t_versions ?w = del P (t_versions w)" "t_chunks ?w = del (\<lambda>c. c_version c \<in> set ?gone) (t_chunks w)"
    "t_files ?w = upd ?Q ?g (t_files w)"
    by (simp_all add: delete_versions_def Let_def)
  fix u' assume u': "u' \<noteq> u"
  have of: "owner_file ?w u' i = owner_file w u' i" for i
    by (rule owner_file_cong) (simp add: rows image_upd_keep)
  have notP: "\<not> P v" if "v \<in> set (t_versions w)" "owner_file w u' (v_file v)" for v
    using own [OF that(1)] owner_unique [OF inv that(2)] u' by blast
  have ov: "owner_version ?w u' i = owner_version w u' i" for i
    using of notP by (auto simp: owner_version_def rows)
  have "f_user f = u" if f: "f \<in> set (t_files w)" "?Q f" for f
  proof -
    from f(2) obtain v where v: "v \<in> set (t_versions w)" "P v" "f_current f = Some (v_id v)" by (auto simp: opt_in_iff)
    then have "v_file v = f_id f" using current_okD [OF vault_invD(12) [OF inv] f(1)] by blast
    then have "owner_file w u (f_id f)" using own v by metis
    moreover have "owner_file w (f_user f) (f_id f)" using f(1) by (auto simp: owner_file_def)
    ultimately show ?thesis using owner_unique [OF inv] by blast
  qed
  then have "filter (\<lambda>f. f_user f = u') (t_files ?w) = filter (\<lambda>f. f_user f = u') (t_files w)"
    unfolding rows using u' by (intro filter_upd_other) auto
  moreover have "filter (\<lambda>v. owner_file w u' (v_file v)) (t_versions ?w) = filter (\<lambda>v. owner_file w u' (v_file v)) (t_versions w)"
    unfolding rows using notP by (intro filter_del_other)
  moreover have "c_version c \<notin> set ?gone" if "owner_version w u' (c_version c)" for c
  proof
    from that obtain v where v: "v \<in> set (t_versions w)" "v_id v = c_version c" "owner_file w u' (v_file v)"
      by (auto simp: owner_version_def)
    assume "c_version c \<in> set ?gone"
    then obtain v' where v': "v' \<in> set (t_versions w)" "P v'" "v_id v' = c_version c" by auto
    then have "v' = v" using v ukeyD [OF vault_invD(3) [OF inv]] by metis
    with v v' show False using notP by blast
  qed
  then have "filter (\<lambda>c. owner_version w u' (c_version c)) (t_chunks ?w) = filter (\<lambda>c. owner_version w u' (c_version c)) (t_chunks w)"
    unfolding rows by (intro filter_del_other)
  ultimately show "user_rows ?w u' = user_rows w u'" by (simp add: user_rows_def of ov)
qed

lemma delete_versions_tenant:
  assumes sys: "system_inv now w" and own: "\<And>v. v \<in> set (t_versions w) \<Longrightarrow> P v \<Longrightarrow> owner_file w u (v_file v)"
  shows "system_inv now (delete_versions P w)" and "isolated u w (delete_versions P w)"
proof -
  note I = system_invD [OF sys]
  have "tree_inv (delete_versions P w)"
    by (rule tree_inv_mono [OF _ _ I(2)]) (simp_all add: delete_versions_def Let_def image_upd_keep file_view_def)
  moreover have "clock_ok now (delete_versions P w)"
    using I(3) by (rule clock_ok_mono) (auto simp: delete_versions_def Let_def image_upd_keep)
  ultimately show "system_inv now (delete_versions P w)" using delete_versions_inv [OF I(1)] by (simp add: system_inv_def)
  show "isolated u w (delete_versions P w)" using own by (rule delete_versions_isolated [OF I(1)])
qed

lemma delete_chunks_tenant:
  assumes sys: "system_inv now w" and own: "\<And>c. c \<in> set (t_chunks w) \<Longrightarrow> P c \<Longrightarrow> owner_version w u (c_version c)"
  shows "system_inv now (delete_chunks P w)" and "isolated u w (delete_chunks P w)"
proof -
  note I = system_invD [OF sys]
  show "system_inv now (delete_chunks P w)"
    using I delete_chunks_inv [OF I(1)] tree_inv_cong [of "delete_chunks P w" w] clock_ok_cong [of "delete_chunks P w" w]
    by (simp add: system_inv_def)
  show "isolated u w (delete_chunks P w)"
    unfolding isolated_def
  proof (intro allI impI)
    fix u' assume u': "u' \<noteq> u"
    have of: "owner_file (delete_chunks P w) u' i = owner_file w u' i"
      "owner_version (delete_chunks P w) u' i = owner_version w u' i" for i
      by (simp_all add: owner_version_def owner_file_def)
    have "filter (\<lambda>c. owner_version w u' (c_version c)) (del P (t_chunks w)) = filter (\<lambda>c. owner_version w u' (c_version c)) (t_chunks w)"
      using own owner_version_unique [OF I(1)] u' by (intro filter_del_other) blast
    then show "user_rows (delete_chunks P w) u' = user_rows w u'"
      by (simp add: user_rows_def of) (simp add: delete_chunks_def)
  qed
qed

end
