(* ===== verification/Folders.thy ===== *)
theory Folders
  imports Contract
begin

text \<open>
  The folder service of \<open>src/features/folders/service.rs\<close>: every operation, over the
  folder table and the subtree and ancestor queries. An operation whose query is a
  \<open>UNION ALL\<close> recursion returns an option; \<open>None\<close> is a query that never returns.
\<close>

subsection \<open>Requests and responses\<close>

record create_folder_request =
  cfr_metadata :: string
  cfr_nonce :: string
  cfr_parent :: "uuid option"
  cfr_folder_id :: "uuid option"

record folder_response =
  fr_id :: uuid
  fr_parent :: "uuid option"
  fr_metadata :: string
  fr_nonce :: string
  fr_total_size :: int
  fr_deleted_at :: "timestamp option"
  fr_created_at :: timestamp
  fr_updated_at :: timestamp

record update_folder_request =
  ufr_metadata :: string
  ufr_nonce :: string
  ufr_parent :: "uuid option"

record flat_tree_node =
  n_id :: uuid
  n_parent :: "uuid option"
  n_type :: string
  n_metadata :: string
  n_nonce :: string
  n_key :: "string option"
  n_key_nonce :: "string option"
  n_total_size :: "int option"

text \<open>\<open>FromRow for FolderResponse\<close>; a query without the size column gives 0.\<close>

definition folder_response_of :: "ext \<Rightarrow> int \<Rightarrow> folder_row \<Rightarrow> folder_response" where
  "folder_response_of x sz fo =
     \<lparr>fr_id = fo_id fo, fr_parent = fo_parent fo, fr_metadata = encode_b64 x (fo_metadata fo),
      fr_nonce = encode_b64 x (fo_nonce fo), fr_total_size = sz, fr_deleted_at = fo_deleted_at fo,
      fr_created_at = fo_created_at fo, fr_updated_at = fo_updated_at fo\<rparr>"

definition json_opt :: "('a \<Rightarrow> json) \<Rightarrow> 'a option \<Rightarrow> json" where
  "json_opt f c = (case c of None \<Rightarrow> JNull | Some a \<Rightarrow> f a)"

definition folder_json :: "folder_response \<Rightarrow> json" where
  "folder_json r =
     JObj [(''folder_id'', JUuid (fr_id r)), (''parent_folder_id'', json_opt JUuid (fr_parent r)),
           (''encrypted_metadata'', JStr (fr_metadata r)), (''metadata_nonce'', JStr (fr_nonce r)),
           (''total_size'', JInt (fr_total_size r)), (''deleted_at'', json_opt JTime (fr_deleted_at r)),
           (''created_at'', JTime (fr_created_at r)), (''updated_at'', JTime (fr_updated_at r))]"

subsection \<open>Queries\<close>

definition verify_folder_ownership :: "vault \<Rightarrow> uuid \<Rightarrow> uuid \<Rightarrow> unit result" where
  "verify_folder_ownership w fid u = check_that (has_row (live_folder fid u) (t_folders w)) NotFound"

definition is_descendant_or_self :: "vault \<Rightarrow> uuid \<Rightarrow> uuid \<Rightarrow> bool option" where
  "is_descendant_or_self w fid target =
     rec_exists (child_edges (\<lambda>fo. fo_deleted_at fo = None) (t_folders w)) target
       (map fo_id (filter (\<lambda>fo. fo_id fo = fid \<and> fo_deleted_at fo = None) (t_folders w)))"

subsection \<open>Operations\<close>

definition create_folder ::
  "ext \<Rightarrow> timestamp \<Rightarrow> uuid \<Rightarrow> uuid \<Rightarrow> create_folder_request \<Rightarrow> vault \<Rightarrow> folder_response result \<times> vault" where
  "create_folder x now new_id u req w =
     attempt (decode_b64 x (cfr_nonce req)) w (\<lambda>nonce.
     attempt (check_that (length nonce = 24) (BadRequest ''metadata nonce must be 24 bytes'')) w (\<lambda>_.
     attempt (decode_b64 x (cfr_metadata req)) w (\<lambda>meta.
     attempt (for_option (cfr_parent req) (\<lambda>p. verify_folder_ownership w p u)) w (\<lambda>_.
     let row = \<lparr>fo_id = new_id, fo_user = u, fo_parent = cfr_parent req, fo_metadata = meta, fo_nonce = nonce,
                fo_created_at = now, fo_updated_at = now, fo_deleted_at = None\<rparr>;
         resp = folder_response_of x 0 row
     in attempt_sql (insert_folder row w) w (\<lambda>w1.
          (Inr resp, broadcast_sync u (mk_event ''created'' ''folder'' new_id (folder_json resp)) w1))))))"

definition get_folder :: "ext \<Rightarrow> uuid \<Rightarrow> uuid \<Rightarrow> vault \<Rightarrow> folder_response result" where
  "get_folder x u fid w =
     (case verify_folder_ownership w fid u of
        Inl e \<Rightarrow> Inl e
      | Inr _ \<Rightarrow>
          (case find (\<lambda>fo. fo_id fo = fid \<and> fo_deleted_at fo = None) (t_folders w) of
             None \<Rightarrow> Inl (of_sqlx RowNotFound)
           | Some fo \<Rightarrow> Inr (folder_response_of x 0 fo)))"

text \<open>
  The size of a listed folder: the sum over its subtree, in \<open>BIGINT\<close>; the cast fails out of
  range.
\<close>

definition folder_size :: "vault \<Rightarrow> uuid \<Rightarrow> bool \<Rightarrow> uuid \<Rightarrow> int" where
  "folder_size w u trashed root =
     sum_list (map (\<lambda>node. sum_list (map f_size
        (filter (\<lambda>f. f_folder f = Some node \<and> (trashed \<or> f_deleted_at f = None)) (t_files w))))
       (rec_union (child_edges (\<lambda>fo. fo_user fo = u) (t_folders w)) [root]))"

definition bigint_out_of_range :: sqlx_error where
  "bigint_out_of_range = Database (Some ''22003'') ''bigint out of range''"

definition list_folders ::
  "ext \<Rightarrow> uuid \<Rightarrow> uuid option \<Rightarrow> bool \<Rightarrow> vault \<Rightarrow> folder_response list result" where
  "list_folders x u parent trashed w =
     (let rows = filter (\<lambda>fo. fo_user fo = u \<and> fo_parent fo = parent \<and> (fo_deleted_at fo \<noteq> None) = trashed)
                   (t_folders w)
      in if list_all (\<lambda>fo. in_i64 (folder_size w u trashed (fo_id fo))) rows
         then Inr (map (\<lambda>fo. folder_response_of x (folder_size w u trashed (fo_id fo)) fo) rows)
         else Inl (of_sqlx bigint_out_of_range))"

text \<open>
  The target checks that \<open>update_folder\<close> and \<open>move_folder\<close> share, in the order of the code.
\<close>

definition check_move_target :: "vault \<Rightarrow> uuid \<Rightarrow> uuid \<Rightarrow> uuid option \<Rightarrow> unit result option" where
  "check_move_target w u fid target =
     (case target of
        None \<Rightarrow> Some (Inr ())
      | Some t \<Rightarrow>
          if t = fid then Some (Inl (BadRequest ''cannot move folder into itself''))
          else (case is_descendant_or_self w fid t of
                  None \<Rightarrow> None
                | Some True \<Rightarrow>
                    Some (Inl (BadRequest ''cannot move folder into itself or its own descendant''))
                | Some False \<Rightarrow> Some (verify_folder_ownership w t u)))"

definition update_folder ::
  "ext \<Rightarrow> timestamp \<Rightarrow> uuid \<Rightarrow> uuid \<Rightarrow> update_folder_request \<Rightarrow> vault \<Rightarrow> (folder_response result \<times> vault) option" where
  "update_folder x now u fid req w =
     (case verify_folder_ownership w fid u of
        Inl e \<Rightarrow> Some (Inl e, w)
      | Inr _ \<Rightarrow>
     (case decode_b64 x (ufr_nonce req) of
        Inl e \<Rightarrow> Some (Inl e, w)
      | Inr nonce \<Rightarrow>
     if length nonce \<noteq> 24 then Some (Inl (BadRequest ''metadata nonce must be 24 bytes''), w)
     else
     (case decode_b64 x (ufr_metadata req) of
        Inl e \<Rightarrow> Some (Inl e, w)
      | Inr meta \<Rightarrow>
     (case check_move_target w u fid (ufr_parent req) of
        None \<Rightarrow> None
      | Some (Inl e) \<Rightarrow> Some (Inl e, w)
      | Some (Inr _) \<Rightarrow>
     let g = (\<lambda>fo. fo\<lparr>fo_metadata := meta, fo_nonce := nonce, fo_parent := ufr_parent req, fo_updated_at := now\<rparr>);
         w1 = w\<lparr>t_folders := upd (live_folder fid u) g (t_folders w)\<rparr>
     in case find (live_folder fid u) (t_folders w1) of
          None \<Rightarrow> Some (Inl (of_sqlx RowNotFound), w)
        | Some fo \<Rightarrow>
            let resp = folder_response_of x 0 fo
            in Some (Inr resp, broadcast_sync u (mk_event ''updated'' ''folder'' (fr_id resp) (folder_json resp)) w1)))))"

definition move_folder ::
  "ext \<Rightarrow> timestamp \<Rightarrow> uuid \<Rightarrow> uuid \<Rightarrow> uuid option \<Rightarrow> vault \<Rightarrow> (folder_response result \<times> vault) option" where
  "move_folder x now u fid target w =
     (case verify_folder_ownership w fid u of
        Inl e \<Rightarrow> Some (Inl e, w)
      | Inr _ \<Rightarrow>
     (case check_move_target w u fid target of
        None \<Rightarrow> None
      | Some (Inl e) \<Rightarrow> Some (Inl e, w)
      | Some (Inr _) \<Rightarrow>
     let w1 = w\<lparr>t_folders := upd (live_folder fid u) (\<lambda>fo. fo\<lparr>fo_parent := target, fo_updated_at := now\<rparr>) (t_folders w)\<rparr>
     in case find (live_folder fid u) (t_folders w1) of
          None \<Rightarrow> Some (Inl (of_sqlx RowNotFound), w)
        | Some fo \<Rightarrow>
            Some (Inr (folder_response_of x 0 fo),
              broadcast_sync u (mk_event ''moved'' ''folder'' fid
                (JObj [(''parent_folder_id'', json_opt JUuid target)])) w1)))"

definition delete_folder :: "timestamp \<Rightarrow> uuid \<Rightarrow> uuid \<Rightarrow> vault \<Rightarrow> unit result \<times> vault" where
  "delete_folder now u fid w =
     (if \<not> has_row (live_folder fid u) (t_folders w) then (Inl NotFound, w)
      else
        let ids = subtree w [fid] u;
            w1 = trash_files_in now ids (trash_folders now ids w)
        in (Inr (), broadcast_sync u (mk_event ''deleted'' ''folder'' fid (JObj [])) w1))"

definition restore_folder :: "timestamp \<Rightarrow> uuid \<Rightarrow> uuid \<Rightarrow> vault \<Rightarrow> unit result \<times> vault" where
  "restore_folder now u fid w =
     (case find (\<lambda>fo. fo_id fo = fid \<and> fo_user fo = u \<and> fo_deleted_at fo \<noteq> None) (t_folders w) of
        None \<Rightarrow> (Inl NotFound, w)
      | Some root \<Rightarrow>
          let trash_time = fo_deleted_at root;
              w1 = untrash_folders now (\<lambda>fo. fo_id fo \<in> set (subtree w [fid] u) \<and> fo_deleted_at fo = trash_time) w;
              w2 = untrash_files now (\<lambda>f. opt_in (f_folder f) (subtree w1 [fid] u) \<and> f_deleted_at f = trash_time) w1;
              parents = map snd (filter (\<lambda>e. fst e = fid) (parent_edges (t_folders w2)));
              chain = ancestors (t_folders w2) parents;
              w3 = untrash_folders now (\<lambda>fo. fo_id fo \<in> set chain \<and> fo_deleted_at fo \<noteq> None) w2
          in (Inr (), broadcast_sync u (mk_event ''restored'' ''folder'' fid (JObj [])) w3))"

definition permanent_delete_folder ::
  "ext \<Rightarrow> timestamp \<Rightarrow> uuid \<Rightarrow> uuid \<Rightarrow> vault \<Rightarrow> unit result \<times> vault" where
  "permanent_delete_folder x now u fid w =
     (case find (\<lambda>fo. fo_id fo = fid \<and> fo_user fo = u) (t_folders w) of
        None \<Rightarrow> (Inl NotFound, w)
      | Some root \<Rightarrow>
          let was_trashed = (fo_deleted_at root \<noteq> None);
              ids = subtree w [fid] u;
              fids = map f_id (filter (\<lambda>f. opt_in (f_folder f) ids \<and> f_user f = u) (t_files w))
          in case hard_delete_files now fids (Some u) w of
               ((_, keys), w1) \<Rightarrow>
                 let w2 = w1\<lparr>t_shares := upd (\<lambda>s. sh_type s = ''folder'' \<and> sh_item s \<in> set ids \<and> sh_revoked_at s = None)
                                          (\<lambda>s. s\<lparr>sh_revoked_at := Some now\<rparr>) (t_shares w1)\<rparr>;
                     folders_deleted = row_count (\<lambda>fo. fo_id fo \<in> set ids \<and> fo_user fo = u) (t_folders w2);
                     w3 = delete_folders (\<lambda>fo. fo_id fo \<in> set ids \<and> fo_user fo = u) w2
                 in attempt_sql (audit_log now (Some u) None ''folder_purged''
                      (JObj [(''folder_id'', JUuid fid), (''folders'', JInt (int folders_deleted)),
                             (''files'', JInt (int (length fids))), (''objects'', JInt (int (length keys))),
                             (''was_trashed'', JBool was_trashed)]) w3) w (\<lambda>w4.
                    (Inr (), broadcast_sync u (mk_event ''purged'' ''folder'' fid
                       (JObj [(''folders'', JInt (int folders_deleted)), (''files'', JInt (int (length fids))),
                              (''objects'', JInt (int (length keys)))]))
                       (delete_objects_best_effort x keys w4))))"

definition get_descendant_folder_ids :: "uuid list \<Rightarrow> uuid \<Rightarrow> vault \<Rightarrow> uuid list option" where
  "get_descendant_folder_ids ids u w =
     (if ids = [] then Some []
      else rec_union_all (child_edges (\<lambda>fo. fo_deleted_at fo = None) (t_folders w)) []
             (map fo_id (filter (\<lambda>fo. fo_id fo \<in> set ids \<and> fo_user fo = u \<and> fo_deleted_at fo = None) (t_folders w))))"

definition soft_delete_many :: "timestamp \<Rightarrow> uuid list \<Rightarrow> uuid \<Rightarrow> vault \<Rightarrow> vault" where
  "soft_delete_many now ids u w =
     (if ids = [] then w
      else w\<lparr>t_folders := upd (\<lambda>fo. fo_id fo \<in> set ids \<and> fo_user fo = u \<and> fo_deleted_at fo = None)
                            (\<lambda>fo. fo\<lparr>fo_deleted_at := Some now\<rparr>) (t_folders w)\<rparr>)"

text \<open>
  \<open>create_folders_bulk\<close> sends each event before the transaction commits: a failure rolls the
  tables back to \<open>w0\<close> but not the events already sent. \<open>gen i\<close> is the identifier generated for
  the \<open>i\<close>-th request that brings none.
\<close>

definition roll_back :: "vault \<Rightarrow> vault \<Rightarrow> vault" where
  "roll_back w0 w = w0\<lparr>event_seq := event_seq w, sse_sent := sse_sent w\<rparr>"

fun create_folders_loop ::
  "ext \<Rightarrow> timestamp \<Rightarrow> (nat \<Rightarrow> uuid) \<Rightarrow> uuid \<Rightarrow> nat \<Rightarrow> create_folder_request list \<Rightarrow> vault \<Rightarrow> vault
     \<Rightarrow> folder_response list result \<times> vault" where
  "create_folders_loop x now gen u i [] w0 w = (Inr [], w)"
| "create_folders_loop x now gen u i (req # reqs) w0 w =
     attempt (decode_b64 x (cfr_nonce req)) (roll_back w0 w) (\<lambda>nonce.
     attempt (check_that (length nonce = 24) (BadRequest ''metadata nonce must be 24 bytes'')) (roll_back w0 w) (\<lambda>_.
     attempt (decode_b64 x (cfr_metadata req)) (roll_back w0 w) (\<lambda>meta.
     let new_id = (case cfr_folder_id req of None \<Rightarrow> gen i | Some d \<Rightarrow> d);
         row = \<lparr>fo_id = new_id, fo_user = u, fo_parent = cfr_parent req, fo_metadata = meta, fo_nonce = nonce,
                fo_created_at = now, fo_updated_at = now, fo_deleted_at = None\<rparr>;
         resp = folder_response_of x 0 row
     in attempt_sql (insert_folder row w) (roll_back w0 w) (\<lambda>w1.
          let w2 = broadcast_sync u (mk_event ''created'' ''folder'' new_id (folder_json resp)) w1
          in case create_folders_loop x now gen u (Suc i) reqs w0 w2 of
               (Inl e, w3) \<Rightarrow> (Inl e, w3)
             | (Inr rs, w3) \<Rightarrow> (Inr (resp # rs), w3)))))"

definition create_folders_bulk ::
  "ext \<Rightarrow> timestamp \<Rightarrow> (nat \<Rightarrow> uuid) \<Rightarrow> uuid \<Rightarrow> create_folder_request list \<Rightarrow> vault
     \<Rightarrow> folder_response list result \<times> vault" where
  "create_folders_bulk x now gen u reqs w = create_folders_loop x now gen u 0 reqs w w"

text \<open>The rows of the tree listing.\<close>

definition folder_node :: "ext \<Rightarrow> uuid option \<Rightarrow> folder_row \<Rightarrow> flat_tree_node" where
  "folder_node x parent fo =
     \<lparr>n_id = fo_id fo, n_parent = parent, n_type = ''folder'', n_metadata = encode_b64 x (fo_metadata fo),
      n_nonce = encode_b64 x (fo_nonce fo), n_key = None, n_key_nonce = None, n_total_size = None\<rparr>"

definition file_node :: "ext \<Rightarrow> file_row \<Rightarrow> version_row \<Rightarrow> flat_tree_node" where
  "file_node x f v =
     \<lparr>n_id = f_id f, n_parent = f_folder f, n_type = ''file'', n_metadata = encode_b64 x (f_metadata f),
      n_nonce = encode_b64 x (f_nonce f), n_key = map_option (encode_b64 x) (v_key v),
      n_key_nonce = map_option (encode_b64 x) (v_key_nonce v), n_total_size = Some (f_size f)\<rparr>"

text \<open>\<open>JOIN file_versions v ON f.current_version_id = v.version_id\<close>.\<close>

definition current_versions :: "vault \<Rightarrow> file_row \<Rightarrow> version_row list" where
  "current_versions w f = filter (\<lambda>v. f_current f = Some (v_id v)) (t_versions w)"

definition get_folder_file_tree :: "ext \<Rightarrow> uuid \<Rightarrow> uuid \<Rightarrow> vault \<Rightarrow> flat_tree_node list result option" where
  "get_folder_file_tree x u fid w =
     (if fid = 0 then
        Some (Inr (map (\<lambda>fo. folder_node x (fo_parent fo) fo)
                     (filter (\<lambda>fo. fo_user fo = u \<and> fo_deleted_at fo = None) (t_folders w)) @
                   concat (map (\<lambda>f. map (file_node x f) (current_versions w f))
                     (filter (\<lambda>f. f_user f = u \<and> f_deleted_at f = None) (t_files w)))))
      else case verify_folder_ownership w fid u of
             Inl e \<Rightarrow> Some (Inl e)
           | Inr _ \<Rightarrow>
               (case rec_union_all (child_edges (\<lambda>fo. fo_deleted_at fo = None) (t_folders w)) []
                       (map fo_id (filter (live_folder fid u) (t_folders w))) of
                  None \<Rightarrow> None
                | Some ids \<Rightarrow>
                    Some (Inr (concat (map (\<lambda>i. map (\<lambda>fo. folder_node x (if i = fid then None else fo_parent fo) fo)
                                                (filter (\<lambda>fo. fo_id fo = i) (t_folders w))) ids) @
                               concat (map (\<lambda>f. map (file_node x f) (current_versions w f))
                                 (filter (\<lambda>f. opt_in (f_folder f) ids \<and> f_deleted_at f = None) (t_files w)))))))"

text \<open>
  \<open>get_folder_path\<close>: the recursive rows carry their depth, so no two of them are equal and
  \<open>UNION\<close> removes nothing; each level holds at most one row and the result is ordered from
  the root.
\<close>

definition owned_parent_edges :: "uuid \<Rightarrow> folder_row list \<Rightarrow> (uuid \<times> uuid) list" where
  "owned_parent_edges u fos =
     filter (\<lambda>e. has_row (\<lambda>p. fo_id p = snd e \<and> fo_user p = u) fos) (parent_edges fos)"

definition get_folder_path :: "ext \<Rightarrow> uuid \<Rightarrow> uuid \<Rightarrow> vault \<Rightarrow> folder_response list result option" where
  "get_folder_path x u fid w =
     (case verify_folder_ownership w fid u of
        Inl e \<Rightarrow> Some (Inl e)
      | Inr _ \<Rightarrow>
          map_option (\<lambda>ids. Inr (concat (map (\<lambda>i. map (folder_response_of x 0)
                              (filter (\<lambda>fo. fo_id fo = i) (t_folders w))) (rev ids))))
            (rec_union_all (owned_parent_edges u (t_folders w)) []
               (map fo_id (filter (live_folder fid u) (t_folders w)))))"

subsection \<open>Creating folders\<close>

text \<open>What success of \<open>create_folder\<close> means, and that a failure changes nothing.\<close>

definition new_folder :: "timestamp \<Rightarrow> uuid \<Rightarrow> uuid \<Rightarrow> uuid option \<Rightarrow> bytes \<Rightarrow> bytes \<Rightarrow> folder_row" where
  "new_folder now new_id u parent meta nonce =
     \<lparr>fo_id = new_id, fo_user = u, fo_parent = parent, fo_metadata = meta, fo_nonce = nonce,
      fo_created_at = now, fo_updated_at = now, fo_deleted_at = None\<rparr>"

lemma new_folder_simps [simp]:
  "fo_id (new_folder now i u p m n) = i" "fo_user (new_folder now i u p m n) = u"
  "fo_parent (new_folder now i u p m n) = p" "fo_deleted_at (new_folder now i u p m n) = None"
  "fo_metadata (new_folder now i u p m n) = m" "fo_nonce (new_folder now i u p m n) = n"
  by (simp_all add: new_folder_def)

lemma verify_folder_ownership_ok [simp]:
  "verify_folder_ownership w i u = Inr r \<longleftrightarrow> (\<exists>fo\<in>set (t_folders w). live_folder i u fo)"
  by (simp add: verify_folder_ownership_def)

lemma create_folder_ok:
  assumes "create_folder x now new_id u req w = (Inr resp, w')"
  obtains meta nonce w1 where
    "decode_b64 x (cfr_metadata req) = Inr meta" "decode_b64 x (cfr_nonce req) = Inr nonce"
    "insert_folder (new_folder now new_id u (cfr_parent req) meta nonce) w = Inr w1"
    "\<And>p. cfr_parent req = Some p \<Longrightarrow> has_row (live_folder p u) (t_folders w)"
    "resp = folder_response_of x 0 (new_folder now new_id u (cfr_parent req) meta nonce)"
    "w' = broadcast_sync u (mk_event ''created'' ''folder'' new_id (folder_json resp)) w1"
  using assms unfolding create_folder_def new_folder_def [symmetric] by (auto simp: attempt_oks Let_def)

lemma create_folder_err: "create_folder x now new_id u req w = (Inl e, w') \<Longrightarrow> w' = w"
  unfolding create_folder_def by (auto simp: attempt_errs Let_def)

lemma insert_folder_system:
  assumes "insert_folder r w = Inr w'" and "system_inv now w" and "fo_deleted_at r = None"
    and "\<And>p. fo_parent r = Some p \<Longrightarrow> has_row (live_folder p (fo_user r)) (t_folders w)"
  shows "system_inv now w'"
proof -
  have "clock_ok now w'"
    using system_invD(3) [OF assms(2)] assms(3) by (rule_tac clock_ok_mono) (auto simp: insert_folder_Inr(1) [OF assms(1)])
  then show ?thesis
    using insert_folder_inv [OF assms(1)] insert_folder_tree_inv [OF assms(1) _ _ assms(3,4)] system_invD [OF assms(2)]
    by (simp add: system_inv_def)
qed

lemma insert_folder_keys: "insert_folder r w = Inr w' \<Longrightarrow> keys_safe w w'"
  by (rule keys_safe_cong) (auto dest: insert_folder_Inr(1))

lemma insert_folder_good:
  assumes "insert_folder r w = Inr w'" and "system_inv now w" and "fo_deleted_at r = None"
    and "\<And>p. fo_parent r = Some p \<Longrightarrow> has_row (live_folder p (fo_user r)) (t_folders w)"
  shows "good_step now (fo_user r) w w'"
  using insert_folder_system [OF assms] insert_folder_isolated [OF assms(1)] insert_folder_keys [OF assms(1)]
  by (simp add: good_step_def)

interpretation create_folder: tenant_transaction
  "\<lambda>w r w'. create_folder x now new_id u req w = (r, w')" now u
proof (unfold_locales, goal_cases)
  case (1 w e w')
  then show ?case by (auto dest: create_folder_err)
next
  case (2 w r w')
  from 2(2) show ?case by (rule create_folder_ok) (use 2(1) in \<open>auto dest: insert_folder_inv\<close>)
next
  case (3 w r w')
  from 3(2) show ?case
    by (rule create_folder_ok)
      (use 3(1) in \<open>auto simp: quiet_good dest!: insert_folder_good\<close>)
qed

subsection \<open>Moving folders\<close>

lemma live_start:
  assumes "vault_inv w" and "live_folder fid u fo" and "fo \<in> set (t_folders w)"
  shows "set (map fo_id (filter (\<lambda>fo. fo_id fo = fid \<and> fo_deleted_at fo = None) (t_folders w))) = {fid}"
    and "set (map fo_id (filter (live_folder fid u) (t_folders w))) = {fid}"
  using assms(2,3) by (auto simp: live_folder_def)

text \<open>
  On a well-formed hierarchy the cycle check of a move is exact and always answers: for a
  live folder and a live target it is the reflexive descendant relation.
\<close>

lemma is_descendant_returns:
  assumes "forest w"
  shows "\<exists>b. is_descendant_or_self w fid t = Some b"
proof -
  have "is_descendant_or_self w fid t = Some (t \<in> (live_rel w)\<^sup>* ``
      set (map fo_id (filter (\<lambda>fo. fo_id fo = fid \<and> fo_deleted_at fo = None) (t_folders w))))"
    unfolding is_descendant_or_self_def
    by (subst rec_exists_returns) (auto simp: live_edges_rel live_acyclic [OF assms])
  then show ?thesis by blast
qed

lemma is_descendant_exact:
  assumes "system_inv now w" and "live_folder fid u fo" and "fo \<in> set (t_folders w)"
    and "live_folder t u' fo'" and "fo' \<in> set (t_folders w)"
  shows "is_descendant_or_self w fid t = Some ((fid, t) \<in> (child_rel w)\<^sup>*)"
proof -
  note I = system_invD [OF assms(1)]
  have "is_descendant_or_self w fid t = Some (t \<in> (live_rel w)\<^sup>* `` {fid})"
    unfolding is_descendant_or_self_def live_start(1) [OF I(1) assms(2,3), symmetric]
    by (subst rec_exists_returns) (auto simp: live_edges_rel live_acyclic [OF I(6)])
  moreover have "(fid, t) \<in> (live_rel w)\<^sup>* \<longleftrightarrow> (fid, t) \<in> (child_rel w)\<^sup>*"
    using live_path [OF I(1,5) _ assms(5), of fid t] assms(4) rtrancl_mono [OF live_rel_sub]
    by (auto simp: live_folder_def)
  ultimately show ?thesis by simp
qed

lemma check_move_target_ok:
  assumes "system_inv now w" and "live_folder fid u fo" and "fo \<in> set (t_folders w)"
    and "check_move_target w u fid target = Some (Inr r)" and "target = Some t"
  shows "(fid, t) \<notin> (child_rel w)\<^sup>* \<and> has_row (live_folder t u) (t_folders w)"
proof -
  from assms(4,5) have d: "is_descendant_or_self w fid t = Some False"
    and v: "verify_folder_ownership w t u = Inr r"
    by (auto simp: check_move_target_def split: if_splits option.splits bool.splits)
  then obtain fo' where fo': "fo' \<in> set (t_folders w)" "live_folder t u fo'" by auto
  then show ?thesis
    using d is_descendant_exact [OF assms(1-3) fo'(2,1)] by auto
qed

lemma check_move_target_returns:
  assumes "forest w"
  shows "\<exists>r. check_move_target w u fid target = Some r"
  using is_descendant_returns [OF assms, of fid "the target"]
  by (auto simp: check_move_target_def split: option.splits bool.splits)

lemma update_folder_ok:
  assumes "update_folder x now u fid req w = Some (Inr resp, w')"
  obtains meta nonce ev where "length nonce = 24" "has_row (live_folder fid u) (t_folders w)"
    "decode_b64 x (ufr_nonce req) = Inr nonce" "decode_b64 x (ufr_metadata req) = Inr meta"
    "check_move_target w u fid (ufr_parent req) = Some (Inr ())"
    "w' = broadcast_sync u ev (w\<lparr>t_folders := upd (live_folder fid u)
       (\<lambda>fo. fo\<lparr>fo_metadata := meta, fo_nonce := nonce, fo_parent := ufr_parent req, fo_updated_at := now\<rparr>) (t_folders w)\<rparr>)"
  using assms unfolding update_folder_def
  by (auto simp: Let_def split: sum.splits if_splits option.splits)

lemma update_folder_err: "update_folder x now u fid req w = Some (Inl e, w') \<Longrightarrow> w' = w"
  unfolding update_folder_def by (auto simp: Let_def split: sum.splits if_splits option.splits)

lemma move_folder_ok:
  assumes "move_folder x now u fid target w = Some (Inr resp, w')"
  obtains ev where "has_row (live_folder fid u) (t_folders w)"
    "check_move_target w u fid target = Some (Inr ())"
    "w' = broadcast_sync u ev (w\<lparr>t_folders := upd (live_folder fid u)
       (\<lambda>fo. fo\<lparr>fo_parent := target, fo_updated_at := now\<rparr>) (t_folders w)\<rparr>)"
  using assms unfolding move_folder_def
  by (auto simp: Let_def split: sum.splits if_splits option.splits)

lemma move_folder_err: "move_folder x now u fid target w = Some (Inl e, w') \<Longrightarrow> w' = w"
  unfolding move_folder_def by (auto simp: Let_def split: sum.splits if_splits option.splits)

text \<open>The update statement of both operations.\<close>

lemma check_move_target_exists:
  "check_move_target w u fid (Some t) = Some (Inr r) \<Longrightarrow> has_row (live_folder t u) (t_folders w)"
  by (auto simp: check_move_target_def split: if_splits option.splits bool.splits)

lemma reparent_inv:
  assumes "vault_inv w" and "check_move_target w u fid target = Some (Inr r)"
    and "\<And>fo. fo_id (g fo) = fo_id fo" "\<And>fo. fo_parent (g fo) = target"
  shows "vault_inv (w\<lparr>t_folders := upd (live_folder fid u) g (t_folders w)\<rparr>)"
proof (rule upd_folders_inv [OF assms(1)])
  fix fo d assume "fo_parent (g fo) = Some d"
  then have "has_row (live_folder d u) (t_folders w)" using assms(2,4) check_move_target_exists by metis
  then show "fo_parent fo = Some d \<or> (\<exists>fo\<in>set (t_folders w). fo_id fo = d)" by (auto simp: live_folder_def)
qed (simp add: assms(3))

lemma reparent_contract:
  assumes sys: "system_inv now w" and live: "has_row (live_folder fid u) (t_folders w)"
    and target: "check_move_target w u fid target = Some (Inr r)"
    and g: "\<And>fo. fo_id (g fo) = fo_id fo" "\<And>fo. fo_parent (g fo) = target" "\<And>fo. fo_user (g fo) = fo_user fo"
      "\<And>fo. fo_deleted_at (g fo) = fo_deleted_at fo"
  shows "good_step now u w (w\<lparr>t_folders := upd (live_folder fid u) g (t_folders w)\<rparr>)" (is "good_step now u w ?w'")
proof -
  note I = system_invD [OF sys]
  from live obtain fo where fo: "fo \<in> set (t_folders w)" "live_folder fid u fo" by auto
  have t: "(fid, t) \<notin> (child_rel w)\<^sup>* \<and> has_row (live_folder t u) (t_folders w)" if "target = Some t" for t
    using check_move_target_ok [OF sys fo(2,1) target that] .
  have "tree_inv ?w'"
    by (rule reparent_tree_inv [OF I(1,2) t, where g = g]) (simp_all add: g)
  moreover have "clock_ok now ?w'"
    using I(3) by (rule clock_ok_mono) (auto simp: image_upd_keep g)
  moreover have "vault_inv ?w'"
    using I(1) target g(1,2) by (rule reparent_inv)
  moreover have "isolated u w ?w'"
    by (rule upd_folders_isolated) (simp_all add: live_folder_def g)
  moreover have "keys_safe w ?w'"
    by (rule keys_safe_cong) simp_all
  ultimately show ?thesis by (simp add: system_inv_def good_step_def)
qed

interpretation update_folder: tenant_transaction
  "\<lambda>w r w'. update_folder x now u fid req w = Some (r, w')" now u
proof (unfold_locales, goal_cases)
  case (1 w e w')
  then show ?case by (auto dest: update_folder_err)
next
  case (2 w r w')
  from 2(2) show ?case by (rule update_folder_ok) (use 2(1) in \<open>auto intro: reparent_inv\<close>)
next
  case (3 w r w')
  from 3(2) show ?case
    by (rule update_folder_ok) (use reparent_contract [OF 3(1)] in \<open>simp add: quiet_good\<close>)
qed

interpretation move_folder: tenant_transaction
  "\<lambda>w r w'. move_folder x now u fid target w = Some (r, w')" now u
proof (unfold_locales, goal_cases)
  case (1 w e w')
  then show ?case by (auto dest: move_folder_err)
next
  case (2 w r w')
  from 2(2) show ?case by (rule move_folder_ok) (use 2(1) in \<open>auto intro: reparent_inv\<close>)
next
  case (3 w r w')
  from 3(2) show ?case
    by (rule move_folder_ok) (use reparent_contract [OF 3(1)] in \<open>simp add: quiet_good\<close>)
qed

subsection \<open>Trashing and restoring folders\<close>

lemma delete_folder_ok:
  assumes "delete_folder now u fid w = (Inr r, w')"
  obtains ev where "has_row (live_folder fid u) (t_folders w)"
    "w' = broadcast_sync u ev (trash_files_in now (subtree w [fid] u) (trash_folders now (subtree w [fid] u) w))"
  using assms by (auto simp: delete_folder_def Let_def split: if_splits)

lemma delete_folder_err: "delete_folder now u fid w = (Inl e, w') \<Longrightarrow> w' = w"
  by (auto simp: delete_folder_def Let_def split: if_splits)

lemma trash_rows:
  "t_folders (trash_files_in now ids (trash_folders now ids w)) =
     upd (\<lambda>fo. fo_id fo \<in> set ids \<and> fo_deleted_at fo = None)
       (\<lambda>fo. fo\<lparr>fo_deleted_at := Some now, fo_updated_at := now\<rparr>) (t_folders w)"
  "t_files (trash_files_in now ids (trash_folders now ids w)) =
     upd (\<lambda>f. opt_in (f_folder f) ids \<and> f_deleted_at f = None)
       (\<lambda>f. f\<lparr>f_deleted_at := Some now, f_updated_at := now\<rparr>) (t_files w)"
  by (simp_all add: trash_files_in_def trash_folders_def)

lemma trash_inv: "vault_inv w \<Longrightarrow> vault_inv (trash_files_in now ids (trash_folders now ids w))"
  unfolding trash_files_in_def trash_folders_def
  by (intro upd_files_inv upd_folders_inv) auto

lemma trash_subtree_contract:
  assumes sys: "system_inv now w" and ids: "ids = subtree w roots u"
  shows "good_step now u w (trash_files_in now ids (trash_folders now ids w))" (is "good_step now u w ?w'")
proof -
  note I = system_invD [OF sys]
  have "tree_inv ?w'"
    using subtree_child [OF I(1,4)] by (intro trash_tree_inv [OF I(2,3)]) (auto simp: ids)
  moreover have "clock_ok now ?w'"
    by (rule clock_ok_upd [OF I(3) trash_rows]) auto
  moreover have "isolated u w ?w'"
  proof (rule isolated_trans)
    show "isolated u w (trash_folders now ids w)"
      unfolding trash_folders_def using subtree_owned [OF I(1)]
      by (intro upd_folders_isolated) (auto simp: ids)
    show "isolated u (trash_folders now ids w) ?w'"
      unfolding trash_files_in_def using subtree_file [OF I(4)]
      by (intro upd_files_isolated) (auto simp: ids opt_in_iff trash_folders_def)
  qed
  moreover have "keys_safe w ?w'"
    by (rule keys_safe_cong) (simp_all add: trash_files_in_def trash_folders_def)
  ultimately show ?thesis using trash_inv [OF I(1)] by (simp add: system_inv_def good_step_def)
qed

interpretation delete_folder: tenant_transaction
  "\<lambda>w r w'. delete_folder now u fid w = (r, w')" now u
proof (unfold_locales, goal_cases)
  case (1 w e w')
  then show ?case by (auto dest: delete_folder_err)
next
  case (2 w r w')
  from 2(2) show ?case by (rule delete_folder_ok) (use 2(1) in \<open>auto intro: trash_inv\<close>)
next
  case (3 w r w')
  from 3(2) show ?case
    by (rule delete_folder_ok) (use trash_subtree_contract [OF 3(1)] in \<open>simp add: quiet_good\<close>)
qed

lemma parent_edges_upd:
  "(\<And>fo. fo_id (g fo) = fo_id fo) \<Longrightarrow> (\<And>fo. fo_parent (g fo) = fo_parent fo) \<Longrightarrow> parent_edges (upd P g fos) = parent_edges fos"
  by (induction fos) (auto simp: parent_edges_def upd_def split: option.splits)

lemma parent_edges_untrash [simp]:
  "parent_edges (t_folders (untrash_folders now P w)) = parent_edges (t_folders w)"
  "parent_edges (t_folders (untrash_files now Q w)) = parent_edges (t_folders w)"
  by (simp_all add: untrash_folders_def untrash_files_def parent_edges_upd)

lemma subtree_untrash [simp]: "subtree (untrash_folders now P w) roots u = subtree w roots u"
proof -
  have "child_edges (\<lambda>fo. fo_user fo = u) (upd P g fos) = child_edges (\<lambda>fo. fo_user fo = u) fos"
    "map fo_id (filter (\<lambda>fo. fo_id fo \<in> set roots \<and> fo_user fo = u) (upd P g fos)) =
       map fo_id (filter (\<lambda>fo. fo_id fo \<in> set roots \<and> fo_user fo = u) fos)"
    if "\<And>fo. fo_id (g fo) = fo_id fo" "\<And>fo. fo_parent (g fo) = fo_parent fo" "\<And>fo. fo_user (g fo) = fo_user fo" for g fos
    using that by (induction fos) (auto simp: child_edges_def upd_def split: option.splits)
  then show ?thesis by (simp add: subtree_def untrash_folders_def)
qed

lemma upd_upd:
  "(\<And>r. r \<in> set rs \<Longrightarrow> P r \<Longrightarrow> P' (g r) \<Longrightarrow> g (g r) = g r) \<Longrightarrow> upd P' g (upd P g rs) = upd (\<lambda>r. P r \<or> P' r) g rs"
  by (induction rs) (auto simp: upd_def)

text \<open>The folders and files that a restore brings back, on the state before it.\<close>

definition restored_folder :: "vault \<Rightarrow> uuid \<Rightarrow> uuid \<Rightarrow> timestamp option \<Rightarrow> folder_row \<Rightarrow> bool" where
  "restored_folder w fid u t fo \<longleftrightarrow>
     fo_id fo \<in> set (subtree w [fid] u) \<and> fo_deleted_at fo = t \<or>
     fo_id fo \<in> set (ancestors (t_folders w) (map snd (filter (\<lambda>e. fst e = fid) (parent_edges (t_folders w))))) \<and>
       fo_deleted_at fo \<noteq> None"

definition restored_file :: "vault \<Rightarrow> uuid \<Rightarrow> uuid \<Rightarrow> timestamp option \<Rightarrow> file_row \<Rightarrow> bool" where
  "restored_file w fid u t f \<longleftrightarrow> opt_in (f_folder f) (subtree w [fid] u) \<and> f_deleted_at f = t"

lemma restore_folder_ok:
  assumes "restore_folder now u fid w = (Inr r, w')"
  obtains ev w1 root where "root \<in> set (t_folders w)" "fo_id root = fid" "fo_user root = u" "fo_deleted_at root \<noteq> None"
    "t_folders w1 = upd (restored_folder w fid u (fo_deleted_at root))
       (\<lambda>fo. fo\<lparr>fo_deleted_at := None, fo_updated_at := now\<rparr>) (t_folders w)"
    "t_files w1 = upd (restored_file w fid u (fo_deleted_at root))
       (\<lambda>f. f\<lparr>f_deleted_at := None, f_updated_at := now\<rparr>) (t_files w)"
    "t_versions w1 = t_versions w" "t_chunks w1 = t_chunks w" "t_pending w1 = t_pending w"
    "w' = broadcast_sync u ev w1"
proof -
  let ?g = "\<lambda>fo. fo\<lparr>fo_deleted_at := None, fo_updated_at := now\<rparr>"
  from assms obtain root where find: "find (\<lambda>fo. fo_id fo = fid \<and> fo_user fo = u \<and> fo_deleted_at fo \<noteq> None) (t_folders w) = Some root"
    by (auto simp: restore_folder_def split: option.splits)
  let ?t = "fo_deleted_at root" and ?S = "subtree w [fid] u"
  let ?w1 = "untrash_folders now (\<lambda>fo. fo_id fo \<in> set ?S \<and> fo_deleted_at fo = ?t) w"
  let ?w2 = "untrash_files now (restored_file w fid u ?t) ?w1"
  let ?chain = "ancestors (t_folders w) (map snd (filter (\<lambda>e. fst e = fid) (parent_edges (t_folders w))))"
  let ?w3 = "untrash_folders now (\<lambda>fo. fo_id fo \<in> set ?chain \<and> fo_deleted_at fo \<noteq> None) ?w2"
  have "restore_folder now u fid w = (Inr (), broadcast_sync u (mk_event ''restored'' ''folder'' fid (JObj [])) ?w3)"
    unfolding restore_folder_def find option.case Let_def
    by (simp add: ancestors_def restored_file_def [abs_def])
  with assms have "w' = broadcast_sync u (mk_event ''restored'' ''folder'' fid (JObj [])) ?w3" by simp
  moreover have "t_folders ?w3 = upd (restored_folder w fid u ?t) ?g (t_folders w)"
    unfolding restored_folder_def [abs_def]
    by (simp add: untrash_files_def untrash_folders_def upd_upd)
  moreover have "t_files ?w3 = upd (restored_file w fid u ?t) (\<lambda>f. f\<lparr>f_deleted_at := None, f_updated_at := now\<rparr>) (t_files w)"
    "t_versions ?w3 = t_versions w" "t_chunks ?w3 = t_chunks w" "t_pending ?w3 = t_pending w"
    by (simp_all add: untrash_files_def untrash_folders_def)
  ultimately show ?thesis using that find_Some_in [OF find] by blast
qed

lemma restore_folder_err: "restore_folder now u fid w = (Inl e, w') \<Longrightarrow> w' = w"
  by (auto simp: restore_folder_def Let_def split: option.splits)

text \<open>Below a folder trashed at \<open>t\<close> everything was trashed at \<open>t\<close> or before.\<close>

lemma subtree_stamp:
  assumes "vault_inv w" and "trash_ok w" and "root \<in> set (t_folders w)" and "fo_deleted_at root = Some t"
    and "fo \<in> set (t_folders w)" and "fo_id fo \<in> set (subtree w [fo_id root] u)"
  shows "trash_le (Some t) (fo_deleted_at fo)"
proof -
  note U = ukeyD [OF vault_invD(1) [OF assms(1)]]
  from assms(6) have "(fo_id root, fo_id fo) \<in> (owned_rel w u)\<^sup>*" by (auto simp: set_subtree)
  then have "\<forall>r\<in>set (t_folders w). fo_id r = fo_id fo \<longrightarrow> trash_le (Some t) (fo_deleted_at r)"
  proof (induction rule: rtrancl_induct)
    case base
    show ?case
    proof (intro ballI impI)
      fix r assume "r \<in> set (t_folders w)" "fo_id r = fo_id root"
      then have "r = root" using assms(3) by (intro U)
      then show "trash_le (Some t) (fo_deleted_at r)" using assms(4) by simp
    qed
  next
    case (step y z)
    then obtain c where c: "c \<in> set (t_folders w)" "fo_parent c = Some y" "z = fo_id c" by (auto simp: owned_rel_def)
    obtain p where p: "p \<in> set (t_folders w)" "fo_id p = y"
      using fkeyD [OF vault_invD(6) [OF assms(1)] c(1,2)] by blast
    have "trash_le (fo_deleted_at p) (fo_deleted_at c)" "trash_le (Some t) (fo_deleted_at p)"
      using trash_okD(1) [OF assms(2) p(1) c(1)] c(2) p step.IH by auto
    then have "trash_le (Some t) (fo_deleted_at c)" by (cases "fo_deleted_at p"; cases "fo_deleted_at c") auto
    moreover have "r = c" if "r \<in> set (t_folders w)" "fo_id r = z" for r
      using that c by (intro U) auto
    ultimately show ?case by blast
  qed
  with assms(5) show ?thesis by blast
qed

lemma stamp_eq: "trash_le (Some t) c \<Longrightarrow> trash_le c (Some t) \<Longrightarrow> c = None \<or> c = Some t"
  by (cases c) auto

lemma parent_in_subtree:
  assumes "vault_inv w" and "c \<in> set (t_folders w)" and "fo_id c \<in> set (subtree w [fid] u)" and "fo_id c \<noteq> fid"
    and "fo_parent c = Some p"
  shows "p \<in> set (subtree w [fid] u)"
proof -
  let ?R = "{fo_id fo |fo. fo \<in> set (t_folders w) \<and> fo_id fo \<in> set [fid] \<and> fo_user fo = u}"
  from assms(3) obtain s where "s \<in> ?R" "(s, fo_id c) \<in> (owned_rel w u)\<^sup>*" unfolding set_subtree by blast
  with assms(4) obtain y where y: "(s, y) \<in> (owned_rel w u)\<^sup>*" "(y, fo_id c) \<in> owned_rel w u"
    by (auto elim: rtranclE)
  then obtain c' where "c' \<in> set (t_folders w)" "fo_id c' = fo_id c" "fo_parent c' = Some y" by (auto simp: owned_rel_def)
  then have "y = p" using ukeyD [OF vault_invD(1) [OF assms(1)] _ assms(2)] assms(5) by force
  with y(1) \<open>s \<in> ?R\<close> show ?thesis unfolding set_subtree by blast
qed

lemma restored_parent:
  fixes u :: uuid
  assumes vi: "vault_inv w" and tr: "trash_ok w" and root: "root \<in> set (t_folders w)" "fo_deleted_at root = Some t"
    and p: "p \<in> set (t_folders w)"
  defines "R \<equiv> restored_folder w (fo_id root) u (Some t)"
  shows "c \<in> set (t_folders w) \<Longrightarrow> fo_parent c = Some (fo_id p) \<Longrightarrow> R c \<Longrightarrow> R p \<or> fo_deleted_at p = None"
    and "f \<in> set (t_files w) \<Longrightarrow> f_folder f = Some (fo_id p) \<Longrightarrow> restored_file w (fo_id root) u (Some t) f \<Longrightarrow>
           R p \<or> fo_deleted_at p = None"
proof -
  let ?S = "set (subtree w [fo_id root] u)"
  let ?A = "set (ancestors (t_folders w) (map snd (filter (\<lambda>e. fst e = fo_id root) (parent_edges (t_folders w)))))"
  have in_S: "R p \<or> fo_deleted_at p = None" if "fo_id p \<in> ?S" "trash_le (fo_deleted_at p) (Some t)"
    using subtree_stamp [OF vi tr root p that(1)] that stamp_eq by (auto simp: R_def restored_folder_def)
  have in_A: "R p \<or> fo_deleted_at p = None" if "fo_id p \<in> ?A"
    using that by (auto simp: R_def restored_folder_def)
  {
    assume c: "c \<in> set (t_folders w)" "fo_parent c = Some (fo_id p)" "R c"
    have le: "trash_le (fo_deleted_at p) (fo_deleted_at c)" by (rule trash_okD(1) [OF tr p c(1,2)])
    consider "fo_id c \<in> ?A" | "fo_id c = fo_id root" | "fo_id c \<in> ?S" "fo_deleted_at c = Some t" "fo_id c \<noteq> fo_id root"
      using c(3) unfolding R_def restored_folder_def by blast
    then show "R p \<or> fo_deleted_at p = None"
    proof cases
      case 1
      show ?thesis by (rule in_A) (rule ancestors_parent [OF 1 c(1,2)])
    next
      case 2
      have "(fo_id c, fo_id p) \<in> set (parent_edges (t_folders w))"
        unfolding set_parent_edges using c(1,2) by blast
      with 2 have "fo_id p \<in> set (map snd (filter (\<lambda>e. fst e = fo_id root) (parent_edges (t_folders w))))"
        by force
      then show ?thesis by (intro in_A ancestors_start)
    next
      case 3
      then show ?thesis using parent_in_subtree [OF vi c(1) 3(1,3) c(2)] in_S le by simp
    qed
  }
  {
    assume f: "f \<in> set (t_files w)" "f_folder f = Some (fo_id p)" "restored_file w (fo_id root) u (Some t) f"
    then show "R p \<or> fo_deleted_at p = None"
      using trash_okD(2) [OF tr p f(1,2)] in_S by (simp add: restored_file_def)
  }
qed

lemma restored_owned:
  assumes vi: "vault_inv w" and tn: "tenant_ok w" and root: "root \<in> set (t_folders w)" "fo_user root = u"
    and fo: "fo \<in> set (t_folders w)" "restored_folder w (fo_id root) u t fo"
  shows "fo_user fo = u"
proof -
  let ?start = "map snd (filter (\<lambda>e. fst e = fo_id root) (parent_edges (t_folders w)))"
  have start: "fo_user q = u" if "p \<in> set ?start" "q \<in> set (t_folders w)" "fo_id q = p" for p q
  proof -
    from that(1) obtain c where c: "c \<in> set (t_folders w)" "fo_id c = fo_id root" "fo_parent c = Some p"
      by (auto simp: set_parent_edges)
    then have "c = root" using root(1) by (intro ukeyD [OF vault_invD(1) [OF vi]])
    with c show ?thesis using tenant_okD(1) [OF tn that(2) c(1)] that(3) root(2) by simp
  qed
  from fo(2) consider "fo_id fo \<in> set (subtree w [fo_id root] u)" | "fo_id fo \<in> set (ancestors (t_folders w) ?start)"
    unfolding restored_folder_def by blast
  then show ?thesis
  proof cases
    case 1
    then show ?thesis by (rule subtree_owned [OF vi fo(1)])
  next
    case 2
    show ?thesis by (rule ancestors_owned [OF vi tn _ fo(1) 2]) (rule start)
  qed
qed

lemma untrash_inv:
  assumes "vault_inv w" and fos: "t_folders w' = upd P (\<lambda>fo. fo\<lparr>fo_deleted_at := None, fo_updated_at := now\<rparr>) (t_folders w)"
    and fs: "t_files w' = upd Q (\<lambda>f. f\<lparr>f_deleted_at := None, f_updated_at := now\<rparr>) (t_files w)"
    and vs: "t_versions w' = t_versions w" "t_chunks w' = t_chunks w" "t_pending w' = t_pending w"
  shows "vault_inv w'"
proof -
  let ?w1 = "w\<lparr>t_folders := t_folders w'\<rparr>"
  let ?w2 = "?w1\<lparr>t_files := upd Q (\<lambda>f. f\<lparr>f_deleted_at := None, f_updated_at := now\<rparr>) (t_files ?w1)\<rparr>"
  have "vault_inv ?w1" unfolding fos by (rule upd_folders_inv [OF assms(1)]) auto
  then have "vault_inv ?w2" by (rule upd_files_inv) auto
  moreover have "vault_inv w' = vault_inv ?w2" by (rule vault_inv_cong) (use fs vs in simp_all)
  ultimately show ?thesis by simp
qed

lemma restore_folder_step:
  assumes sys: "system_inv now w" and root: "root \<in> set (t_folders w)" "fo_user root = u" "fo_deleted_at root = Some t"
    and fos: "t_folders w' = upd (restored_folder w (fo_id root) u (Some t))
       (\<lambda>fo. fo\<lparr>fo_deleted_at := None, fo_updated_at := now\<rparr>) (t_folders w)"
    and fs: "t_files w' = upd (restored_file w (fo_id root) u (Some t))
       (\<lambda>f. f\<lparr>f_deleted_at := None, f_updated_at := now\<rparr>) (t_files w)"
    and vs: "t_versions w' = t_versions w" "t_chunks w' = t_chunks w" "t_pending w' = t_pending w"
  shows "good_step now u w w'"
proof (rule good_stepI)
  note I = system_invD [OF sys]
  let ?w1 = "w\<lparr>t_folders := t_folders w'\<rparr>"
  let ?w2 = "?w1\<lparr>t_files := upd (restored_file w (fo_id root) u (Some t))
       (\<lambda>f. f\<lparr>f_deleted_at := None, f_updated_at := now\<rparr>) (t_files ?w1)\<rparr>"
  have eqs: "t_folders w' = t_folders ?w2" "t_files w' = t_files ?w2" "t_versions w' = t_versions ?w2"
    "t_chunks w' = t_chunks ?w2"
    using fs vs by simp_all
  have "vault_inv w'" by (rule untrash_inv [OF I(1) fos fs vs])
  moreover have "tree_inv w'"
    by (rule untrash_tree_inv [OF I(2) fos fs]) (erule (3) restored_parent [OF I(1,5) root(1,3)])+
  moreover have "clock_ok now w'"
    by (rule clock_ok_upd [OF I(3) fos fs]) auto
  ultimately show "system_inv now w'" by (simp add: system_inv_def)
  have "isolated u w ?w1"
    unfolding fos by (rule upd_folders_isolated) (use restored_owned [OF I(1,4) root(1,2)] in auto)
  moreover have "isolated u ?w1 ?w2"
    using subtree_file [OF I(4)] by (intro upd_files_isolated) (auto simp: restored_file_def opt_in_iff)
  ultimately have "isolated u w ?w2" by (rule isolated_trans)
  then show "isolated u w w'" using isolated_right_cong [OF eqs] by simp
  show "keys_safe w w'" by (rule keys_safe_cong) (simp_all add: vs)
qed

interpretation restore_folder: tenant_transaction
  "\<lambda>w r w'. restore_folder now u fid w = (r, w')" now u
proof (unfold_locales, goal_cases)
  case (1 w e w')
  then show ?case by (auto dest: restore_folder_err)
next
  case (2 w r w')
  from 2(2) show ?case by (rule restore_folder_ok) (use untrash_inv [OF 2(1)] in simp)
next
  case (3 w r w')
  from 3(2) show ?case
    by (rule restore_folder_ok) (use restore_folder_step [OF 3(1)] in \<open>auto simp: quiet_good\<close>)
qed

subsection \<open>Purging folders\<close>

lemma delete_files_none:
  assumes "\<And>f. f \<in> set (t_files w) \<Longrightarrow> \<not> P f"
  shows "delete_files P w = w"
proof -
  have "delete_files P w = w\<lparr>t_files := del P (t_files w)\<rparr>"
    by (rule delete_files_no_versions) (use assms in auto)
  then show ?thesis using assms by (simp add: del_none)
qed

lemma subtree_cong: "t_folders w' = t_folders w \<Longrightarrow> subtree w' roots u = subtree w roots u"
  by (simp add: subtree_def)

text \<open>The cascade of the final delete reaches nothing beyond the subtree the code computed.\<close>

lemma subtree_closure:
  assumes "vault_inv w" and "tenant_ok w"
  shows "set (folder_closure (\<lambda>fo. fo_id fo \<in> set (subtree w roots u) \<and> fo_user fo = u) (t_folders w))
    = set (subtree w roots u)" (is "?C = ?S")
proof -
  have "?C = (child_rel w)\<^sup>* `` {fo_id fo |fo. fo \<in> set (t_folders w) \<and> fo_id fo \<in> ?S \<and> fo_user fo = u}"
    by (auto simp: folder_closure_def set_rec_union child_edges_rel)
  also have "{fo_id fo |fo. fo \<in> set (t_folders w) \<and> fo_id fo \<in> ?S \<and> fo_user fo = u} = ?S"
    by (auto elim: subtree_row)
  also have "(child_rel w)\<^sup>* `` ?S = ?S"
    using subtree_child [OF assms] by (intro Image_closed_trancl) (auto simp: child_rel_def)
  finally show ?thesis .
qed

text \<open>The state of the folder tables after a purge, from success of the operation.\<close>

lemma permanent_delete_folder_ok:
  assumes "permanent_delete_folder x now u fid w = (Inr r, w')"
  obtains n ks w1 w4 ev ev' meta where
    "has_row (\<lambda>fo. fo_id fo = fid \<and> fo_user fo = u) (t_folders w)"
    "hard_delete_files now (map f_id (filter (\<lambda>f. opt_in (f_folder f) (subtree w [fid] u) \<and> f_user f = u) (t_files w)))
       (Some u) w = ((n, ks), w1)"
    "audit_log now (Some u) None ev' meta
       (delete_folders (\<lambda>fo. fo_id fo \<in> set (subtree w [fid] u) \<and> fo_user fo = u)
         (w1\<lparr>t_shares := upd (\<lambda>s. sh_type s = ''folder'' \<and> sh_item s \<in> set (subtree w [fid] u) \<and> sh_revoked_at s = None)
                             (\<lambda>s. s\<lparr>sh_revoked_at := Some now\<rparr>) (t_shares w1)\<rparr>)) = Inr w4"
    "w' = broadcast_sync u ev (delete_objects_best_effort x ks w4)"
proof -
  from assms obtain root where root: "find (\<lambda>fo. fo_id fo = fid \<and> fo_user fo = u) (t_folders w) = Some root"
    by (auto simp: permanent_delete_folder_def split: option.splits)
  let ?fids = "map f_id (filter (\<lambda>f. opt_in (f_folder f) (subtree w [fid] u) \<and> f_user f = u) (t_files w))"
  obtain n ks w1 where h: "hard_delete_files now ?fids (Some u) w = ((n, ks), w1)" by (metis prod.collapse)
  from find_Some_in [OF root] have row: "has_row (\<lambda>fo. fo_id fo = fid \<and> fo_user fo = u) (t_folders w)" by auto
  show ?thesis
    by (rule exE [OF assms [unfolded permanent_delete_folder_def root option.case Let_def h prod.case attempt_oks]])
      (elim conjE Pair_inject, rule that [OF row h], assumption, erule sym)
qed

lemma permanent_delete_folder_err: "permanent_delete_folder x now u fid w = (Inl e, w') \<Longrightarrow> w' = w"
  by (auto simp: permanent_delete_folder_def Let_def attempt_errs split: option.splits prod.splits)

lemma hard_delete_rows:
  assumes "vault_inv w" and "hard_delete_files now fids who w = ((n, ks), w')"
  shows "t_folders w' = t_folders w" "t_files w' = del (\<lambda>f. f_id f \<in> set fids) (t_files w)"
proof -
  have "t_folders w' = t_folders w \<and> t_files w' = del (\<lambda>f. f_id f \<in> set fids) (t_files w)"
  proof (cases "fids = []")
    case True
    then show ?thesis using assms(2) by (simp add: hard_delete_files_def del_def)
  next
    case False
    then have "t_files w' = t_files (purged fids w)" using assms(2) by (auto simp: hard_delete_files_eq Let_def)
    then show ?thesis using hard_delete_gone(4) [OF assms(2) False] purged_files [OF assms(1)] by simp
  qed
  then show "t_folders w' = t_folders w" "t_files w' = del (\<lambda>f. f_id f \<in> set fids) (t_files w)" by auto
qed

lemma drop_rows_tree_clock:
  assumes "tree_inv w" "clock_ok now w" and "set (t_folders w') \<subseteq> set (t_folders w)" and "set (t_files w') \<subseteq> set (t_files w)"
  shows "tree_inv w'" "clock_ok now w'"
  using assms by (auto intro: tree_inv_mono [OF _ _ assms(1)] clock_ok_mono [OF assms(2)])

lemma hard_delete_good:
  assumes sys: "system_inv now w" and own: "\<And>f. f \<in> set (t_files w) \<Longrightarrow> f_id f \<in> set fids \<Longrightarrow> f_user f = u"
    and h: "hard_delete_files t fids who w = ((n, ks), w')"
  shows "good_step now u w w'"
proof (rule good_stepI)
  note I = system_invD [OF sys]
  have "vault_inv w'" by (rule hard_delete_result_inv [OF h I(1)])
  then show "system_inv now w'"
    using drop_rows_tree_clock [OF I(2,3), of w'] hard_delete_rows [OF I(1) h] by (auto simp: system_inv_def)
  have "isolated u w (snd (hard_delete_files t fids who w))" using own by (rule hard_delete_isolated [OF I(1)])
  then show "isolated u w w'" by (simp add: h)
  show "keys_safe w w'" using hard_delete_keys_safe [where now = t and u = who and w = w and fids = fids] h by simp
qed

lemma drop_folders_good:
  assumes sys: "system_inv now w" and inv: "vault_inv (w\<lparr>t_folders := del P (t_folders w)\<rparr>)"
    and own: "\<And>fo. fo \<in> set (t_folders w) \<Longrightarrow> P fo \<Longrightarrow> fo_user fo = u"
  shows "good_step now u w (w\<lparr>t_folders := del P (t_folders w)\<rparr>)" (is "good_step now u w ?w'")
proof (rule good_stepI)
  note I = system_invD [OF sys]
  show "system_inv now ?w'"
    using inv drop_rows_tree_clock [OF I(2,3), of ?w'] by (auto simp: system_inv_def)
  show "isolated u w ?w'"
    using own by (auto simp: isolated_def user_rows_def owner_version_def owner_file_def intro!: filter_del_other)
  show "keys_safe w ?w'" by (rule keys_safe_cong) simp_all
qed

text \<open>
  Purging files and then deleting folders: when the purged files include everything that lies
  in the deleted folders, the cascade of the folder delete reaches no file.
\<close>

lemma purge_good:
  assumes sys: "system_inv now w" and h: "hard_delete_files t fids who w = ((n, ks), w1)"
    and own: "\<And>f. f \<in> set (t_files w) \<Longrightarrow> f_id f \<in> set fids \<Longrightarrow> f_user f = u"
    and cover: "\<And>f. f \<in> set (t_files w) \<Longrightarrow> opt_in (f_folder f) (folder_closure P (t_folders w)) \<Longrightarrow> f_id f \<in> set fids"
    and fown: "\<And>fo. fo \<in> set (t_folders w) \<Longrightarrow> fo_id fo \<in> set (folder_closure P (t_folders w)) \<Longrightarrow> fo_user fo = u"
  shows "good_step now u w (delete_folders P (w1\<lparr>t_shares := sh\<rparr>))"
proof -
  note I = system_invD [OF sys]
  let ?w2 = "w1\<lparr>t_shares := sh\<rparr>" and ?C = "folder_closure P (t_folders w)"
  have "good_step now u w w1" by (rule hard_delete_good [OF sys own h])
  then have step: "good_step now u w ?w2"
    unfolding good_step_def system_inv_def
    by (auto simp: clock_ok_cong [of ?w2 w1] tree_inv_cong [of ?w2 w1] isolated_right_cong [of ?w2 w1] keys_safe_right_cong [of ?w2 w1])
  have w1: "t_folders ?w2 = t_folders w" "t_files ?w2 = del (\<lambda>f. f_id f \<in> set fids) (t_files w)"
    using hard_delete_rows [OF I(1) h] by simp_all
  have "delete_files (\<lambda>f. opt_in (f_folder f) ?C) ?w2 = ?w2"
    using cover by (intro delete_files_none) (auto simp: w1)
  then have eq: "delete_folders P ?w2 = ?w2\<lparr>t_folders := del (\<lambda>fo. fo_id fo \<in> set ?C) (t_folders ?w2)\<rparr>"
    using w1(1) by (simp add: delete_folders_def Let_def folder_closure_def [symmetric] delete_files_folders)
  have inv2: "vault_inv ?w2" using step by (auto simp: good_step_def dest: system_invD)
  have "good_step now u ?w2 (delete_folders P ?w2)"
    unfolding eq
  proof (rule drop_folders_good)
    show "system_inv now ?w2" using step by (rule good_step_system)
    show "vault_inv (?w2\<lparr>t_folders := del (\<lambda>fo. fo_id fo \<in> set ?C) (t_folders ?w2)\<rparr>)"
      using delete_folders_inv [OF inv2, of P] unfolding eq .
    show "fo_user fo = u" if "fo \<in> set (t_folders ?w2)" "fo_id fo \<in> set ?C" for fo
      using that fown by (simp add: w1)
  qed
  with step show ?thesis by (rule good_step_trans)
qed

lemma purge_subtree_good:
  assumes sys: "system_inv now w" and h: "hard_delete_files t fids who w = ((n, ks), w1)" and S: "S = subtree w roots u"
    and own: "\<And>f. f \<in> set (t_files w) \<Longrightarrow> f_id f \<in> set fids \<Longrightarrow> f_user f = u"
    and cover: "\<And>f. f \<in> set (t_files w) \<Longrightarrow> opt_in (f_folder f) S \<Longrightarrow> f_user f = u \<Longrightarrow> f_id f \<in> set fids"
  shows "good_step now u w (delete_folders (\<lambda>fo. fo_id fo \<in> set S \<and> fo_user fo = u) (w1\<lparr>t_shares := sh\<rparr>))"
proof -
  note I = system_invD [OF sys]
  have clo: "set (folder_closure (\<lambda>fo. fo_id fo \<in> set S \<and> fo_user fo = u) (t_folders w)) = set S"
    unfolding S by (rule subtree_closure [OF I(1,4)])
  show ?thesis
  proof (rule purge_good [OF sys h own])
    fix f assume f: "f \<in> set (t_files w)"
      "opt_in (f_folder f) (folder_closure (\<lambda>fo. fo_id fo \<in> set S \<and> fo_user fo = u) (t_folders w))"
    then have i: "opt_in (f_folder f) S" using clo by (auto simp: opt_in_iff)
    then have "f_user f = u" using subtree_file [OF I(4) f(1)] by (auto simp: opt_in_iff S)
    with f(1) i show "f_id f \<in> set fids" by (rule cover)
  qed (use clo subtree_owned [OF I(1)] S in auto)
qed

interpretation permanent_delete_folder: tenant_transaction
  "\<lambda>w r w'. permanent_delete_folder x now u fid w = (r, w')" now u
proof (unfold_locales, goal_cases)
  case (1 w e w')
  then show ?case by (auto dest: permanent_delete_folder_err)
next
  case (2 w r w')
  from 2(2) show ?case
  proof (rule permanent_delete_folder_ok, goal_cases)
    case (1 n ks w1 w4 ev ev' meta)
    have "vault_inv w1" by (rule hard_delete_result_inv [OF 1(2) 2(1)])
    then show ?case unfolding 1(4) by (simp add: vault_inv_audit [OF 1(3)] delete_folders_inv)
  qed
next
  case (3 w r w')
  from 3(2) show ?case
  proof (rule permanent_delete_folder_ok, goal_cases)
    case (1 n ks w1 w4 ev ev' meta)
    have own: "f_user f = u" if "f \<in> set (t_files w)"
      "f_id f \<in> set (map f_id (filter (\<lambda>f. opt_in (f_folder f) (subtree w [fid] u) \<and> f_user f = u) (t_files w)))" for f
      using that ukeyD [OF vault_invD(2) [OF system_invD(1) [OF 3(1)]]] by force
    show ?case unfolding 1(4) quiet_good audit_good [OF 1(3)]
      by (rule purge_subtree_good [OF 3(1) 1(2) refl own]) auto
  qed
qed

end
