(* ===== verification/Files_Upload.thy ===== *)
theory Files_Upload
  imports Folders
begin

text \<open>
  The upload half of the file service of \<open>src/features/files/service.rs\<close>: validation of the
  chunk plan, the quota, \<open>create_file\<close> with its deduplication, \<open>create_version\<close>,
  \<open>complete_upload\<close>, \<open>cancel_upload\<close> and the bulk forms. Identifiers that the code draws
  (\<open>Uuid::new_v4\<close>, and the database default of \<open>chunk_id\<close>) are arguments.
\<close>

subsection \<open>Requests and responses\<close>

record chunk_plan =
  cp_index :: int
  cp_segment :: int
  cp_size :: int
  cp_blake3 :: string

record create_file_request =
  cf_folder :: "uuid option"
  cf_metadata :: string
  cf_nonce :: string
  cf_blake3 :: string
  cf_total_size :: int
  cf_total_chunks :: int
  cf_header :: string
  cf_chunks :: "chunk_plan list"
  cf_key :: string
  cf_key_nonce :: string

record create_file_response =
  cr_file :: uuid
  cr_version :: uuid
  cr_deduplicated :: bool
  cr_urls :: "chunk_upload_url list"

text \<open>A \<open>HashMap\<close> of a request is the list of its entries in iteration order.\<close>

record complete_upload_request =
  co_version :: uuid
  co_etags :: "(int \<times> string) list"

record bulk_complete_item =
  bc_file :: uuid
  bc_version :: uuid
  bc_etags :: "(int \<times> string) list"
  bc_blake3 :: string
  bc_header :: string
  bc_hashes :: "(int \<times> string) list"
  bc_key :: string
  bc_key_nonce :: string

record bulk_complete_response =
  br_completed :: "uuid list"
  br_failed :: "uuid list"

definition max_chunks_per_file :: int where "max_chunks_per_file = 50000"

definition max_file_size :: int where "max_file_size = 500 * 1024 * 1024 * 1024"

definition user_storage_quota_bytes :: int where "user_storage_quota_bytes = 10 * 1024 * 1024 * 1024"

subsection \<open>Validation\<close>

text \<open>The loops over the chunk plan, with the running total of the ciphertext size.\<close>

fun check_chunks_bulk :: "nat \<Rightarrow> int \<Rightarrow> chunk_plan list \<Rightarrow> int result" where
  "check_chunks_bulk i acc [] = Inr acc"
| "check_chunks_bulk i acc (c # cs) =
     (if cp_index c \<noteq> wrap_i32 (int i)
        then Inl (BadRequest ''chunk indices must be sequential starting from 0'')
      else if cp_size c \<le> 0
        then Inl (BadRequest (''chunk '' @ show_int (int i) @ '' size must be positive''))
      else check_chunks_bulk (Suc i) (wrap_i64 (acc + cp_size c)) cs)"

fun check_chunks :: "ext \<Rightarrow> nat \<Rightarrow> int \<Rightarrow> chunk_plan list \<Rightarrow> int result" where
  "check_chunks x i acc [] = Inr acc"
| "check_chunks x i acc (c # cs) =
     (if cp_index c \<noteq> wrap_i32 (int i)
        then Inl (BadRequest ''chunk indices must be sequential starting from 0'')
      else if cp_size c \<le> 0
        then Inl (BadRequest (''chunk '' @ show_int (int i) @ '' size must be positive''))
      else and_then (decode_b64 x (cp_blake3 c)) (\<lambda>h.
        if length h \<noteq> 32
          then Inl (BadRequest (''chunk '' @ show_int (int i) @ '' blake3 must be 32 bytes''))
        else check_chunks x (Suc i) (wrap_i64 (acc + cp_size c)) cs))"

definition check_ciphertext_size :: "create_file_request \<Rightarrow> int \<Rightarrow> unit result" where
  "check_ciphertext_size req tot =
     (let expected = wrap_i64 (cf_total_size req + wrap_i64 (cf_total_chunks req * 17))
      in check_that (tot = expected)
           (BadRequest (''chunk sizes do not match total file size. expected '' @ show_int expected @
                        '', got '' @ show_int tot)))"

definition validate_bulk_init_request :: "ext \<Rightarrow> create_file_request \<Rightarrow> unit result" where
  "validate_bulk_init_request x req =
     (case decode_b64 x (cf_metadata req) of
        Inl _ \<Rightarrow> Inl (BadRequest ''invalid base64 encoding for encrypted_metadata'')
      | Inr _ \<Rightarrow>
     and_then (decode_b64 x (cf_nonce req)) (\<lambda>nonce.
     and_then (check_that (length nonce = 24)
       (BadRequest ''metadata nonce must be 24 bytes (XChaCha20-Poly1305)'')) (\<lambda>_.
     and_then (check_that (\<not> (cf_total_chunks req \<le> 0 \<or> cf_total_chunks req > max_chunks_per_file))
       (BadRequest ''invalid total_chunks'')) (\<lambda>_.
     and_then (check_that (wrap_i32 (int (length (cf_chunks req))) = cf_total_chunks req)
       (BadRequest ''chunks array length does not match total_chunks'')) (\<lambda>_.
     and_then (check_that (\<not> (cf_total_size req < 0 \<or> cf_total_size req > max_file_size))
       (BadRequest ''invalid total_size'')) (\<lambda>_.
     and_then (check_chunks_bulk 0 0 (cf_chunks req)) (\<lambda>tot.
     check_ciphertext_size req tot)))))))"

definition validate_create_request :: "ext \<Rightarrow> create_file_request \<Rightarrow> unit result" where
  "validate_create_request x req =
     (case decode_b64 x (cf_metadata req) of
        Inl _ \<Rightarrow> Inl (BadRequest ''invalid base64 encoding for encrypted_metadata'')
      | Inr _ \<Rightarrow>
     and_then (decode_b64 x (cf_nonce req)) (\<lambda>nonce.
     and_then (check_that (length nonce = 24)
       (BadRequest ''metadata nonce must be 24 bytes (XChaCha20-Poly1305)'')) (\<lambda>_.
     and_then (decode_b64 x (cf_blake3 req)) (\<lambda>hash.
     and_then (check_that (length hash = 32) (BadRequest ''plaintext_blake3 must be 32 bytes'')) (\<lambda>_.
     and_then (decode_b64 x (cf_header req)) (\<lambda>header.
     and_then (check_that (length header = 24)
       (BadRequest ''encryption header must be 24 bytes (secretstream)'')) (\<lambda>_.
     and_then (check_that (\<not> (cf_total_chunks req \<le> 0 \<or> cf_total_chunks req > max_chunks_per_file))
       (BadRequest ''invalid total_chunks'')) (\<lambda>_.
     and_then (check_that (wrap_i32 (int (length (cf_chunks req))) = cf_total_chunks req)
       (BadRequest ''chunks array length does not match total_chunks'')) (\<lambda>_.
     and_then (check_that (\<not> (cf_total_size req < 0 \<or> cf_total_size req > max_file_size))
       (BadRequest ''invalid total_size'')) (\<lambda>_.
     and_then (check_chunks x 0 0 (cf_chunks req)) (\<lambda>tot.
     check_ciphertext_size req tot)))))))))))"

subsection \<open>Quota\<close>

definition user_usage :: "vault \<Rightarrow> uuid \<Rightarrow> int" where
  "user_usage w u = sum_list (map f_size (filter (\<lambda>f. f_user f = u \<and> f_deleted_at f = None) (t_files w)))"

definition current_usage :: "vault \<Rightarrow> uuid \<Rightarrow> int result" where
  "current_usage w u =
     (if in_i64 (user_usage w u) then Inr (user_usage w u) else Inl (of_sqlx bigint_out_of_range))"

definition quota_error :: "int \<Rightarrow> app_error" where
  "quota_error usage =
     BadRequest (''storage quota exceeded. limit: '' @ show_int user_storage_quota_bytes @
                 '' bytes, used: '' @ show_int usage @ '' bytes'')"

definition within_quota :: "int \<Rightarrow> int \<Rightarrow> bool" where
  "within_quota usage added \<longleftrightarrow> \<not> wrap_i64 (usage + added) > user_storage_quota_bytes"

subsection \<open>Creating files and versions\<close>

datatype dedup = NoDuplicate | Duplicate uuid uuid | Ghost uuid

definition find_duplicate :: "vault \<Rightarrow> uuid \<Rightarrow> uuid option \<Rightarrow> bytes \<Rightarrow> (uuid \<times> uuid) option" where
  "find_duplicate w u folder hash =
     Option.bind (find (\<lambda>f. f_user f = u \<and> f_folder f = folder \<and> f_blake3 f = hash \<and> f_deleted_at f = None \<and>
                          has_row (\<lambda>v. f_current f = Some (v_id v) \<and> v_active v) (t_versions w)) (t_files w))
       (\<lambda>f. map_option (Pair (f_id f)) (f_current f))"

text \<open>
  The duplicate check of \<open>create_file\<close>: a hit whose first object is gone from the store is a
  ghost.
\<close>

definition check_duplicate :: "ext \<Rightarrow> uuid \<Rightarrow> uuid option \<Rightarrow> bytes \<Rightarrow> vault \<Rightarrow> dedup result" where
  "check_duplicate x u folder hash w =
     (case find_duplicate w u folder hash of
        None \<Rightarrow> Inr NoDuplicate
      | Some (fid, vid) \<Rightarrow>
          if r2_configured x then
            (case find (\<lambda>c. c_version c = vid) (t_chunks w) of
               Some c \<Rightarrow>
                 and_then (head_object x (c_key c)) (\<lambda>head.
                   Inr (case head of None \<Rightarrow> Ghost fid | Some _ \<Rightarrow> Duplicate fid vid))
             | None \<Rightarrow> Inr (Duplicate fid vid))
          else Inr (Duplicate fid vid))"

fun insert_chunks ::
  "ext \<Rightarrow> timestamp \<Rightarrow> (nat \<Rightarrow> uuid) \<Rightarrow> uuid \<Rightarrow> uuid \<Rightarrow> uuid \<Rightarrow> (chunk_plan \<Rightarrow> bytes result) \<Rightarrow> nat
     \<Rightarrow> chunk_plan list \<Rightarrow> vault \<Rightarrow> vault result" where
  "insert_chunks x now gen u fid vid hash i [] w = Inr w"
| "insert_chunks x now gen u fid vid hash i (c # cs) w =
     and_then (hash c) (\<lambda>h.
     and_then (sql (insert_chunk
       \<lparr>c_id = gen i, c_version = vid, c_index = cp_index c, c_segment = cp_segment c, c_size = cp_size c,
        c_blake3 = h, c_key = chunk_key x u fid vid (cp_segment c) (cp_index c),
        c_etag = None, c_uploaded_at = None, c_created_at = now\<rparr> w)) (\<lambda>w1.
     insert_chunks x now gen u fid vid hash (Suc i) cs w1))"

definition set_current :: "uuid \<Rightarrow> uuid \<Rightarrow> vault \<Rightarrow> vault" where
  "set_current vid fid w =
     w\<lparr>t_files := upd (\<lambda>f. f_id f = fid) (\<lambda>f. f\<lparr>f_current := Some vid\<rparr>) (t_files w)\<rparr>"

text \<open>The transaction of \<open>create_file\<close>; the result is the state to commit.\<close>

definition create_file_tx ::
  "ext \<Rightarrow> timestamp \<Rightarrow> uuid \<Rightarrow> uuid \<Rightarrow> (nat \<Rightarrow> uuid) \<Rightarrow> uuid \<Rightarrow> uuid \<Rightarrow> create_file_request \<Rightarrow> vault
     \<Rightarrow> vault result" where
  "create_file_tx x now fid vid gen u d req w =
     and_then (require_r2 x) (\<lambda>_.
     and_then (decode_b64 x (cf_metadata req)) (\<lambda>meta.
     and_then (decode_b64 x (cf_nonce req)) (\<lambda>nonce.
     and_then (decode_b64 x (cf_blake3 req)) (\<lambda>hash.
     and_then (decode_b64 x (cf_header req)) (\<lambda>header.
     and_then (sql (insert_file
       \<lparr>f_id = fid, f_user = u, f_folder = cf_folder req, f_metadata = meta, f_nonce = nonce, f_blake3 = hash,
        f_size = cf_total_size req, f_current = None, f_created_at = now, f_updated_at = now,
        f_deleted_at = None\<rparr> w)) (\<lambda>w1.
     and_then (decode_b64 x (cf_key req)) (\<lambda>key.
     and_then (decode_b64 x (cf_key_nonce req)) (\<lambda>key_nonce.
     and_then (sql (insert_version
       \<lparr>v_id = vid, v_file = fid, v_number = 1, v_size = cf_total_size req, v_total_chunks = cf_total_chunks req,
        v_blake3 = hash, v_header = header, v_device = d, v_active = False, v_created_at = now,
        v_key = Some key, v_key_nonce = Some key_nonce\<rparr> w1)) (\<lambda>w2.
     and_then (insert_chunks x now gen u fid vid (\<lambda>c. decode_b64 x (cp_blake3 c)) 0 (cf_chunks req)
       (set_current vid fid w2)) (\<lambda>w3.
     sql (audit_log now (Some u) (Some d) ''file_upload_initiated''
       (JObj [(''file_id'', JUuid fid), (''version_id'', JUuid vid), (''total_size'', JInt (cf_total_size req)),
              (''total_chunks'', JInt (cf_total_chunks req))]) w3)))))))))))"

definition plan_indices :: "create_file_request \<Rightarrow> (int \<times> int) list" where
  "plan_indices req = map (\<lambda>c. (cp_index c, cp_segment c)) (cf_chunks req)"

definition create_file ::
  "ext \<Rightarrow> timestamp \<Rightarrow> uuid \<Rightarrow> uuid \<Rightarrow> (nat \<Rightarrow> uuid) \<Rightarrow> uuid \<Rightarrow> uuid \<Rightarrow> create_file_request \<Rightarrow> vault
     \<Rightarrow> create_file_response result \<times> vault" where
  "create_file x now fid vid gen u d req w =
     attempt (validate_create_request x req) w (\<lambda>_.
     attempt (current_usage w u) w (\<lambda>usage.
     attempt (check_that (within_quota usage (cf_total_size req)) (quota_error usage)) w (\<lambda>_.
     attempt (for_option (cf_folder req) (\<lambda>folder. verify_folder_ownership w folder u)) w (\<lambda>_.
     attempt (decode_b64 x (cf_blake3 req)) w (\<lambda>hash.
     attempt (check_duplicate x u (cf_folder req) hash w) w (\<lambda>dup.
     case dup of
       Duplicate f v \<Rightarrow>
         (Inr \<lparr>cr_file = f, cr_version = v, cr_deduplicated = True, cr_urls = []\<rparr>, w)
     | _ \<Rightarrow>
         let w1 = (case dup of Ghost g \<Rightarrow> delete_files (\<lambda>f. f_id f = g) w | _ \<Rightarrow> w)
         in attempt (create_file_tx x now fid vid gen u d req w1) w1 (\<lambda>w2.
            attempt (generate_upload_urls x u fid vid (plan_indices req)) w2 (\<lambda>urls.
            (Inr \<lparr>cr_file = fid, cr_version = vid, cr_deduplicated = False, cr_urls = urls\<rparr>, w2)))))))))"

definition next_version_number :: "vault \<Rightarrow> uuid \<Rightarrow> int" where
  "next_version_number w fid = foldr max (map v_number (filter (\<lambda>v. v_file v = fid) (t_versions w))) 0 + 1"

definition integer_out_of_range :: sqlx_error where
  "integer_out_of_range = Database (Some ''22003'') ''integer out of range''"

definition create_version_tx ::
  "ext \<Rightarrow> timestamp \<Rightarrow> uuid \<Rightarrow> (nat \<Rightarrow> uuid) \<Rightarrow> uuid \<Rightarrow> uuid \<Rightarrow> uuid \<Rightarrow> bytes \<Rightarrow> create_file_request \<Rightarrow> vault
     \<Rightarrow> vault result" where
  "create_version_tx x now vid gen u d fid hash req w =
     and_then (require_r2 x) (\<lambda>_.
     and_then (decode_b64 x (cf_header req)) (\<lambda>header.
     and_then (check_that (in_i32 (next_version_number w fid)) (of_sqlx integer_out_of_range)) (\<lambda>_.
     and_then (decode_b64 x (cf_key req)) (\<lambda>key.
     and_then (decode_b64 x (cf_key_nonce req)) (\<lambda>key_nonce.
     and_then (sql (insert_version
       \<lparr>v_id = vid, v_file = fid, v_number = next_version_number w fid, v_size = cf_total_size req,
        v_total_chunks = cf_total_chunks req, v_blake3 = hash, v_header = header, v_device = d,
        v_active = False, v_created_at = now, v_key = Some key, v_key_nonce = Some key_nonce\<rparr> w)) (\<lambda>w1.
     and_then (insert_chunks x now gen u fid vid (\<lambda>c. decode_b64 x (cp_blake3 c)) 0 (cf_chunks req) w1) (\<lambda>w2.
     sql (audit_log now (Some u) (Some d) ''file_version_upload_initiated''
       (JObj [(''file_id'', JUuid fid), (''version_id'', JUuid vid),
              (''version_number'', JInt (next_version_number w fid))]) w2))))))))"

definition create_version ::
  "ext \<Rightarrow> timestamp \<Rightarrow> uuid \<Rightarrow> (nat \<Rightarrow> uuid) \<Rightarrow> uuid \<Rightarrow> uuid \<Rightarrow> uuid \<Rightarrow> create_file_request \<Rightarrow> vault
     \<Rightarrow> create_file_response result \<times> vault" where
  "create_version x now vid gen u d fid req w =
     attempt (validate_create_request x req) w (\<lambda>_.
     attempt (current_usage w u) w (\<lambda>usage.
     attempt (check_that (within_quota usage (cf_total_size req)) (quota_error usage)) w (\<lambda>_.
     attempt (check_that (has_row (live_file fid u) (t_files w)) NotFound) w (\<lambda>_.
     attempt (decode_b64 x (cf_blake3 req)) w (\<lambda>hash.
     case find (\<lambda>v. v_file v = fid \<and> v_active v \<and> v_blake3 v = hash) (t_versions w) of
       Some v \<Rightarrow>
         (Inr \<lparr>cr_file = fid, cr_version = v_id v, cr_deduplicated = True, cr_urls = []\<rparr>, w)
     | None \<Rightarrow>
         attempt (create_version_tx x now vid gen u d fid hash req w) w (\<lambda>w1.
         attempt (generate_upload_urls x u fid vid (plan_indices req)) w1 (\<lambda>urls.
         (Inr \<lparr>cr_file = fid, cr_version = vid, cr_deduplicated = False, cr_urls = urls\<rparr>, w1))))))))"

subsection \<open>Completing an upload\<close>

text \<open>The loop over the chunks of the version, as they were read before it.\<close>

fun mark_uploaded ::
  "timestamp \<Rightarrow> uuid \<Rightarrow> (int \<times> string) list \<Rightarrow> chunk_row list \<Rightarrow> chunk_row list \<Rightarrow> chunk_row list" where
  "mark_uploaded now vid etags [] rows = rows"
| "mark_uploaded now vid etags (c # cs) rows =
     mark_uploaded now vid etags cs
       (case map_of etags (c_index c) of
          Some etag \<Rightarrow>
            if c_uploaded_at c = None
            then upd (\<lambda>r. c_version r = vid \<and> c_index r = c_index c)
                   (\<lambda>r. r\<lparr>c_uploaded_at := Some now, c_etag := Some etag\<rparr>) rows
            else rows
        | None \<Rightarrow> rows)"

definition version_chunks :: "vault \<Rightarrow> uuid \<Rightarrow> chunk_row list" where
  "version_chunks w vid = sort_key c_index (filter (\<lambda>c. c_version c = vid) (t_chunks w))"

definition missing_chunks :: "vault \<Rightarrow> uuid \<Rightarrow> int list" where
  "missing_chunks w vid = map c_index (filter (\<lambda>c. c_uploaded_at c = None) (version_chunks w vid))"

text \<open>The three statements that make a version the active and current one.\<close>

definition activate_version :: "timestamp \<Rightarrow> uuid \<Rightarrow> uuid \<Rightarrow> vault \<Rightarrow> vault" where
  "activate_version now vid fid w =
     w\<lparr>t_versions := upd (\<lambda>v. v_id v = vid) (\<lambda>v. v\<lparr>v_active := True\<rparr>)
         (upd (\<lambda>v. v_file v = fid \<and> v_active v \<and> v_id v \<noteq> vid) (\<lambda>v. v\<lparr>v_active := False\<rparr>) (t_versions w)),
       t_files := upd (\<lambda>f. f_id f = fid) (\<lambda>f. f\<lparr>f_current := Some vid, f_updated_at := now\<rparr>) (t_files w)\<rparr>"

definition complete_upload ::
  "timestamp \<Rightarrow> uuid \<Rightarrow> uuid \<Rightarrow> complete_upload_request \<Rightarrow> vault \<Rightarrow> unit result \<times> vault" where
  "complete_upload now u d req w =
     (let vid = co_version req in
      case find (\<lambda>v. v_id v = vid \<and>
                  has_row (\<lambda>f. f_id f = v_file v \<and> f_user f = u \<and> f_deleted_at f = None) (t_files w)) (t_versions w) of
        None \<Rightarrow> (Inl NotFound, w)
      | Some v \<Rightarrow>
          if v_active v then (Inr (), w)
          else if version_chunks w vid = [] then (Inl (BadRequest ''no chunks found for version''), w)
          else
            let w1 = w\<lparr>t_chunks := mark_uploaded now vid (co_etags req) (version_chunks w vid) (t_chunks w)\<rparr>
            in if row_count (\<lambda>c. c_version c = vid \<and> c_uploaded_at c = None) (t_chunks w1) > 0
               then
                 let missing = missing_chunks w1 vid
                 in attempt_sql (audit_log now (Some u) (Some d) ''file_upload_partial''
                      (JObj [(''version_id'', JUuid vid), (''missing_chunks'', JArr (map JInt missing))]) w1) w (\<lambda>w2.
                    (Inl (BadRequest (''missing chunks: '' @ show_int_list missing)), w2))
               else
                 attempt_sql (audit_log now (Some u) (Some d) ''file_upload_completed''
                   (JObj [(''version_id'', JUuid vid)]) (activate_version now vid (v_file v) w1)) w (\<lambda>w2.
                 (Inr (), file_broadcast u
                    (mk_event ''uploaded'' ''file'' (v_file v) (JObj [(''version_id'', JUuid vid)])) w2)))"

subsection \<open>Cancelling an upload\<close>

definition cancel_upload ::
  "ext \<Rightarrow> timestamp \<Rightarrow> uuid \<Rightarrow> uuid \<Rightarrow> uuid \<Rightarrow> vault \<Rightarrow> unit result \<times> vault" where
  "cancel_upload x now u fid vid w =
     (case find (\<lambda>v. v_id v = vid \<and> v_file v = fid \<and> has_row (\<lambda>f. f_id f = fid \<and> f_user f = u) (t_files w)) (t_versions w) of
        None \<Rightarrow> (Inl NotFound, w)
      | Some v \<Rightarrow>
          if v_active v then
            (Inl (BadRequest (''cannot cancel a completed upload '' @ em_dash @ '' move the file to trash instead'')), w)
          else
            let keys = map c_key (filter (\<lambda>c. c_version c = vid) (t_chunks w));
                w1 = delete_chunks (\<lambda>c. c_version c = vid) w;
                w2 = delete_versions (\<lambda>v. v_id v = vid \<and> \<not> v_active v) w1;
                w3 = delete_files (\<lambda>f. f_id f = fid \<and> f_user f = u \<and> f_current f = Some vid) w2;
                w4 = (if keys \<noteq> [] then queue_deletions now (Some u) keys w3 else w3)
            in (Inr (), delete_objects_best_effort x keys w4))"

fun bulk_cancel_loop ::
  "ext \<Rightarrow> timestamp \<Rightarrow> uuid \<Rightarrow> (uuid \<times> uuid) list \<Rightarrow> nat \<Rightarrow> vault \<Rightarrow> nat \<times> vault" where
  "bulk_cancel_loop x now u [] n w = (n, w)"
| "bulk_cancel_loop x now u ((fid, vid) # ts) n w =
     (case cancel_upload x now u fid vid w of
        (Inr _, w1) \<Rightarrow> bulk_cancel_loop x now u ts (Suc n) w1
      | (Inl _, w1) \<Rightarrow> bulk_cancel_loop x now u ts n w1)"

definition bulk_cancel_uploads ::
  "ext \<Rightarrow> timestamp \<Rightarrow> uuid \<Rightarrow> (uuid \<times> uuid) list \<Rightarrow> vault \<Rightarrow> nat result \<times> vault" where
  "bulk_cancel_uploads x now u targets w =
     (case bulk_cancel_loop x now u targets 0 w of (n, w1) \<Rightarrow> (Inr n, w1))"

subsection \<open>The check before an upload\<close>

definition precheck_upload :: "ext \<Rightarrow> uuid \<Rightarrow> string \<Rightarrow> int \<Rightarrow> vault \<Rightarrow> json result" where
  "precheck_upload x u blake3 total_size w =
     and_then (current_usage w u) (\<lambda>usage.
     and_then (check_that (within_quota usage total_size) (BadRequest ''storage quota exceeded'')) (\<lambda>_.
     and_then (decode_b64 x blake3) (\<lambda>hash.
     let existing = Option.bind
           (find (\<lambda>f. f_user f = u \<and> f_deleted_at f = None \<and>
                   has_row (\<lambda>v. f_current f = Some (v_id v) \<and> v_blake3 v = hash \<and> v_active v) (t_versions w)) (t_files w))
           (\<lambda>f. map_option (Pair (f_id f)) (f_current f))
     in Inr (JObj [(''allowed'', JBool True), (''deduplicated'', JBool (existing \<noteq> None)),
                   (''existing_file_id'', json_opt (\<lambda>e. JUuid (fst e)) existing),
                   (''existing_version_id'', json_opt (\<lambda>e. JUuid (snd e)) existing)]))))"

subsection \<open>Bulk uploads\<close>

fun bulk_total :: "ext \<Rightarrow> int \<Rightarrow> create_file_request list \<Rightarrow> int result" where
  "bulk_total x acc [] = Inr acc"
| "bulk_total x acc (req # reqs) =
     and_then (validate_bulk_init_request x req) (\<lambda>_. bulk_total x (wrap_i64 (acc + cf_total_size req)) reqs)"

text \<open>
  One file of \<open>bulk_init_uploads\<close>, in the transaction; \<open>ids i\<close> are the file and version
  identifiers drawn for the \<open>i\<close>-th request and \<open>gen i\<close> the identifiers of its chunks.
\<close>

definition bulk_init_one ::
  "ext \<Rightarrow> timestamp \<Rightarrow> uuid \<Rightarrow> uuid \<Rightarrow> (nat \<Rightarrow> uuid) \<Rightarrow> uuid \<Rightarrow> uuid \<Rightarrow> create_file_request \<Rightarrow> vault
     \<Rightarrow> (create_file_response \<times> vault) result" where
  "bulk_init_one x now fid vid gen u d req w =
     and_then (decode_b64 x (cf_nonce req)) (\<lambda>nonce.
     and_then (check_that (length nonce = 24) (BadRequest ''metadata nonce must be 24 bytes'')) (\<lambda>_.
     and_then (decode_b64 x (cf_metadata req)) (\<lambda>meta.
     and_then (sql (insert_file
       \<lparr>f_id = fid, f_user = u, f_folder = cf_folder req, f_metadata = meta, f_nonce = nonce,
        f_blake3 = replicate 32 0, f_size = cf_total_size req, f_current = None, f_created_at = now,
        f_updated_at = now, f_deleted_at = None\<rparr> w)) (\<lambda>w1.
     and_then (sql (insert_version
       \<lparr>v_id = vid, v_file = fid, v_number = 1, v_size = cf_total_size req, v_total_chunks = cf_total_chunks req,
        v_blake3 = replicate 32 0, v_header = replicate 24 0, v_device = d, v_active = False,
        v_created_at = now, v_key = None, v_key_nonce = None\<rparr> w1)) (\<lambda>w2.
     and_then (insert_chunks x now gen u fid vid (\<lambda>_. Inr (replicate 32 0)) 0 (cf_chunks req)
       (set_current vid fid w2)) (\<lambda>w3.
     and_then (generate_upload_urls x u fid vid (plan_indices req)) (\<lambda>urls.
     Inr (\<lparr>cr_file = fid, cr_version = vid, cr_deduplicated = False, cr_urls = urls\<rparr>, w3))))))))"

fun bulk_init_loop ::
  "ext \<Rightarrow> timestamp \<Rightarrow> (nat \<Rightarrow> uuid \<times> uuid) \<Rightarrow> (nat \<Rightarrow> nat \<Rightarrow> uuid) \<Rightarrow> uuid \<Rightarrow> uuid \<Rightarrow> nat \<Rightarrow> create_file_request list
     \<Rightarrow> vault \<Rightarrow> (create_file_response list \<times> vault) result" where
  "bulk_init_loop x now ids gen u d i [] w = Inr ([], w)"
| "bulk_init_loop x now ids gen u d i (req # reqs) w =
     and_then (bulk_init_one x now (fst (ids i)) (snd (ids i)) (gen i) u d req w) (\<lambda>(r, w1).
     and_then (bulk_init_loop x now ids gen u d (Suc i) reqs w1) (\<lambda>(rs, w2). Inr (r # rs, w2)))"

definition bulk_init_uploads ::
  "ext \<Rightarrow> timestamp \<Rightarrow> (nat \<Rightarrow> uuid \<times> uuid) \<Rightarrow> (nat \<Rightarrow> nat \<Rightarrow> uuid) \<Rightarrow> uuid \<Rightarrow> uuid \<Rightarrow> create_file_request list
     \<Rightarrow> vault \<Rightarrow> create_file_response list result \<times> vault" where
  "bulk_init_uploads x now ids gen u d reqs w =
     attempt (bulk_total x 0 reqs) w (\<lambda>tot.
     attempt (current_usage w u) w (\<lambda>usage.
     attempt (check_that (within_quota usage tot) (quota_error usage)) w (\<lambda>_.
     attempt (require_r2 x) w (\<lambda>_.
     attempt (bulk_init_loop x now ids gen u d 0 reqs w) w (\<lambda>(rs, w1).
     (Inr rs, w1))))))"

text \<open>
  \<open>bulk_complete_uploads\<close> runs outside a transaction: what an item wrote before an error stays.
\<close>

fun set_chunk_hashes ::
  "ext \<Rightarrow> uuid \<Rightarrow> (int \<times> string) list \<Rightarrow> vault \<Rightarrow> unit result \<times> vault" where
  "set_chunk_hashes x vid [] w = (Inr (), w)"
| "set_chunk_hashes x vid ((i, h) # hs) w =
     attempt (decode_b64 x h) w (\<lambda>b.
     attempt (check_that (length b = 32) (BadRequest (''chunk '' @ show_int i @ '' blake3 must be 32 bytes''))) w (\<lambda>_.
     set_chunk_hashes x vid hs
       (w\<lparr>t_chunks := upd (\<lambda>c. c_version c = vid \<and> c_index c = i) (\<lambda>c. c\<lparr>c_blake3 := b\<rparr>) (t_chunks w)\<rparr>)))"

fun bulk_complete_loop ::
  "ext \<Rightarrow> timestamp \<Rightarrow> uuid \<Rightarrow> uuid \<Rightarrow> bulk_complete_item list \<Rightarrow> uuid list \<Rightarrow> uuid list \<Rightarrow> vault
     \<Rightarrow> bulk_complete_response result \<times> vault" where
  "bulk_complete_loop x now u d [] finished failed w =
     (Inr \<lparr>br_completed = finished, br_failed = failed\<rparr>, w)"
| "bulk_complete_loop x now u d (it # its) finished failed w =
     attempt (decode_b64 x (bc_blake3 it)) w (\<lambda>hash.
     attempt (check_that (length hash = 32) (BadRequest ''plaintext_blake3 must be 32 bytes'')) w (\<lambda>_.
     attempt (decode_b64 x (bc_header it)) w (\<lambda>header.
     attempt (check_that (length header = 24)
       (BadRequest ''encryption header must be 24 bytes (secretstream)'')) w (\<lambda>_.
     attempt (decode_b64 x (bc_key it)) w (\<lambda>key.
     attempt (decode_b64 x (bc_key_nonce it)) w (\<lambda>key_nonce.
     let w1 = w\<lparr>t_versions := upd (\<lambda>v. v_id v = bc_version it)
                   (\<lambda>v. v\<lparr>v_header := header, v_blake3 := hash, v_key := Some key, v_key_nonce := Some key_nonce\<rparr>)
                   (t_versions w)\<rparr>;
         w2 = w1\<lparr>t_files := upd (\<lambda>f. f_current f = Some (bc_version it)) (\<lambda>f. f\<lparr>f_blake3 := hash\<rparr>) (t_files w1)\<rparr>
     in case set_chunk_hashes x (bc_version it) (bc_hashes it) w2 of
          (Inl e, w3) \<Rightarrow> (Inl e, w3)
        | (Inr _, w3) \<Rightarrow>
            (case complete_upload now u d \<lparr>co_version = bc_version it, co_etags = bc_etags it\<rparr> w3 of
               (Inr _, w4) \<Rightarrow> bulk_complete_loop x now u d its (finished @ [bc_version it]) failed w4
             | (Inl _, w4) \<Rightarrow> bulk_complete_loop x now u d its finished (failed @ [bc_version it]) w4)))))))"

definition bulk_complete_uploads ::
  "ext \<Rightarrow> timestamp \<Rightarrow> uuid \<Rightarrow> uuid \<Rightarrow> bulk_complete_item list \<Rightarrow> vault \<Rightarrow> bulk_complete_response result \<times> vault" where
  "bulk_complete_uploads x now u d items w = bulk_complete_loop x now u d items [] [] w"

subsection \<open>Contracts\<close>

lemma insert_chunks_rows:
  "insert_chunks x now gen u fid vid hash i cs w = Inr w' \<Longrightarrow>
     \<exists>rows. w' = w\<lparr>t_chunks := t_chunks w @ rows\<rparr> \<and>
       map (\<lambda>c. (c_index c, c_segment c, c_size c, c_key c)) rows =
       map (\<lambda>c. (cp_index c, cp_segment c, cp_size c, chunk_key x u fid vid (cp_segment c) (cp_index c))) cs \<and>
       (\<forall>c\<in>set rows. c_version c = vid \<and> c_uploaded_at c = None)"
proof (induction cs arbitrary: i w)
  case Nil
  then show ?case by (intro exI [of _ "[]"]) simp
next
  case (Cons p cs)
  from Cons.prems obtain h w1 where
    ins: "insert_chunk \<lparr>c_id = gen i, c_version = vid, c_index = cp_index p, c_segment = cp_segment p, c_size = cp_size p,
        c_blake3 = h, c_key = chunk_key x u fid vid (cp_segment p) (cp_index p),
        c_etag = None, c_uploaded_at = None, c_created_at = now\<rparr> w = Inr w1"
      (is "insert_chunk ?r w = _")
    and rest: "insert_chunks x now gen u fid vid hash (Suc i) cs w1 = Inr w'" by auto
  from Cons.IH [OF rest] obtain rows where rows: "w' = w1\<lparr>t_chunks := t_chunks w1 @ rows\<rparr>"
    "map (\<lambda>c. (c_index c, c_segment c, c_size c, c_key c)) rows =
       map (\<lambda>c. (cp_index c, cp_segment c, cp_size c, chunk_key x u fid vid (cp_segment c) (cp_index c))) cs"
    "\<forall>c\<in>set rows. c_version c = vid \<and> c_uploaded_at c = None" by blast
  show ?case using rows insert_chunk_Inr(1) [OF ins] by (intro exI [of _ "?r # rows"]) simp
qed

lemma insert_chunks_inv:
  "insert_chunks x now gen u fid vid hash i cs w = Inr w' \<Longrightarrow> vault_inv w \<Longrightarrow> vault_inv w'"
  by (induction cs arbitrary: i w) (auto dest: insert_chunk_inv)

lemma insert_chunks_good:
  assumes "insert_chunks x t gen u fid vid hash i cs w = Inr w'" and "system_inv now w" and "owner_version w u vid"
  shows "good_step now u w w'"
  using assms
proof (induction cs arbitrary: i w)
  case Nil
  then show ?case by (simp add: good_step_refl)
next
  case (Cons p cs)
  from Cons.prems(1) obtain r w1 where ins: "insert_chunk r w = Inr w1" "c_version r = vid"
    and rest: "insert_chunks x t gen u fid vid hash (Suc i) cs w1 = Inr w'" by fastforce
  have g: "good_step now u w w1" using insert_chunk_good [OF ins(1) Cons.prems(2)] Cons.prems(3) ins(2) by simp
  have "owner_version w1 u vid"
    using Cons.prems(3) insert_chunk_Inr(1) [OF ins(1)] by (simp add: owner_version_def owner_file_def)
  with Cons.IH [OF rest good_step_system [OF g]] g show ?case by (blast intro: good_step_trans)
qed

lemma owner_row:
  assumes "vault_inv w" and "owner_file w u fid" and "f \<in> set (t_files w)" and "f_id f = fid"
  shows "f_user f = u"
proof -
  from assms(2) obtain g where "g \<in> set (t_files w)" "f_id g = fid" "f_user g = u" by (auto simp: owner_file_def)
  then show ?thesis using assms ukeyD [OF vault_invD(2) [OF assms(1)], of g f] by simp
qed

lemma set_current_good:
  assumes sys: "system_inv now w" and v: "v \<in> set (t_versions w)" "v_id v = vid" "v_file v = fid"
    and none: "\<And>v. v \<in> set (t_versions w) \<Longrightarrow> v_file v = fid \<Longrightarrow> \<not> v_active v"
    and own: "owner_file w u fid"
  shows "good_step now u w (set_current vid fid w)"
proof (rule good_stepI)
  note I = system_invD [OF sys]
  have "vault_inv (set_current vid fid w)"
    unfolding set_current_def v(2) [symmetric] by (rule set_current_inv [OF I(1) v(1)]) (use v none in auto)
  moreover have "tree_inv (set_current vid fid w)"
    by (rule tree_inv_mono [OF _ _ I(2)]) (simp_all add: set_current_def image_upd_keep file_view_def)
  moreover have "clock_ok now (set_current vid fid w)"
    using I(3) by (rule clock_ok_mono) (auto simp: set_current_def image_upd_keep)
  ultimately show "system_inv now (set_current vid fid w)" by (simp add: system_inv_def)
  have "f_user f = u" if "f \<in> set (t_files w)" "f_id f = fid" for f
    using that by (rule owner_row [OF I(1) own])
  then show "isolated u w (set_current vid fid w)"
    unfolding set_current_def by (intro upd_files_isolated) auto
  show "keys_safe w (set_current vid fid w)" by (rule keys_safe_cong) (simp_all add: set_current_def)
qed

text \<open>A new file with its first version and chunks, as \<open>create_file\<close> and \<open>bulk_init_uploads\<close> insert them.\<close>

lemma begin_upload:
  assumes f: "insert_file r w = Inr w1" "f_id r = fid" "f_user r = u" "f_current r = None" "f_deleted_at r = None"
    and v: "insert_version vr w1 = Inr w2" "v_id vr = vid" "v_file vr = fid" "\<not> v_active vr"
    and c: "insert_chunks x t gen u fid vid hash 0 cs (set_current vid fid w2) = Inr w3"
  shows "vault_inv w \<Longrightarrow> vault_inv w3"
    and "system_inv now w \<Longrightarrow> (\<And>p. f_folder r = Some p \<Longrightarrow> has_row (live_folder p u) (t_folders w)) \<Longrightarrow> good_step now u w w3"
proof -
  note F = insert_file_Inr [OF f(1)] and V = insert_version_Inr [OF v(1)]
  have vr: "vr \<in> set (t_versions w2)" using V(1) by simp
  have none: "\<not> v_active a" if "vault_inv w" "a \<in> set (t_versions w2)" "v_file a = fid" for a
  proof -
    note vi = that(1)
    have "a = vr"
    proof (rule ccontr)
      assume "a \<noteq> vr"
      then have "a \<in> set (t_versions w)" using that(2) V(1) F(1) by simp
      then obtain g where "g \<in> set (t_files w)" "f_id g = v_file a" by (rule version_file [OF vi])
      then show False using F(2) that(3) f(2) by auto
    qed
    then show ?thesis using v(4) by simp
  qed
  {
    assume "vault_inv w"
    have "vault_inv w1" by (rule insert_file_inv [OF f(1) \<open>vault_inv w\<close> f(4)])
    then have w2: "vault_inv w2" by (rule insert_version_inv [OF v(1) _ v(4)])
    have "vault_inv (set_current vid fid w2)"
      unfolding set_current_def v(2) [symmetric]
      by (rule set_current_inv [OF w2 vr]) (use none [OF \<open>vault_inv w\<close>] v(3) in auto)
    then show "vault_inv w3" by (rule insert_chunks_inv [OF c])
  }
  assume sys: "system_inv now w" and folder: "\<And>p. f_folder r = Some p \<Longrightarrow> has_row (live_folder p u) (t_folders w)"
  note inv = system_invD(1) [OF sys]
  have g1: "good_step now u w w1" using insert_file_good [OF f(1) sys f(5,4)] folder f(3) by simp
  have own: "owner_file w1 u fid" using F(1) f(2,3) by (auto simp: owner_file_def)
  have g2: "good_step now u w1 w2"
    using insert_version_good [OF v(1) good_step_system [OF g1] v(4)] own v(3) by simp
  have own2: "owner_file w2 u fid" using own V(1) by (simp add: owner_file_def)
  have g3: "good_step now u w2 (set_current vid fid w2)"
    by (rule set_current_good [OF good_step_system [OF g2] vr v(2,3) none [OF inv] own2])
  have "owner_version (set_current vid fid w2) u vid"
    using own2 vr v(2,3) by (fastforce simp: owner_version_def owner_file_def set_current_def bex_upd)
  then have "good_step now u (set_current vid fid w2) w3"
    by (rule insert_chunks_good [OF c good_step_system [OF g3]])
  with g1 g2 g3 show "good_step now u w w3" by (blast intro: good_step_trans)
qed

lemma create_file_tx_step:
  assumes "create_file_tx x t fid vid gen u d req w = Inr w'"
  shows "vault_inv w \<Longrightarrow> vault_inv w'"
    and "system_inv now w \<Longrightarrow> (\<And>p. cf_folder req = Some p \<Longrightarrow> has_row (live_folder p u) (t_folders w)) \<Longrightarrow> good_step now u w w'"
proof -
  from assms obtain r vr w1 w2 w3 where
    steps: "insert_file r w = Inr w1" "f_id r = fid" "f_user r = u" "f_current r = None" "f_deleted_at r = None"
      "insert_version vr w1 = Inr w2" "v_id vr = vid" "v_file vr = fid" "\<not> v_active vr"
      "insert_chunks x t gen u fid vid (\<lambda>c. decode_b64 x (cp_blake3 c)) 0 (cf_chunks req) (set_current vid fid w2) = Inr w3"
    and r: "f_folder r = cf_folder req"
    and log: "audit_log t (Some u) (Some d) ''file_upload_initiated''
       (JObj [(''file_id'', JUuid fid), (''version_id'', JUuid vid), (''total_size'', JInt (cf_total_size req)),
              (''total_chunks'', JInt (cf_total_chunks req))]) w3 = Inr w'"
    unfolding create_file_tx_def and_then_ok sql_ok by (elim exE conjE) (rule that, (assumption | (simp; fail))+)
  show "vault_inv w \<Longrightarrow> vault_inv w'"
    using begin_upload(1) [OF steps] vault_inv_audit [OF log] by simp
  show "system_inv now w \<Longrightarrow> (\<And>p. cf_folder req = Some p \<Longrightarrow> has_row (live_folder p u) (t_folders w)) \<Longrightarrow> good_step now u w w'"
    using begin_upload(2) [OF steps] r audit_good [OF log] by simp
qed

lemma ghost_owned:
  assumes "check_duplicate x u folder hash w = Inr (Ghost g)"
  shows "\<exists>f\<in>set (t_files w). f_id f = g \<and> f_user f = u"
  using assms
  by (fastforce simp: check_duplicate_def find_duplicate_def bind_eq_Some_conv
      split: option.splits if_splits dest!: find_Some_in)

lemma create_file_cases:
  assumes "create_file x t fid vid gen u d req w = (res, w')"
  obtains (same) "w' = w"
  | (stored) w1 where "w1 = w \<or> (\<exists>g f. f \<in> set (t_files w) \<and> f_id f = g \<and> f_user f = u \<and> w1 = delete_files (\<lambda>f. f_id f = g) w)"
      "\<And>p. cf_folder req = Some p \<Longrightarrow> has_row (live_folder p u) (t_folders w)"
      "w' = w1 \<or> create_file_tx x t fid vid gen u d req w1 = Inr w'"
proof -
  show ?thesis
  proof (cases "\<exists>hash dup. check_duplicate x u (cf_folder req) hash w = Inr dup \<and>
      (\<forall>p. cf_folder req = Some p \<longrightarrow> has_row (live_folder p u) (t_folders w)) \<and>
      (\<forall>f v. dup \<noteq> Duplicate f v) \<and>
      (let w1 = (case dup of Ghost g \<Rightarrow> delete_files (\<lambda>f. f_id f = g) w | _ \<Rightarrow> w)
       in w' = w1 \<or> create_file_tx x t fid vid gen u d req w1 = Inr w')")
    case True
    then obtain hash dup where dup: "check_duplicate x u (cf_folder req) hash w = Inr dup"
      and folder: "\<And>p. cf_folder req = Some p \<Longrightarrow> has_row (live_folder p u) (t_folders w)"
      and nd: "\<And>f v. dup \<noteq> Duplicate f v"
      and w': "w' = (case dup of Ghost g \<Rightarrow> delete_files (\<lambda>f. f_id f = g) w | _ \<Rightarrow> w) \<or>
        create_file_tx x t fid vid gen u d req (case dup of Ghost g \<Rightarrow> delete_files (\<lambda>f. f_id f = g) w | _ \<Rightarrow> w) = Inr w'"
      by (auto simp: Let_def)
    show ?thesis
    proof (rule stored [OF _ folder w'])
      show "(case dup of Ghost g \<Rightarrow> delete_files (\<lambda>f. f_id f = g) w | _ \<Rightarrow> w) = w \<or>
        (\<exists>g f. f \<in> set (t_files w) \<and> f_id f = g \<and> f_user f = u \<and>
          (case dup of Ghost g \<Rightarrow> delete_files (\<lambda>f. f_id f = g) w | _ \<Rightarrow> w) = delete_files (\<lambda>f. f_id f = g) w)"
        using dup nd by (cases dup) (auto dest!: ghost_owned)
    qed
  next
    case False
    have "w' = w"
    proof (rule ccontr)
      assume "w' \<noteq> w"
      with assms False show False
        unfolding create_file_def attempt_def
        by (auto simp: Let_def split: sum.splits dedup.splits)
    qed
    then show ?thesis by (rule same)
  qed
qed

text \<open>
  \<open>create_file\<close> keeps every promise but the last: a ghost is deleted without queueing its
  objects.
\<close>

lemma create_file_tenant:
  assumes sys: "system_inv now w" and run: "create_file x t fid vid gen u d req w = (res, w')"
  shows "system_inv now w' \<and> isolated u w w'"
  using run
proof (cases rule: create_file_cases)
  case same
  then show ?thesis using sys by simp
next
  case (stored w1)
  have "system_inv now w1 \<and> isolated u w w1"
    using stored(1)
  proof (elim disjE exE conjE)
    fix g f assume f: "f \<in> set (t_files w)" "f_id f = g" "f_user f = u" and w1: "w1 = delete_files (\<lambda>f. f_id f = g) w"
    from f have "owner_file w u g" by (auto simp: owner_file_def)
    then have own: "h \<in> set (t_files w) \<Longrightarrow> f_id h = g \<Longrightarrow> f_user h = u" for h
      by (rule owner_row [OF system_invD(1) [OF sys]])
    show ?thesis unfolding w1 by (intro conjI delete_files_tenant [OF sys, where u = u] own)
  qed (use sys in simp)
  moreover have "t_folders w1 = t_folders w" using stored(1) by auto
  ultimately show ?thesis
    using stored(3) create_file_tx_step(2) [of x t fid vid gen u d req w1 w' now] stored(2)
    by (auto simp: good_step_def intro: isolated_trans)
qed

interpretation create_file: tenant_operation
  "\<lambda>w r w'. create_file x t fid vid gen u d req w = (r, w')" now u
proof (unfold_locales, goal_cases)
  case (1 w res w')
  from 1(2) show ?case
  proof (cases rule: create_file_cases)
    case same
    then show ?thesis using 1(1) by simp
  next
    case (stored w1)
    then show ?thesis using 1(1) delete_files_inv [OF 1(1)] create_file_tx_step(1) [of x t fid vid gen u d req w1 w']
      by auto
  qed
next
  case (2 w res w')
  then show ?case by (simp add: create_file_tenant)
next
  case (3 w res w')
  then show ?case by (simp add: create_file_tenant)
qed

lemma create_version_tx_step:
  assumes "create_version_tx x t vid gen u d fid hash req w = Inr w'"
  shows "vault_inv w \<Longrightarrow> vault_inv w'"
    and "system_inv now w \<Longrightarrow> owner_file w u fid \<Longrightarrow> good_step now u w w'"
proof -
  from assms obtain vr w1 w2 where
    v: "insert_version vr w = Inr w1" "v_id vr = vid" "v_file vr = fid" "\<not> v_active vr"
    and c: "insert_chunks x t gen u fid vid (\<lambda>c. decode_b64 x (cp_blake3 c)) 0 (cf_chunks req) w1 = Inr w2"
    and log: "audit_log t (Some u) (Some d) ''file_version_upload_initiated''
       (JObj [(''file_id'', JUuid fid), (''version_id'', JUuid vid),
              (''version_number'', JInt (next_version_number w fid))]) w2 = Inr w'"
    unfolding create_version_tx_def and_then_ok sql_ok by (elim exE conjE) (rule that, (assumption | (simp; fail))+)
  show "vault_inv w \<Longrightarrow> vault_inv w'"
    using insert_version_inv [OF v(1) _ v(4)] insert_chunks_inv [OF c] vault_inv_audit [OF log] by simp
  assume sys: "system_inv now w" and own: "owner_file w u fid"
  have g: "good_step now u w w1" using insert_version_good [OF v(1) sys v(4)] own v(3) by simp
  have "owner_version w1 u vid"
    using own v(2,3) insert_version_Inr(1) [OF v(1)] by (auto simp: owner_version_def owner_file_def)
  then have "good_step now u w1 w2" by (rule insert_chunks_good [OF c good_step_system [OF g]])
  with g show "good_step now u w w'" unfolding audit_good [OF log] by (rule good_step_trans)
qed

lemma create_version_cases:
  assumes "create_version x t vid gen u d fid req w = (res, w')"
  obtains (same) "w' = w"
  | (stored) hash where "owner_file w u fid" "create_version_tx x t vid gen u d fid hash req w = Inr w'"
proof -
  have "w' = w \<or> owner_file w u fid \<and> (\<exists>hash. create_version_tx x t vid gen u d fid hash req w = Inr w')"
    using assms unfolding create_version_def attempt_def
    by (auto simp: owner_file_def live_file_def split: sum.splits option.splits)
  then show ?thesis using that by blast
qed

interpretation create_version: safe_operation
  "\<lambda>w r w'. create_version x t vid gen u d fid req w = (r, w')" now u
proof -
  have good: "good_step now u w w'" if "system_inv now w" "create_version x t vid gen u d fid req w = (res, w')" for w w' res
    using that(2) by (cases rule: create_version_cases) (use that(1) in \<open>auto simp: good_step_refl intro: create_version_tx_step(2)\<close>)
  show "safe_operation (\<lambda>w r w'. create_version x t vid gen u d fid req w = (r, w')) now u"
  proof (unfold_locales, goal_cases)
    case (1 w res w')
    from 1(2) show ?case
      by (cases rule: create_version_cases) (use 1(1) in \<open>auto intro: create_version_tx_step(1)\<close>)
  qed (use good in \<open>auto simp: good_step_def\<close>)
qed

lemma mark_uploaded_inv:
  "vault_inv w \<Longrightarrow> vault_inv (w\<lparr>t_chunks := mark_uploaded t vid etags cs (t_chunks w)\<rparr>)"
proof (induction cs arbitrary: w)
  case (Cons c cs)
  let ?r = "case map_of etags (c_index c) of
          Some etag \<Rightarrow>
            if c_uploaded_at c = None
            then upd (\<lambda>r. c_version r = vid \<and> c_index r = c_index c)
                   (\<lambda>r. r\<lparr>c_uploaded_at := Some t, c_etag := Some etag\<rparr>) (t_chunks w)
            else t_chunks w
        | None \<Rightarrow> t_chunks w"
  have "vault_inv (w\<lparr>t_chunks := ?r\<rparr>)"
    using Cons.prems by (auto split: option.splits intro: upd_chunks_inv)
  from Cons.IH [OF this] show ?case by simp
qed simp

lemma mark_uploaded_good:
  "system_inv now w \<Longrightarrow> owner_version w u vid \<Longrightarrow>
     good_step now u w (w\<lparr>t_chunks := mark_uploaded t vid etags cs (t_chunks w)\<rparr>)"
proof (induction cs arbitrary: w)
  case Nil
  then show ?case by (simp add: good_step_refl)
next
  case (Cons c cs)
  let ?r = "case map_of etags (c_index c) of
          Some etag \<Rightarrow>
            if c_uploaded_at c = None
            then upd (\<lambda>r. c_version r = vid \<and> c_index r = c_index c)
                   (\<lambda>r. r\<lparr>c_uploaded_at := Some t, c_etag := Some etag\<rparr>) (t_chunks w)
            else t_chunks w
        | None \<Rightarrow> t_chunks w"
  have "good_step now u w (w\<lparr>t_chunks := ?r\<rparr>)"
    using Cons.prems by (auto split: option.splits intro!: upd_chunks_good simp: good_step_refl)
  moreover have "owner_version (w\<lparr>t_chunks := ?r\<rparr>) u vid"
    using Cons.prems(2) by (simp add: owner_version_def owner_file_def)
  ultimately show ?case using Cons.IH [of "w\<lparr>t_chunks := ?r\<rparr>"] by (auto intro: good_step_trans dest: good_step_system)
qed

text \<open>
  Making a version active, in an order in which every intermediate state keeps the invariant:
  deactivate the others, point the file at the version, activate it.
\<close>

lemma activate_version_steps:
  fixes w :: vault and t :: timestamp
  assumes inv: "vault_inv w" and v: "v \<in> set (t_versions w)" "v_id v = vid" "v_file v = fid"
  defines "wa \<equiv> w\<lparr>t_versions := upd (\<lambda>v. v_file v = fid \<and> v_active v \<and> v_id v \<noteq> vid) (\<lambda>v. v\<lparr>v_active := False\<rparr>) (t_versions w)\<rparr>"
  defines "wb \<equiv> wa\<lparr>t_files := upd (\<lambda>f. f_id f = fid) (\<lambda>f. f\<lparr>f_current := Some vid, f_updated_at := t\<rparr>) (t_files wa)\<rparr>"
  shows "vault_inv wa" "vault_inv wb"
    "activate_version t vid fid w = wb\<lparr>t_versions := upd (\<lambda>v. v_id v = vid) (\<lambda>v. v\<lparr>v_active := True\<rparr>) (t_versions wb)\<rparr>"
    "vault_inv (activate_version t vid fid w)"
proof -
  show a: "vault_inv wa" unfolding wa_def by (rule upd_versions_inv [OF inv]) auto
  have va: "v \<in> set (t_versions wa)" using v by (auto simp: wa_def in_upd_iff intro!: bexI [of _ v])
  have act: "a = v" if "a \<in> set (t_versions wa)" "v_file a = v_file v" "v_active a" for a
  proof -
    from that(1) obtain b where "b \<in> set (t_versions w)"
      "a = (if v_file b = fid \<and> v_active b \<and> v_id b \<noteq> vid then b\<lparr>v_active := False\<rparr> else b)"
      unfolding wa_def by (auto simp: in_upd_iff)
    with that(2,3) v(3) have "v_id a = v_id v" unfolding v(2) by (cases "v_id b = vid") (auto split: if_splits)
    then show ?thesis by (rule ukeyD [OF vault_invD(3) [OF a] that(1) va])
  qed
  show b: "vault_inv wb"
    unfolding wb_def v(2) [symmetric] by (rule set_current_inv [OF a va act]) (simp_all add: v(3))
  show eq: "activate_version t vid fid w = wb\<lparr>t_versions := upd (\<lambda>v. v_id v = vid) (\<lambda>v. v\<lparr>v_active := True\<rparr>) (t_versions wb)\<rparr>"
    by (simp add: activate_version_def wa_def wb_def)
  have vb: "v \<in> set (t_versions wb)" using va by (simp add: wb_def)
  show "vault_inv (activate_version t vid fid w)"
    unfolding eq
  proof (rule upd_versions_inv [OF b])
    fix r assume "r \<in> set (t_versions wb)" "v_id r = vid"
    then have "r = v" using vb v(2) by (intro ukeyD [OF vault_invD(3) [OF b]]) auto
    then show "v_active r \<or> (\<forall>f\<in>set (t_files wb). f_id f = v_file r \<longrightarrow> f_current f = Some (v_id r))"
      using v by (auto simp: wb_def in_upd_iff)
  qed simp
qed

lemma activate_version_good:
  assumes sys: "system_inv now w" and v: "v \<in> set (t_versions w)" "v_id v = vid" "v_file v = fid" and own: "owner_file w u fid"
  shows "good_step now u w (activate_version t vid fid w)"
proof (rule good_stepI)
  note I = system_invD [OF sys]
  let ?P = "\<lambda>v. v_file v = fid \<and> v_active v \<and> v_id v \<noteq> vid"
  let ?wa = "w\<lparr>t_versions := upd ?P (\<lambda>v. v\<lparr>v_active := False\<rparr>) (t_versions w)\<rparr>"
  let ?wb = "?wa\<lparr>t_files := upd (\<lambda>f. f_id f = fid) (\<lambda>f. f\<lparr>f_current := Some vid, f_updated_at := t\<rparr>) (t_files ?wa)\<rparr>"
  let ?w' = "activate_version t vid fid w"
  note S = activate_version_steps(2-4) [OF I(1) v, where t = t]
  have "tree_inv ?w'"
    by (rule tree_inv_mono [OF _ _ I(2)]) (simp_all add: activate_version_def image_upd_keep file_view_def)
  moreover have "clock_ok now ?w'"
    using I(3) by (rule clock_ok_mono) (auto simp: activate_version_def image_upd_keep)
  ultimately show "system_inv now ?w'" using S(3) by (simp add: system_inv_def)
  have "isolated u w ?wa" by (rule upd_versions_isolated [OF I(1)]) (use own in auto)
  moreover have "isolated u ?wa ?wb"
    using owner_row [OF I(1) own] by (intro upd_files_isolated) auto
  moreover have "isolated u ?wb ?w'"
    unfolding S(2)
  proof (rule upd_versions_isolated [OF S(1)])
    fix r assume r: "r \<in> set (t_versions ?wb)" "v_id r = vid"
    obtain v' where v': "v' \<in> set (t_versions ?wb)" "v_id v' = vid" "v_file v' = fid"
      using v by (auto simp: in_upd_iff intro!: that [of v] bexI [of _ v])
    have "r = v'" by (rule ukeyD [OF vault_invD(3) [OF S(1)] r(1) v'(1)]) (simp add: r v')
    moreover have "owner_file ?wb u fid = owner_file w u fid"
      by (rule owner_file_cong) (simp add: image_upd_keep)
    ultimately show "owner_file ?wb u (v_file r)" using own v'(3) by simp
  qed simp_all
  ultimately show "isolated u w ?w'" by (blast intro: isolated_trans)
  show "keys_safe w ?w'" by (rule keys_safe_cong) (simp_all add: activate_version_def)
qed

text \<open>The outcomes of \<open>complete_upload\<close>.\<close>

definition marked :: "timestamp \<Rightarrow> complete_upload_request \<Rightarrow> vault \<Rightarrow> vault" where
  "marked t req w = w\<lparr>t_chunks := mark_uploaded t (co_version req) (co_etags req) (version_chunks w (co_version req)) (t_chunks w)\<rparr>"

lemma complete_upload_cases:
  assumes "complete_upload t u d req w = (res, w')"
  obtains (same) "w' = w" "\<And>r. res = Inr r \<Longrightarrow> \<exists>v\<in>set (t_versions w). v_id v = co_version req \<and> v_active v \<and> owner_file w u (v_file v)"
  | (partial) v ev meta e where "v \<in> set (t_versions w)" "v_id v = co_version req" "owner_file w u (v_file v)"
      "audit_log t (Some u) (Some d) ev meta (marked t req w) = Inr w'" "res = Inl e"
  | (complete) v w2 ev meta ev' where "v \<in> set (t_versions w)" "v_id v = co_version req" "owner_file w u (v_file v)"
      "\<not> v_active v" "version_chunks w (co_version req) \<noteq> []"
      "\<And>c. c \<in> set (t_chunks (marked t req w)) \<Longrightarrow> c_version c = co_version req \<Longrightarrow> c_uploaded_at c \<noteq> None"
      "audit_log t (Some u) (Some d) ev meta (activate_version t (co_version req) (v_file v) (marked t req w)) = Inr w2"
      "w' = file_broadcast u ev' w2" "res = Inr ()"
proof -
  let ?vid = "co_version req"
  let ?find = "find (\<lambda>v. v_id v = ?vid \<and>
                  has_row (\<lambda>f. f_id f = v_file v \<and> f_user f = u \<and> f_deleted_at f = None) (t_files w)) (t_versions w)"
  show ?thesis
  proof (cases ?find)
    case None
    with assms have "w' = w" "res = Inl NotFound" unfolding complete_upload_def Let_def by auto
    then show ?thesis using same by blast
  next
    case (Some v)
    then have v: "v \<in> set (t_versions w)" "v_id v = ?vid" "owner_file w u (v_file v)"
      by (auto dest!: find_Some_in simp: owner_file_def)
    note eq = assms [unfolded complete_upload_def Let_def marked_def [symmetric] Some option.case]
    show ?thesis
    proof (cases "v_active v \<or> version_chunks w ?vid = []")
      case True
      with eq v show ?thesis by (intro same) (auto split: if_splits)
    next
      case False
      then have a: "\<not> v_active v" "version_chunks w ?vid \<noteq> []" by auto
      show ?thesis
      proof (cases "row_count (\<lambda>c. c_version c = ?vid \<and> c_uploaded_at c = None) (t_chunks (marked t req w)) > 0")
        case True
        from eq [unfolded if_not_P [OF a(1)] if_not_P [OF a(2)] if_P [OF True]]
        have "attempt_sql (audit_log t (Some u) (Some d) ''file_upload_partial''
            (JObj [(''version_id'', JUuid ?vid), (''missing_chunks'', JArr (map JInt (missing_chunks (marked t req w) ?vid)))])
            (marked t req w)) w (\<lambda>w2. (Inl (BadRequest (''missing chunks: '' @ show_int_list (missing_chunks (marked t req w) ?vid))), w2))
          = (res, w')" .
        then show ?thesis by (auto simp: attempt_sql_def split: sum.splits intro: same partial [OF v])
      next
        case nomiss: False
        from eq [unfolded if_not_P [OF a(1)] if_not_P [OF a(2)] if_not_P [OF nomiss]]
        have "attempt_sql (audit_log t (Some u) (Some d) ''file_upload_completed''
            (JObj [(''version_id'', JUuid ?vid)]) (activate_version t ?vid (v_file v) (marked t req w))) w (\<lambda>w2.
            (Inr (), file_broadcast u (mk_event ''uploaded'' ''file'' (v_file v) (JObj [(''version_id'', JUuid ?vid)])) w2))
          = (res, w')" .
        moreover have "c_uploaded_at c \<noteq> None" if "c \<in> set (t_chunks (marked t req w))" "c_version c = ?vid" for c
          using nomiss that by auto
        ultimately show ?thesis
          using False by (auto simp: attempt_sql_def split: sum.splits intro: same complete [OF v])
      qed
    qed
  qed
qed

lemma marked_frame [simp]:
  "t_versions (marked t req w) = t_versions w" "t_files (marked t req w) = t_files w"
  "owner_file (marked t req w) u i = owner_file w u i"
  by (simp_all add: marked_def owner_file_def)

lemma marked_good:
  assumes "system_inv now w" and "v \<in> set (t_versions w)" and "v_id v = co_version req" and "owner_file w u (v_file v)"
  shows "good_step now u w (marked t req w)"
  unfolding marked_def using assms(2-) by (intro mark_uploaded_good [OF assms(1)]) (auto simp: owner_version_def)

lemma complete_upload_good:
  assumes sys: "system_inv now w" and run: "complete_upload t u d req w = (res, w')"
  shows "good_step now u w w'"
  using run
proof (cases rule: complete_upload_cases)
  case same
  then show ?thesis using sys by (simp add: good_step_refl)
next
  case (partial v ev meta e)
  then show ?thesis by (simp add: audit_good [OF partial(4)] marked_good [OF sys])
next
  case (complete v w2 ev meta ev')
  have m: "good_step now u w (marked t req w)" by (rule marked_good [OF sys complete(1-3)])
  have "good_step now u (marked t req w) (activate_version t (co_version req) (v_file v) (marked t req w))"
    by (rule activate_version_good [OF good_step_system [OF m], of v]) (simp_all add: complete)
  with m show ?thesis
    unfolding complete(8) quiet_good audit_good [OF complete(7)] by (rule good_step_trans)
qed

lemma complete_upload_inv:
  assumes inv: "vault_inv w" and run: "complete_upload t u d req w = (res, w')"
  shows "vault_inv w'"
  using run
proof (cases rule: complete_upload_cases)
  case same
  then show ?thesis using inv by simp
next
  case (partial v ev meta e)
  then show ?thesis by (simp add: vault_inv_audit [OF partial(4)] marked_def mark_uploaded_inv inv)
next
  case (complete v w2 ev meta ev')
  have "vault_inv (marked t req w)" by (simp add: marked_def mark_uploaded_inv inv)
  then have "vault_inv (activate_version t (co_version req) (v_file v) (marked t req w))"
    by (rule activate_version_steps(4) [of _ v]) (simp_all add: complete)
  then show ?thesis by (simp add: complete(8) vault_inv_audit [OF complete(7)])
qed

interpretation complete_upload: safe_operation
  "\<lambda>w r w'. complete_upload t u d req w = (r, w')" now u
  by unfold_locales
    (auto simp: good_step_def intro: complete_upload_inv dest: complete_upload_good)

lemma cancel_upload_ok:
  assumes "cancel_upload x t u fid vid w = (Inr r, w')"
  obtains v where "v \<in> set (t_versions w)" "v_id v = vid" "v_file v = fid" "owner_file w u fid" "\<not> v_active v"
    "let keys = map c_key (filter (\<lambda>c. c_version c = vid) (t_chunks w));
         w3 = delete_files (\<lambda>f. f_id f = fid \<and> f_user f = u \<and> f_current f = Some vid)
                (delete_versions (\<lambda>v. v_id v = vid \<and> \<not> v_active v) (delete_chunks (\<lambda>c. c_version c = vid) w))
     in w' = delete_objects_best_effort x keys (if keys \<noteq> [] then queue_deletions t (Some u) keys w3 else w3)"
  using assms unfolding cancel_upload_def Let_def
  by (auto split: option.splits if_splits dest!: find_Some_in simp: owner_file_def)

lemma cancel_upload_err: "cancel_upload x t u fid vid w = (Inl e, w') \<Longrightarrow> w' = w"
  by (auto simp: cancel_upload_def Let_def split: option.splits if_splits)

text \<open>
  Deleting the version has set \<open>current_version_id\<close> of its file to NULL by the foreign key, so
  the delete of the file row that follows finds nothing.
\<close>

lemma cancel_keeps_files:
  assumes "v \<in> set (t_versions w)" "v_id v = vid" "\<not> v_active v"
  shows "delete_files (\<lambda>f. f_id f = fid \<and> f_user f = u \<and> f_current f = Some vid)
           (delete_versions (\<lambda>v. v_id v = vid \<and> \<not> v_active v) w) =
         delete_versions (\<lambda>v. v_id v = vid \<and> \<not> v_active v) w"
proof (rule delete_files_none)
  let ?gone = "map v_id (filter (\<lambda>v. v_id v = vid \<and> \<not> v_active v) (t_versions w))"
  fix f assume "f \<in> set (t_files (delete_versions (\<lambda>v. v_id v = vid \<and> \<not> v_active v) w))"
  then obtain f0 where f0: "f = (if opt_in (f_current f0) ?gone then f0\<lparr>f_current := None\<rparr> else f0)"
    by (auto simp: delete_versions_def Let_def in_upd_iff)
  moreover have "vid \<in> set (map v_id (filter (\<lambda>v. v_id v = vid \<and> \<not> v_active v) (t_versions w)))"
    using assms by force
  ultimately show "\<not> (f_id f = fid \<and> f_user f = u \<and> f_current f = Some vid)"
    by (cases "opt_in (f_current f0) ?gone") auto
qed

lemma cancel_upload_step:
  assumes "cancel_upload x t u fid vid w = (Inr r, w')"
  obtains w3 where
    "w3 = delete_versions (\<lambda>v. v_id v = vid \<and> \<not> v_active v) (delete_chunks (\<lambda>c. c_version c = vid) w)"
    "w' = delete_objects_best_effort x (map c_key (filter (\<lambda>c. c_version c = vid) (t_chunks w)))
            (queue_deletions t (Some u) (map c_key (filter (\<lambda>c. c_version c = vid) (t_chunks w))) w3)"
    "owner_version w u vid"
proof -
  from assms obtain v where v: "v \<in> set (t_versions w)" "v_id v = vid" "v_file v = fid" "owner_file w u fid" "\<not> v_active v"
    and w': "let keys = map c_key (filter (\<lambda>c. c_version c = vid) (t_chunks w));
         w3 = delete_files (\<lambda>f. f_id f = fid \<and> f_user f = u \<and> f_current f = Some vid)
                (delete_versions (\<lambda>v. v_id v = vid \<and> \<not> v_active v) (delete_chunks (\<lambda>c. c_version c = vid) w))
     in w' = delete_objects_best_effort x keys (if keys \<noteq> [] then queue_deletions t (Some u) keys w3 else w3)"
    by (rule cancel_upload_ok)
  have "v \<in> set (t_versions (delete_chunks (\<lambda>c. c_version c = vid) w))" using v(1) by simp
  note gone = cancel_keeps_files [OF this v(2,5), of fid u]
  have "queue_deletions t (Some u) [] y = y" for y by (simp add: queue_deletions_def)
  with w' [unfolded Let_def gone] v show ?thesis
    by (intro that [OF refl]) (auto simp: owner_version_def)
qed

lemma cancel_upload_good:
  assumes sys: "system_inv now w" and run: "cancel_upload x t u fid vid w = (Inr r, w')"
  shows "good_step now u w w'"
proof -
  note inv = system_invD(1) [OF sys]
  let ?keys = "map c_key (filter (\<lambda>c. c_version c = vid) (t_chunks w))"
  from run obtain w3 where w3: "w3 = delete_versions (\<lambda>v. v_id v = vid \<and> \<not> v_active v) (delete_chunks (\<lambda>c. c_version c = vid) w)"
    and w': "w' = delete_objects_best_effort x ?keys (queue_deletions t (Some u) ?keys w3)" and own: "owner_version w u vid"
    by (rule cancel_upload_step)
  let ?w1 = "delete_chunks (\<lambda>c. c_version c = vid) w" and ?w4 = "queue_deletions t (Some u) ?keys w3"
  have 1: "system_inv now ?w1" "isolated u w ?w1"
    by (rule delete_chunks_tenant [OF sys, where u = u], use own in simp)+
  have "owner_file ?w1 u (v_file v)" if "v \<in> set (t_versions ?w1)" "v_id v = vid \<and> \<not> v_active v" for v
  proof -
    from own obtain v' where "v' \<in> set (t_versions w)" "v_id v' = vid" "owner_file w u (v_file v')" by (auto simp: owner_version_def)
    moreover from this have "v' = v" using that ukeyD [OF vault_invD(3) [OF inv], of v' v] by simp
    ultimately show ?thesis by (simp add: owner_file_def)
  qed
  note V = delete_versions_tenant [OF 1(1), where u = u, OF this]
  have 3: "system_inv now w3" "isolated u w w3"
    unfolding w3 using V 1(2) by (auto intro: isolated_trans)
  have "system_inv now ?w4"
    using system_invD [OF 3(1)] tree_inv_cong [of ?w4 w3] clock_ok_cong [of ?w4 w3] queue_deletions_inv
    by (simp add: system_inv_def)
  moreover have "isolated u w ?w4" using 3(2) isolated_right_cong [of ?w4 w3] by simp
  moreover have "keys_safe w ?w4"
  proof -
    have "chunk_keys w \<subseteq> chunk_keys w3 \<union> set ?keys"
      by (auto simp: w3 chunk_keys_def delete_versions_def delete_chunks_def Let_def)
    moreover have "chunk_keys ?w4 = chunk_keys w3" "queued_keys w = queued_keys w3"
      by (simp_all add: chunk_keys_def queued_keys_def w3)
    ultimately show ?thesis by (auto simp: keys_safe_def queued_queue_deletions)
  qed
  ultimately show ?thesis unfolding w' quiet_good by (simp add: good_step_def)
qed

interpretation cancel_upload: tenant_transaction
  "\<lambda>w r w'. cancel_upload x t u fid vid w = (r, w')" now u
proof (unfold_locales, goal_cases)
  case (1 w e w')
  then show ?case by (auto dest: cancel_upload_err)
next
  case (2 w r w')
  from 2(2) show ?case by (rule cancel_upload_step) (use 2(1) in \<open>simp add: inv_intro\<close>)
next
  case (3 w r w')
  then show ?case by (rule cancel_upload_good)
qed

lemma bulk_cancel_loop_good:
  "system_inv now w \<Longrightarrow> good_step now u w (snd (bulk_cancel_loop x t u ts n w))"
proof (induction x t u ts n w rule: bulk_cancel_loop.induct)
  case (1 x t u n w)
  then show ?case by (simp add: good_step_refl)
next
  case (2 x t u fid vid ts n w)
  obtain res w1 where run: "cancel_upload x t u fid vid w = (res, w1)" by (cases "cancel_upload x t u fid vid w")
  have "good_step now u w w1" by (rule cancel_upload.good [OF 2(3) run])
  moreover have "good_step now u w1 (snd (bulk_cancel_loop x t u ts m w1))" if "m = (if isl res then n else Suc n)" for m
    using that 2(1) [OF run [symmetric]] 2(2) [OF run [symmetric]] good_step_system [OF calculation] by (cases res) auto
  ultimately show ?case
    by (cases res) (auto simp: run intro: good_step_trans)
qed

lemma bulk_cancel_loop_inv:
  "vault_inv w \<Longrightarrow> vault_inv (snd (bulk_cancel_loop x t u ts n w))"
proof (induction x t u ts n w rule: bulk_cancel_loop.induct)
  case (2 x t u fid vid ts n w)
  obtain res w1 where run: "cancel_upload x t u fid vid w = (res, w1)" by (cases "cancel_upload x t u fid vid w")
  have "vault_inv w1" by (rule cancel_upload.inv [OF 2(3) run])
  then show ?case using 2(1) [OF run [symmetric]] 2(2) [OF run [symmetric]] by (cases res) (auto simp: run)
qed simp

interpretation bulk_cancel_uploads: safe_operation
  "\<lambda>w r w'. bulk_cancel_uploads x t u targets w = (r, w')" now u
proof -
  have "good_step now u w w'" if "system_inv now w" "bulk_cancel_uploads x t u targets w = (r, w')" for w w' r
    using that bulk_cancel_loop_good [OF that(1), of u x t targets 0]
    by (auto simp: bulk_cancel_uploads_def split: prod.splits)
  moreover have "vault_inv w'" if "vault_inv w" "bulk_cancel_uploads x t u targets w = (r, w')" for w w' r
    using that bulk_cancel_loop_inv [OF that(1), of x t u targets 0]
    by (auto simp: bulk_cancel_uploads_def split: prod.splits)
  ultimately show "safe_operation (\<lambda>w r w'. bulk_cancel_uploads x t u targets w = (r, w')) now u"
    by unfold_locales (auto simp: good_step_def)
qed

subsection \<open>Contracts of the bulk forms\<close>

lemma bulk_init_one_step:
  assumes "bulk_init_one x t fid vid gen u d req w = Inr (r, w')"
  shows "vault_inv w \<Longrightarrow> vault_inv w'"
    and "system_inv now w \<Longrightarrow> (\<And>p. cf_folder req = Some p \<Longrightarrow> has_row (live_folder p u) (t_folders w)) \<Longrightarrow> good_step now u w w'"
    and "t_folders w' = t_folders w"
proof -
  from assms obtain fr vr w1 w2 where
    steps: "insert_file fr w = Inr w1" "f_id fr = fid" "f_user fr = u" "f_current fr = None" "f_deleted_at fr = None"
      "insert_version vr w1 = Inr w2" "v_id vr = vid" "v_file vr = fid" "\<not> v_active vr"
      "insert_chunks x t gen u fid vid (\<lambda>_. Inr (replicate 32 0)) 0 (cf_chunks req) (set_current vid fid w2) = Inr w'"
    and r: "f_folder fr = cf_folder req"
    unfolding bulk_init_one_def and_then_ok sql_ok by (elim exE conjE) (rule that, (assumption | (simp; fail))+)
  show "vault_inv w \<Longrightarrow> vault_inv w'" by (rule begin_upload(1) [OF steps])
  show "system_inv now w \<Longrightarrow> (\<And>p. cf_folder req = Some p \<Longrightarrow> has_row (live_folder p u) (t_folders w)) \<Longrightarrow> good_step now u w w'"
    using begin_upload(2) [OF steps] r by simp
  show "t_folders w' = t_folders w"
    using insert_file_Inr(1) [OF steps(1)] insert_version_Inr(1) [OF steps(6)] insert_chunks_rows [OF steps(10)]
    by (auto simp: set_current_def)
qed

lemma bulk_init_loop_inv:
  "bulk_init_loop x t ids gen u d i reqs w = Inr (rs, w') \<Longrightarrow> vault_inv w \<Longrightarrow> vault_inv w'"
  by (induction reqs arbitrary: i w rs) (auto dest: bulk_init_one_step(1) split: prod.splits)

lemma bulk_init_loop_good:
  "bulk_init_loop x t ids gen u d i reqs w = Inr (rs, w') \<Longrightarrow> system_inv now w \<Longrightarrow>
   (\<And>req p. req \<in> set reqs \<Longrightarrow> cf_folder req = Some p \<Longrightarrow> has_row (live_folder p u) (t_folders w)) \<Longrightarrow> good_step now u w w'"
proof (induction reqs arbitrary: i w rs)
  case Nil
  then show ?case by (simp add: good_step_refl)
next
  case (Cons req reqs)
  from Cons.prems(1) obtain r w1 rs' where one: "bulk_init_one x t (fst (ids i)) (snd (ids i)) (gen i) u d req w = Inr (r, w1)"
    and rest: "bulk_init_loop x t ids gen u d (Suc i) reqs w1 = Inr (rs', w')"
    by (auto split: prod.splits)
  have g: "good_step now u w w1"
    by (rule bulk_init_one_step(2) [OF one Cons.prems(2)]) (rule Cons.prems(3) [of req], simp_all)
  have "good_step now u w1 w'"
    by (rule Cons.IH [OF rest good_step_system [OF g]]) (use Cons.prems(3) bulk_init_one_step(3) [OF one] in auto)
  with g show ?case by (rule good_step_trans)
qed

lemma bulk_init_uploads_ok:
  assumes "bulk_init_uploads x t ids gen u d reqs w = (Inr rs, w')"
  obtains tot usage where "bulk_total x 0 reqs = Inr tot" "current_usage w u = Inr usage" "within_quota usage tot"
    "bulk_init_loop x t ids gen u d 0 reqs w = Inr (rs, w')"
  using assms unfolding bulk_init_uploads_def attempt_oks check_that_ok by (auto split: prod.splits)

lemma bulk_init_uploads_err: "bulk_init_uploads x t ids gen u d reqs w = (Inl e, w') \<Longrightarrow> w' = w"
  unfolding bulk_init_uploads_def by (auto simp: attempt_errs split: prod.splits)

interpretation bulk_init_uploads: transaction
  "\<lambda>w r w'. bulk_init_uploads x t ids gen u d reqs w = (r, w')"
  by unfold_locales
    (auto dest: bulk_init_uploads_err elim!: bulk_init_uploads_ok intro: bulk_init_loop_inv)

lemma set_chunk_hashes_inv:
  "set_chunk_hashes x vid hs w = (r, w') \<Longrightarrow> vault_inv w \<Longrightarrow> vault_inv w'"
proof (induction hs arbitrary: w)
  case (Cons h hs)
  obtain i b where h: "h = (i, b)" by (cases h)
  show ?case
  proof (cases "decode_b64 x b")
    case (Inl e)
    with Cons.prems show ?thesis by (simp add: h)
  next
    case (Inr bs)
    show ?thesis
    proof (cases "length bs = 32")
      case True
      let ?w1 = "w\<lparr>t_chunks := upd (\<lambda>c. c_version c = vid \<and> c_index c = i) (\<lambda>c. c\<lparr>c_blake3 := bs\<rparr>) (t_chunks w)\<rparr>"
      have "vault_inv ?w1" by (rule upd_chunks_inv [OF Cons.prems(2)]) auto
      moreover have "set_chunk_hashes x vid hs ?w1 = (r, w')"
        using Cons.prems(1) Inr True by (simp add: h check_that_def)
      ultimately show ?thesis using Cons.IH by blast
    next
      case False
      with Cons.prems Inr show ?thesis by (simp add: h check_that_def)
    qed
  qed
qed simp

lemma attempt_cases:
  "attempt r w k = (res, w') \<Longrightarrow> (\<And>e. r = Inl e \<Longrightarrow> w' = w \<Longrightarrow> P) \<Longrightarrow> (\<And>a. r = Inr a \<Longrightarrow> k a = (res, w') \<Longrightarrow> P) \<Longrightarrow> P"
  by (cases r) auto

lemma bulk_complete_loop_inv:
  "bulk_complete_loop x t u d its dn fl w = (r, w') \<Longrightarrow> vault_inv w \<Longrightarrow> vault_inv w'"
proof (induction its arbitrary: dn fl w)
  case (Cons it its)
  note inv = Cons.prems(2)
  from Cons.prems(1) show ?case
    unfolding bulk_complete_loop.simps
  proof (elim attempt_cases)
    fix hash header key key_nonce
    let ?w1 = "w\<lparr>t_versions := upd (\<lambda>v. v_id v = bc_version it)
                   (\<lambda>v. v\<lparr>v_header := header, v_blake3 := hash, v_key := Some key, v_key_nonce := Some key_nonce\<rparr>)
                   (t_versions w)\<rparr>"
    let ?w2 = "?w1\<lparr>t_files := upd (\<lambda>f. f_current f = Some (bc_version it)) (\<lambda>f. f\<lparr>f_blake3 := hash\<rparr>) (t_files ?w1)\<rparr>"
    have "vault_inv ?w1" by (rule upd_versions_inv [OF inv]) auto
    then have i2: "vault_inv ?w2" by (rule upd_files_inv) auto
    assume run: "(let w1 = ?w1; w2 = w1\<lparr>t_files := upd (\<lambda>f. f_current f = Some (bc_version it)) (\<lambda>f. f\<lparr>f_blake3 := hash\<rparr>) (t_files w1)\<rparr>
      in case set_chunk_hashes x (bc_version it) (bc_hashes it) w2 of
          (Inl e, w3) \<Rightarrow> (Inl e, w3)
        | (Inr _, w3) \<Rightarrow>
            (case complete_upload t u d \<lparr>co_version = bc_version it, co_etags = bc_etags it\<rparr> w3 of
               (Inr _, w4) \<Rightarrow> bulk_complete_loop x t u d its (dn @ [bc_version it]) fl w4
             | (Inl _, w4) \<Rightarrow> bulk_complete_loop x t u d its dn (fl @ [bc_version it]) w4)) = (r, w')"
    obtain r3 w3 where h: "set_chunk_hashes x (bc_version it) (bc_hashes it) ?w2 = (r3, w3)" by force
    have i3: "vault_inv w3" by (rule set_chunk_hashes_inv [OF h i2])
    obtain r4 w4 where c: "complete_upload t u d \<lparr>co_version = bc_version it, co_etags = bc_etags it\<rparr> w3 = (r4, w4)" by force
    have "vault_inv w4" by (rule complete_upload_inv [OF i3 c])
    then show "vault_inv w'"
      using run i3 Cons.IH unfolding Let_def h prod.case c by (cases r3; cases r4) auto
  qed (use inv in auto)
qed simp

interpretation bulk_complete_uploads: operation
  "\<lambda>w r w'. bulk_complete_uploads x t u d items w = (r, w')"
  by unfold_locales (auto simp: bulk_complete_uploads_def intro: bulk_complete_loop_inv)

end
