(* ===== verification/Files_Manage.thy ===== *)
theory Files_Manage
  imports Files_Upload
begin

text \<open>
  The rest of the file service of \<open>src/features/files/service.rs\<close>: reading and listing
  files, updating and moving them, the trash, purging, versions and download manifests.
\<close>

subsection \<open>Responses\<close>

record file_response =
  fl_id :: uuid
  fl_folder :: "uuid option"
  fl_metadata :: string
  fl_nonce :: string
  fl_total_size :: int
  fl_current :: "uuid option"
  fl_is_uploading :: bool
  fl_deleted_at :: "timestamp option"
  fl_created_at :: timestamp
  fl_updated_at :: timestamp
  fl_key :: "string option"
  fl_key_nonce :: "string option"
  fl_header :: "string option"

record update_file_request =
  uf_metadata :: "string option"
  uf_nonce :: "string option"
  uf_folder :: "uuid option option"

record download_manifest =
  dm_file :: uuid
  dm_version :: uuid
  dm_header :: string
  dm_total_size :: int
  dm_total_chunks :: int
  dm_chunks :: "download_chunk_info list"
  dm_key :: string
  dm_key_nonce :: string

record file_version_response =
  vr_id :: uuid
  vr_number :: int
  vr_total_size :: int
  vr_total_chunks :: int
  vr_is_active :: bool
  vr_is_uploading :: bool
  vr_created_at :: timestamp
  vr_device :: uuid

record bulk_delete_request =
  bd_files :: "uuid list"
  bd_folders :: "uuid list"
  bd_permanent :: bool

definition is_uploading :: "vault \<Rightarrow> file_row \<Rightarrow> bool" where
  "is_uploading w f \<longleftrightarrow>
     (case f_current f of
        None \<Rightarrow> False
      | Some vid \<Rightarrow> \<not> (case find (\<lambda>v. v_id v = vid) (t_versions w) of None \<Rightarrow> False | Some v \<Rightarrow> v_active v))"

text \<open>
  \<open>FromRow for FileResponse\<close>: the columns of the version are filled only by the query that
  joins it (\<open>get_file\<close>).
\<close>

definition file_response_of :: "ext \<Rightarrow> vault \<Rightarrow> version_row option \<Rightarrow> file_row \<Rightarrow> file_response" where
  "file_response_of x w ver f =
     \<lparr>fl_id = f_id f, fl_folder = f_folder f, fl_metadata = encode_b64 x (f_metadata f),
      fl_nonce = encode_b64 x (f_nonce f), fl_total_size = f_size f, fl_current = f_current f,
      fl_is_uploading = is_uploading w f, fl_deleted_at = f_deleted_at f, fl_created_at = f_created_at f,
      fl_updated_at = f_updated_at f,
      fl_key = Option.bind ver (\<lambda>v. map_option (encode_b64 x) (v_key v)),
      fl_key_nonce = Option.bind ver (\<lambda>v. map_option (encode_b64 x) (v_key_nonce v)),
      fl_header = map_option (\<lambda>v. encode_b64 x (v_header v)) ver\<rparr>"

subsection \<open>Reading\<close>

definition get_file :: "ext \<Rightarrow> uuid \<Rightarrow> uuid \<Rightarrow> vault \<Rightarrow> file_response result" where
  "get_file x u fid w =
     (case find (live_file fid u) (t_files w) of
        None \<Rightarrow> Inl NotFound
      | Some f \<Rightarrow>
          Inr (file_response_of x w (find (\<lambda>v. f_current f = Some (v_id v)) (t_versions w)) f))"

definition folder_files :: "vault \<Rightarrow> uuid \<Rightarrow> uuid option \<Rightarrow> bool \<Rightarrow> file_row list" where
  "folder_files w u folder trashed =
     filter (\<lambda>f. f_user f = u \<and> f_folder f = folder \<and> (f_deleted_at f \<noteq> None) = trashed) (t_files w)"

definition list_files ::
  "ext \<Rightarrow> uuid \<Rightarrow> uuid option \<Rightarrow> int \<Rightarrow> int \<Rightarrow> bool \<Rightarrow> vault \<Rightarrow> file_response list \<times> int" where
  "list_files x u folder limit offset trashed w =
     (let lim = clamp 1 1000 limit;
          off = max offset 0;
          rows = folder_files w u folder trashed
      in (map (file_response_of x w None) (page lim off (sort_desc f_updated_at rows)), int (length rows)))"

definition list_versions :: "uuid \<Rightarrow> uuid \<Rightarrow> vault \<Rightarrow> file_version_response list result" where
  "list_versions u fid w =
     and_then (check_that (has_row (live_file fid u) (t_files w)) NotFound) (\<lambda>_.
     Inr (map (\<lambda>v. \<lparr>vr_id = v_id v, vr_number = v_number v, vr_total_size = v_size v,
                    vr_total_chunks = v_total_chunks v, vr_is_active = v_active v,
                    vr_is_uploading = (\<not> v_active v), vr_created_at = v_created_at v,
                    vr_device = v_device v\<rparr>)
          (sort_desc v_number (filter (\<lambda>v. v_file v = fid) (t_versions w)))))"

text \<open>The version and chunk rows of a manifest.\<close>

definition manifest_chunks :: "vault \<Rightarrow> uuid \<Rightarrow> (int \<times> int \<times> int \<times> string) list" where
  "manifest_chunks w vid = map (\<lambda>c. (c_index c, c_segment c, c_size c, c_key c)) (version_chunks w vid)"

definition get_download_manifest ::
  "ext \<Rightarrow> uuid \<Rightarrow> uuid \<Rightarrow> uuid option \<Rightarrow> vault \<Rightarrow> download_manifest result" where
  "get_download_manifest x u fid version_id w =
     (case find (\<lambda>f. f_id f = fid \<and> f_user f = u) (t_files w) of
        None \<Rightarrow> Inl NotFound
      | Some f \<Rightarrow>
     and_then (case version_id of
         Some vid \<Rightarrow>
           and_then (check_that (has_row (\<lambda>v. v_id v = vid \<and> has_row (\<lambda>f. f_id f = v_file v \<and> f_user f = u) (t_files w))
                       (t_versions w)) NotFound) (\<lambda>_. Inr vid)
       | None \<Rightarrow>
           (case f_current f of
              None \<Rightarrow> Inl (BadRequest (''file upload is not complete '' @ em_dash @ '' no active version''))
            | Some vid \<Rightarrow> Inr vid)) (\<lambda>target.
     and_then (require_r2 x) (\<lambda>_.
     case find (\<lambda>v. v_id v = target) (t_versions w) of
       None \<Rightarrow> Inl (of_sqlx RowNotFound)
     | Some v \<Rightarrow>
         (case (v_key v, v_key_nonce v) of
            (Some key, Some key_nonce) \<Rightarrow>
              and_then (generate_download_urls x (manifest_chunks w target)) (\<lambda>infos.
              Inr \<lparr>dm_file = fid, dm_version = target, dm_header = encode_b64 x (v_header v),
                   dm_total_size = v_size v, dm_total_chunks = v_total_chunks v, dm_chunks = infos,
                   dm_key = encode_b64 x key, dm_key_nonce = encode_b64 x key_nonce\<rparr>)
          | _ \<Rightarrow> Inl (BadRequest (''file upload is not complete '' @ em_dash @ '' missing file key''))))))"

definition verify_download_completeness ::
  "uuid \<Rightarrow> uuid \<Rightarrow> uuid option \<Rightarrow> vault \<Rightarrow> bool result" where
  "verify_download_completeness u fid version_id w =
     and_then (case version_id of
         Some vid \<Rightarrow>
           and_then (check_that (has_row (\<lambda>v. v_id v = vid \<and>
                         has_row (\<lambda>f. f_id f = v_file v \<and> f_user f = u \<and> f_deleted_at f = None) (t_files w))
                       (t_versions w)) NotFound) (\<lambda>_. Inr vid)
       | None \<Rightarrow>
           (case find (live_file fid u) (t_files w) of
              None \<Rightarrow> Inl NotFound
            | Some f \<Rightarrow> (case f_current f of None \<Rightarrow> Inl (BadRequest ''no active version'') | Some vid \<Rightarrow> Inr vid)))
       (\<lambda>target. Inr (row_count (\<lambda>c. c_version c = target \<and> c_uploaded_at c = None) (t_chunks w) = 0))"

subsection \<open>Updating and moving\<close>

definition decode_opt :: "ext \<Rightarrow> string option \<Rightarrow> bytes option result" where
  "decode_opt x s = (case s of None \<Rightarrow> Inr None | Some m \<Rightarrow> and_then (decode_b64 x m) (\<lambda>b. Inr (Some b)))"

definition update_file ::
  "ext \<Rightarrow> timestamp \<Rightarrow> uuid \<Rightarrow> uuid \<Rightarrow> update_file_request \<Rightarrow> vault \<Rightarrow> file_response result \<times> vault" where
  "update_file x now u fid req w =
     attempt (check_that (has_row (live_file fid u) (t_files w)) NotFound) w (\<lambda>_.
     attempt (for_option (uf_nonce req) (\<lambda>n. and_then (decode_b64 x n) (\<lambda>b.
       check_that (length b = 24) (BadRequest ''metadata nonce must be 24 bytes'')))) w (\<lambda>_.
     attempt (check_that ((uf_metadata req \<noteq> None) = (uf_nonce req \<noteq> None))
       (BadRequest ''encrypted_metadata and metadata_nonce must both be provided together'')) w (\<lambda>_.
     attempt (case uf_folder req of Some (Some d) \<Rightarrow> verify_folder_ownership w d u | _ \<Rightarrow> Inr ()) w (\<lambda>_.
     attempt (decode_opt x (uf_metadata req)) w (\<lambda>meta.
     attempt (decode_opt x (uf_nonce req)) w (\<lambda>nonce.
     let g = (\<lambda>f. f\<lparr>f_metadata := (case meta of Some m \<Rightarrow> m | None \<Rightarrow> f_metadata f),
                     f_nonce := (case nonce of Some n \<Rightarrow> n | None \<Rightarrow> f_nonce f),
                     f_folder := (case uf_folder req of Some d \<Rightarrow> d | None \<Rightarrow> f_folder f),
                     f_updated_at := now\<rparr>);
         w1 = w\<lparr>t_files := upd (live_file fid u) g (t_files w)\<rparr>
     in case find (live_file fid u) (t_files w1) of
          None \<Rightarrow> (Inl (of_sqlx RowNotFound), w)
        | Some f \<Rightarrow>
            (Inr (file_response_of x w1 None f),
             file_broadcast u (mk_event ''updated'' ''file'' fid (JObj [])) w1)))))))"

definition move_file ::
  "ext \<Rightarrow> timestamp \<Rightarrow> uuid \<Rightarrow> uuid \<Rightarrow> uuid \<Rightarrow> uuid option \<Rightarrow> vault \<Rightarrow> file_response result \<times> vault" where
  "move_file x now u d fid target w =
     attempt (check_that (has_row (live_file fid u) (t_files w)) NotFound) w (\<lambda>_.
     attempt (for_option target (\<lambda>folder. verify_folder_ownership w folder u)) w (\<lambda>_.
     let w1 = w\<lparr>t_files := upd (live_file fid u) (\<lambda>f. f\<lparr>f_folder := target, f_updated_at := now\<rparr>) (t_files w)\<rparr>
     in case find (live_file fid u) (t_files w1) of
          None \<Rightarrow> (Inl (of_sqlx RowNotFound), w)
        | Some f \<Rightarrow>
            (Inr (file_response_of x w1 None f),
             file_broadcast u (mk_event ''moved'' ''file'' fid (JObj [(''folder_id'', json_opt JUuid target)]))
               (audit_log_ok now (Some u) (Some d) ''file_moved''
                  (JObj [(''file_id'', JUuid fid), (''target_folder_id'', json_opt JUuid target)]) w1))))"

subsection \<open>Versions\<close>

definition restore_version ::
  "timestamp \<Rightarrow> uuid \<Rightarrow> uuid \<Rightarrow> uuid \<Rightarrow> uuid \<Rightarrow> vault \<Rightarrow> unit result \<times> vault" where
  "restore_version now u d fid vid w =
     (case find (\<lambda>v. v_id v = vid \<and> v_file v = fid \<and> has_row (live_file fid u) (t_files w)) (t_versions w) of
        None \<Rightarrow> (Inl NotFound, w)
      | Some v \<Rightarrow>
          if v_active v then (Inr (), w)
          else
            let w1 = w\<lparr>t_versions := upd (\<lambda>v. v_file v = fid) (\<lambda>v. v\<lparr>v_active := False\<rparr>) (t_versions w)\<rparr>;
                w2 = w1\<lparr>t_versions := upd (\<lambda>v. v_id v = vid) (\<lambda>v. v\<lparr>v_active := True\<rparr>) (t_versions w1)\<rparr>;
                w3 = w2\<lparr>t_files := upd (\<lambda>f. f_id f = fid)
                              (\<lambda>f. f\<lparr>f_current := Some vid, f_updated_at := now\<rparr>) (t_files w2)\<rparr>
            in attempt_sql (audit_log now (Some u) (Some d) ''file_version_restored''
                 (JObj [(''file_id'', JUuid fid), (''version_id'', JUuid vid)]) w3) w (\<lambda>w4.
               (Inr (), file_broadcast u
                  (mk_event ''version_restored'' ''file'' fid (JObj [(''version_id'', JUuid vid)])) w4)))"

definition delete_version ::
  "ext \<Rightarrow> timestamp \<Rightarrow> uuid \<Rightarrow> uuid \<Rightarrow> uuid \<Rightarrow> vault \<Rightarrow> unit result \<times> vault" where
  "delete_version x now u fid vid w =
     (case find (\<lambda>v. v_id v = vid \<and> v_file v = fid \<and> has_row (live_file fid u) (t_files w)) (t_versions w) of
        None \<Rightarrow> (Inl NotFound, w)
      | Some v \<Rightarrow>
          if v_active v then
            (Inl (BadRequest ''Cannot delete the active version. Restore another version first.''), w)
          else
            let keys = map c_key (filter (\<lambda>c. c_version c = vid) (t_chunks w));
                w1 = delete_chunks (\<lambda>c. c_version c = vid) w;
                w2 = delete_versions (\<lambda>v. v_id v = vid) w1
            in attempt_sql (audit_log now (Some u) None ''file_version_deleted''
                 (JObj [(''file_id'', JUuid fid), (''version_id'', JUuid vid)]) w2) w (\<lambda>w3.
               (Inr (), delete_objects_best_effort x keys w3)))"

subsection \<open>The trash\<close>

definition delete_file :: "timestamp \<Rightarrow> uuid \<Rightarrow> uuid \<Rightarrow> uuid \<Rightarrow> vault \<Rightarrow> unit result \<times> vault" where
  "delete_file now u d fid w =
     (if row_count (live_file fid u) (t_files w) = 0 then
        if has_row (\<lambda>f. f_id f = fid \<and> f_user f = u \<and> f_deleted_at f \<noteq> None) (t_files w) then (Inr (), w)
        else (Inl NotFound, w)
      else
        let w1 = w\<lparr>t_files := upd (live_file fid u)
                      (\<lambda>f. f\<lparr>f_deleted_at := Some now, f_updated_at := now\<rparr>) (t_files w)\<rparr>
        in attempt_sql (audit_log now (Some u) (Some d) ''file_deleted_to_trash''
             (JObj [(''file_id'', JUuid fid)]) w1) w (\<lambda>w2. (Inr (), w2)))"

definition trashed_file :: "uuid \<Rightarrow> uuid \<Rightarrow> file_row \<Rightarrow> bool" where
  "trashed_file fid u f \<longleftrightarrow> f_id f = fid \<and> f_user f = u \<and> f_deleted_at f \<noteq> None"

definition restore_file :: "timestamp \<Rightarrow> uuid \<Rightarrow> uuid \<Rightarrow> vault \<Rightarrow> unit result \<times> vault" where
  "restore_file now u fid w =
     (if row_count (trashed_file fid u) (t_files w) = 0 then (Inl NotFound, w)
      else
        let w1 = untrash_files now (trashed_file fid u) w;
            start = map fo_id (filter (\<lambda>fo. has_row (\<lambda>f. f_id f = fid \<and> f_folder f = Some (fo_id fo)) (t_files w1))
                                 (t_folders w1));
            chain = ancestors (t_folders w1) start;
            w2 = untrash_folders now (\<lambda>fo. fo_id fo \<in> set chain \<and> fo_deleted_at fo \<noteq> None) w1
        in (Inr (), file_broadcast u (mk_event ''restored'' ''file'' fid (JObj [])) w2))"

definition permanently_delete_file ::
  "ext \<Rightarrow> timestamp \<Rightarrow> uuid \<Rightarrow> uuid \<Rightarrow> vault \<Rightarrow> unit result \<times> vault" where
  "permanently_delete_file x now u fid w =
     (case find (\<lambda>f. f_id f = fid \<and> f_user f = u) (t_files w) of
        None \<Rightarrow> (Inl NotFound, w)
      | Some f \<Rightarrow>
          (case hard_delete_files now [fid] (Some u) w of
             ((_, keys), w1) \<Rightarrow>
               attempt_sql (audit_log now (Some u) None ''file_purged''
                 (JObj [(''file_id'', JUuid fid), (''objects'', JInt (int (length keys))),
                        (''was_trashed'', JBool (f_deleted_at f \<noteq> None))]) w1) w (\<lambda>w2.
               (Inr (), file_broadcast u
                  (mk_event ''purged'' ''file'' fid (JObj [(''objects'', JInt (int (length keys)))]))
                  (delete_objects_best_effort x keys w2)))))"

text \<open>
  \<open>bulk_delete\<close>: the ownership checks, the subtree of the folders, then one of the two
  branches; the result of a branch is the list of freed keys and the state to log and commit.
\<close>

definition bulk_purge ::
  "timestamp \<Rightarrow> uuid \<Rightarrow> bulk_delete_request \<Rightarrow> uuid list \<Rightarrow> vault \<Rightarrow> string list \<times> vault" where
  "bulk_purge now u req ids w =
     (let tree_files = (if ids \<noteq> [] then map f_id (filter (\<lambda>f. opt_in (f_folder f) ids \<and> f_user f = u) (t_files w)) else []);
          fids = remdups_adj (sort (tree_files @ bd_files req))
      in case hard_delete_files now fids (Some u) w of
           ((_, keys), w1) \<Rightarrow>
             (keys,
              if ids \<noteq> [] then
                delete_folders (\<lambda>fo. fo_id fo \<in> set ids \<and> fo_user fo = u)
                  (w1\<lparr>t_shares := upd (\<lambda>s. sh_type s = ''folder'' \<and> sh_item s \<in> set ids \<and> sh_revoked_at s = None)
                                    (\<lambda>s. s\<lparr>sh_revoked_at := Some now\<rparr>) (t_shares w1)\<rparr>)
              else w1))"

definition bulk_trash :: "timestamp \<Rightarrow> uuid \<Rightarrow> bulk_delete_request \<Rightarrow> uuid list \<Rightarrow> vault \<Rightarrow> vault" where
  "bulk_trash now u req ids w =
     (let w1 = (if ids \<noteq> [] then trash_files_in now ids (trash_folders now ids w) else w)
      in if bd_files req \<noteq> [] then
           w1\<lparr>t_files := upd (\<lambda>f. f_id f \<in> set (bd_files req) \<and> f_user f = u \<and> f_deleted_at f = None)
                           (\<lambda>f. f\<lparr>f_deleted_at := Some now, f_updated_at := now\<rparr>) (t_files w1)\<rparr>
         else w1)"

definition bulk_delete ::
  "ext \<Rightarrow> timestamp \<Rightarrow> uuid \<Rightarrow> uuid \<Rightarrow> bulk_delete_request \<Rightarrow> vault \<Rightarrow> unit result \<times> vault" where
  "bulk_delete x now u d req w =
     attempt (check_that (bd_folders req = [] \<or>
         row_count (\<lambda>fo. fo_id fo \<in> set (bd_folders req) \<and> fo_user fo = u) (t_folders w) = length (bd_folders req))
       NotFound) w (\<lambda>_.
     let ids = (if bd_folders req \<noteq> [] then subtree w (bd_folders req) u else []) in
     attempt (check_that (\<not> bd_permanent req \<or> bd_files req = [] \<or>
         row_count (\<lambda>f. f_id f \<in> set (bd_files req) \<and> f_user f = u) (t_files w) = length (bd_files req))
       NotFound) w (\<lambda>_.
     case (if bd_permanent req then bulk_purge now u req ids w else ([], bulk_trash now u req ids w)) of
       (keys, w1) \<Rightarrow>
         attempt_sql (audit_log now (Some u) (Some d)
             (if bd_permanent req then ''bulk_permanent_delete'' else ''bulk_delete'')
             (JObj [(''file_ids'', JArr (map JUuid (bd_files req))),
                    (''folder_ids'', JArr (map JUuid (bd_folders req)))]) w1) w (\<lambda>w2.
         (Inr (), if keys \<noteq> [] then delete_objects_best_effort x keys w2 else w2))))"

definition trashed_tree :: "vault \<Rightarrow> uuid \<Rightarrow> uuid list" where
  "trashed_tree w u =
     rec_union (child_edges (\<lambda>fo. fo_user fo = u) (t_folders w))
       (map fo_id (filter (\<lambda>fo. fo_user fo = u \<and> fo_deleted_at fo \<noteq> None) (t_folders w)))"

definition empty_trash :: "ext \<Rightarrow> timestamp \<Rightarrow> uuid \<Rightarrow> vault \<Rightarrow> nat result \<times> vault" where
  "empty_trash x now u w =
     (let fids = map f_id (filter (\<lambda>f. f_user f = u \<and>
                   (f_deleted_at f \<noteq> None \<or> opt_in (f_folder f) (trashed_tree w u))) (t_files w))
      in case hard_delete_files now fids (Some u) w of
           ((n, keys), w1) \<Rightarrow>
             (Inr n, delete_objects_best_effort x keys
                (delete_folders (\<lambda>fo. fo_user fo = u \<and> fo_deleted_at fo \<noteq> None) w1)))"

subsection \<open>Contracts\<close>

text \<open>Changing a live file of \<open>u\<close>, with its folder kept or set to a live folder of \<open>u\<close>.\<close>

lemma refile_inv:
  assumes "vault_inv w" and "\<And>f. f_id (g f) = f_id f" "\<And>f. f_current (g f) = f_current f"
    and "\<And>f d. f_folder (g f) = Some d \<Longrightarrow> f_folder f = Some d \<or> has_row (live_folder d u) (t_folders w)"
  shows "vault_inv (w\<lparr>t_files := upd P g (t_files w)\<rparr>)"
  using assms(4) by (intro upd_files_inv [OF assms(1)]) (fastforce simp: assms(2,3) live_folder_def)+

lemma refile_good:
  assumes sys: "system_inv now w"
    and g: "\<And>f. f_id (g f) = f_id f" "\<And>f. f_current (g f) = f_current f" "\<And>f. f_user (g f) = f_user f"
      "\<And>f. f_deleted_at (g f) = f_deleted_at f"
    and folder: "\<And>f d. f_folder (g f) = Some d \<Longrightarrow> f_folder f = Some d \<or> has_row (live_folder d u) (t_folders w)"
  shows "good_step now u w (w\<lparr>t_files := upd (live_file fid u) g (t_files w)\<rparr>)" (is "good_step now u w ?w'")
proof (rule good_stepI)
  note I = system_invD [OF sys]
  have fos: "t_folders ?w' = t_folders w" and fs: "t_files ?w' = upd (live_file fid u) g (t_files w)" by simp_all
  have tgt: "fo_user p = u \<and> fo_deleted_at p = None" if "has_row (live_folder (fo_id p) u) (t_folders w)" "p \<in> set (t_folders w)" for p
    using that ukeyD [OF vault_invD(1) [OF I(1)]] by (fastforce simp: live_folder_def)
  have keep: "f_user (if live_file fid u f then g f else f) = f_user f"
    "f_deleted_at (if live_file fid u f then g f else f) = f_deleted_at f" for f by (simp_all add: g)
  have par: "f_folder f = Some (fo_id p) \<or> live_file fid u f \<and> fo_user p = u \<and> fo_deleted_at p = None"
    if "f_folder (if live_file fid u f then g f else f) = Some (fo_id p)" "p \<in> set (t_folders w)" for f p
    using that folder [of f "fo_id p"] tgt [of p] by (auto split: if_splits)
  have "tenant_ok ?w'"
    unfolding tenant_ok_def fos fs ball_upd keep
  proof (intro ballI conjI impI, goal_cases)
    case (1 p c)
    then show ?case using tenant_okD(1) [OF I(4) 1(1,2)] by blast
  next
    case (2 p f)
    then show ?case using par [of f p] tenant_okD(2) [OF I(4) 2(1,2)] by (auto simp: live_file_def)
  qed
  moreover have "trash_ok ?w'"
    unfolding trash_ok_def fos fs ball_upd keep
  proof (intro ballI conjI impI, goal_cases)
    case (1 p c)
    then show ?case using trash_okD(1) [OF I(5) 1(1,2)] by blast
  next
    case (2 p f)
    then show ?case using par [of f p] trash_okD(2) [OF I(5) 2(1,2)] by (auto simp: live_file_def)
  qed
  moreover have "forest ?w'" using I(6) by (simp add: forest_def child_rel_def)
  moreover have "clock_ok now ?w'"
    using I(3) by (rule clock_ok_mono) (auto simp: image_upd_keep g)
  ultimately show "system_inv now ?w'"
    using refile_inv [OF I(1) g(1,2) folder] by (simp add: system_inv_def tree_inv_def)
  show "isolated u w ?w'" by (rule upd_files_isolated) (simp_all add: live_file_def g)
  show "keys_safe w ?w'" by (rule keys_safe_cong) simp_all
qed

lemma update_file_ok:
  assumes "update_file x t u fid req w = (Inr r, w')"
  obtains meta nonce ev where "decode_opt x (uf_metadata req) = Inr meta" "decode_opt x (uf_nonce req) = Inr nonce"
    "has_row (live_file fid u) (t_files w)" "(uf_metadata req \<noteq> None) = (uf_nonce req \<noteq> None)"
    "\<And>n. nonce = Some n \<Longrightarrow> length n = 24"
    "\<And>d. uf_folder req = Some (Some d) \<Longrightarrow> has_row (live_folder d u) (t_folders w)"
    "w' = file_broadcast u ev (w\<lparr>t_files := upd (live_file fid u)
       (\<lambda>f. f\<lparr>f_metadata := (case meta of Some m \<Rightarrow> m | None \<Rightarrow> f_metadata f),
               f_nonce := (case nonce of Some n \<Rightarrow> n | None \<Rightarrow> f_nonce f),
               f_folder := (case uf_folder req of Some d \<Rightarrow> d | None \<Rightarrow> f_folder f),
               f_updated_at := t\<rparr>) (t_files w)\<rparr>)"
  using assms unfolding update_file_def
  by (auto simp: attempt_oks Let_def decode_opt_def split: option.splits)

lemma update_file_err: "update_file x t u fid req w = (Inl e, w') \<Longrightarrow> w' = w"
  unfolding update_file_def by (auto simp: attempt_errs Let_def split: option.splits)

lemma move_file_ok:
  assumes "move_file x t u d fid target w = (Inr r, w')"
  obtains ev ev' meta where "has_row (live_file fid u) (t_files w)"
    "\<And>p. target = Some p \<Longrightarrow> has_row (live_folder p u) (t_folders w)"
    "w' = file_broadcast u ev (audit_log_ok t (Some u) (Some d) ev' meta
       (w\<lparr>t_files := upd (live_file fid u) (\<lambda>f. f\<lparr>f_folder := target, f_updated_at := t\<rparr>) (t_files w)\<rparr>))"
  using assms unfolding move_file_def
  by (auto simp: attempt_oks Let_def split: option.splits)

lemma move_file_err: "move_file x t u d fid target w = (Inl e, w') \<Longrightarrow> w' = w"
  unfolding move_file_def by (auto simp: attempt_errs Let_def split: option.splits)

interpretation update_file: tenant_transaction
  "\<lambda>w r w'. update_file x t u fid req w = (r, w')" now u
proof (unfold_locales, goal_cases)
  case (1 w e w')
  then show ?case by (auto dest: update_file_err)
next
  case (2 w r w')
  from 2(2) show ?case
    by (rule update_file_ok) (use 2(1) in \<open>auto intro!: refile_inv [where u = u] split: option.splits\<close>)
next
  case (3 w r w')
  from 3(2) show ?case
    by (rule update_file_ok) (use 3(1) in \<open>auto simp: quiet_good intro!: refile_good split: option.splits\<close>)
qed

interpretation move_file: tenant_transaction
  "\<lambda>w r w'. move_file x t u d fid target w = (r, w')" now u
proof (unfold_locales, goal_cases)
  case (1 w e w')
  then show ?case by (auto dest: move_file_err)
next
  case (2 w r w')
  from 2(2) show ?case
    by (rule move_file_ok) (use 2(1) in \<open>auto intro!: refile_inv [where u = u]\<close>)
next
  case (3 w r w')
  from 3(2) show ?case
    by (rule move_file_ok) (use 3(1) in \<open>auto simp: quiet_good intro!: refile_good\<close>)
qed

text \<open>Restoring a version is the activation that completes an upload.\<close>

lemma upd_deactivate:
  "upd (\<lambda>v. v_id v = vid) (\<lambda>v. v\<lparr>v_active := True\<rparr>) (upd (\<lambda>v. v_file v = fid) (\<lambda>v. v\<lparr>v_active := False\<rparr>) vs) =
   upd (\<lambda>v. v_id v = vid) (\<lambda>v. v\<lparr>v_active := True\<rparr>)
     (upd (\<lambda>v. v_file v = fid \<and> v_active v \<and> v_id v \<noteq> vid) (\<lambda>v. v\<lparr>v_active := False\<rparr>) vs)"
  by (induction vs) (auto simp: upd_def)

lemma restore_version_cases:
  assumes "restore_version t u d fid vid w = (res, w')"
  obtains (same) "w' = w"
  | (restored) v w4 ev meta ev' where "v \<in> set (t_versions w)" "v_id v = vid" "v_file v = fid" "owner_file w u fid" "res = Inr ()"
      "audit_log t (Some u) (Some d) ev meta (activate_version t vid fid w) = Inr w4" "w' = file_broadcast u ev' w4"
proof -
  let ?find = "find (\<lambda>v. v_id v = vid \<and> v_file v = fid \<and> has_row (live_file fid u) (t_files w)) (t_versions w)"
  have act: "w\<lparr>t_versions := upd (\<lambda>v. v_id v = vid) (\<lambda>v. v\<lparr>v_active := True\<rparr>)
        (upd (\<lambda>v. v_file v = fid) (\<lambda>v. v\<lparr>v_active := False\<rparr>) (t_versions w)),
      t_files := upd (\<lambda>f. f_id f = fid) (\<lambda>f. f\<lparr>f_current := Some vid, f_updated_at := t\<rparr>) (t_files w)\<rparr>
    = activate_version t vid fid w"
    by (simp add: activate_version_def upd_deactivate)
  show ?thesis
  proof (cases ?find)
    case None
    with assms show ?thesis by (intro same) (auto simp: restore_version_def)
  next
    case (Some v)
    then have v: "v \<in> set (t_versions w)" "v_id v = vid" "v_file v = fid" "owner_file w u fid"
      by (auto dest!: find_Some_in simp: owner_file_def live_file_def)
    have "w' = w \<or> (\<exists>w4 ev'. audit_log t (Some u) (Some d) ''file_version_restored''
        (JObj [(''file_id'', JUuid fid), (''version_id'', JUuid vid)]) (activate_version t vid fid w) = Inr w4 \<and>
        w' = file_broadcast u ev' w4 \<and> res = Inr ())"
      using assms unfolding restore_version_def Some option.case Let_def act [symmetric]
      by (auto simp: attempt_sql_def split: if_splits sum.splits)
    then show ?thesis using that v by blast
  qed
qed

interpretation restore_version: safe_operation
  "\<lambda>w r w'. restore_version t u d fid vid w = (r, w')" now u
proof -
  have good: "good_step now u w w'" if sys: "system_inv now w" and run: "restore_version t u d fid vid w = (r, w')" for w w' r
    using run
  proof (cases rule: restore_version_cases)
    case same
    then show ?thesis using sys by (simp add: good_step_refl)
  next
    case (restored v w4 ev meta ev')
    show ?thesis
      unfolding restored(7) quiet_good audit_good [OF restored(6)] by (rule activate_version_good [OF sys restored(1-4)])
  qed
  moreover have "vault_inv w'" if inv: "vault_inv w" and run: "restore_version t u d fid vid w = (r, w')" for w w' r
    using run
  proof (cases rule: restore_version_cases)
    case same
    then show ?thesis using inv by simp
  next
    case (restored v w4 ev meta ev')
    show ?thesis
      using activate_version_steps(4) [OF inv restored(1-3)] by (simp add: restored(7) vault_inv_audit [OF restored(6)])
  qed
  ultimately show "safe_operation (\<lambda>w r w'. restore_version t u d fid vid w = (r, w')) now u"
    by unfold_locales (auto simp: good_step_def)
qed

lemma delete_version_cases:
  assumes "delete_version x t u fid vid w = (res, w')"
  obtains (same) "w' = w"
  | (deleted) v w3 ev meta ks where "v \<in> set (t_versions w)" "v_id v = vid" "v_file v = fid" "owner_file w u fid" "\<not> v_active v"
      "audit_log t (Some u) None ev meta (delete_versions (\<lambda>v. v_id v = vid) (delete_chunks (\<lambda>c. c_version c = vid) w)) = Inr w3"
      "w' = delete_objects_best_effort x ks w3" "res = Inr ()"
proof -
  let ?find = "find (\<lambda>v. v_id v = vid \<and> v_file v = fid \<and> has_row (live_file fid u) (t_files w)) (t_versions w)"
  show ?thesis
  proof (cases ?find)
    case None
    with assms show ?thesis by (intro same) (auto simp: delete_version_def)
  next
    case (Some v)
    then have v: "v \<in> set (t_versions w)" "v_id v = vid" "v_file v = fid" "owner_file w u fid"
      by (auto dest!: find_Some_in simp: owner_file_def live_file_def)
    have "w' = w \<or> \<not> v_active v \<and> (\<exists>w3. audit_log t (Some u) None ''file_version_deleted''
        (JObj [(''file_id'', JUuid fid), (''version_id'', JUuid vid)])
        (delete_versions (\<lambda>v. v_id v = vid) (delete_chunks (\<lambda>c. c_version c = vid) w)) = Inr w3 \<and>
        w' = delete_objects_best_effort x (map c_key (filter (\<lambda>c. c_version c = vid) (t_chunks w))) w3 \<and> res = Inr ())"
      using assms unfolding delete_version_def Some option.case Let_def
      by (auto simp: attempt_sql_def split: if_splits sum.splits)
    then show ?thesis using that v by blast
  qed
qed

text \<open>
  Deleting a version keeps every promise but the last: its keys are handed to the best-effort
  delete only.
\<close>

interpretation delete_version: tenant_operation
  "\<lambda>w r w'. delete_version x t u fid vid w = (r, w')" now u
proof -
  have tenant: "system_inv now w' \<and> isolated u w w'"
    if sys: "system_inv now w" and run: "delete_version x t u fid vid w = (r, w')" for w w' r
    using run
  proof (cases rule: delete_version_cases)
    case same
    then show ?thesis using sys by simp
  next
    case (deleted v w3 ev meta ks)
    let ?w1 = "delete_chunks (\<lambda>c. c_version c = vid) w"
    let ?w2 = "delete_versions (\<lambda>v. v_id v = vid) ?w1"
    have "owner_version w u vid" using deleted(1-4) by (auto simp: owner_version_def)
    then have 1: "system_inv now ?w1" "isolated u w ?w1"
      by (auto intro: delete_chunks_tenant [OF sys, where u = u])
    have "owner_file ?w1 u (v_file a)" if "a \<in> set (t_versions ?w1)" "v_id a = vid" for a
    proof -
      have "a = v" using that deleted(1,2) by (intro ukeyD [OF vault_invD(3) [OF system_invD(1) [OF sys]]]) auto
      then show ?thesis using deleted(3,4) by (simp add: owner_file_def)
    qed
    note V = delete_versions_tenant [OF 1(1), where u = u, OF this]
    have "system_inv now ?w2" "isolated u w ?w2" using V 1(2) by (auto intro: isolated_trans)
    then show ?thesis
      by (simp add: deleted(7) best_effort.system best_effort.iso audit_iso [OF deleted(6)]
          same_tables_system [OF audit_log_frame [OF deleted(6)]])
  qed
  moreover have "vault_inv w'" if inv: "vault_inv w" and run: "delete_version x t u fid vid w = (r, w')" for w w' r
    using run
  proof (cases rule: delete_version_cases)
    case same
    then show ?thesis using inv by simp
  next
    case (deleted v w3 ev meta ks)
    then show ?thesis using inv by (simp add: vault_inv_audit [OF deleted(6)] inv_intro)
  qed
  ultimately show "tenant_operation (\<lambda>w r w'. delete_version x t u fid vid w = (r, w')) now u"
    by unfold_locales auto
qed

text \<open>Trashing single files: a live file lies in no trashed folder, so any stamp will do.\<close>

lemma trash_files_good:
  assumes sys: "system_inv now w" and P: "\<And>f. P f \<Longrightarrow> f_user f = u \<and> f_deleted_at f = None"
  shows "good_step now u w (w\<lparr>t_files := upd P (\<lambda>f. f\<lparr>f_deleted_at := Some now, f_updated_at := now\<rparr>) (t_files w)\<rparr>)"
    (is "good_step now u w ?w'")
proof (rule good_stepI)
  note I = system_invD [OF sys]
  let ?g = "\<lambda>f. f\<lparr>f_deleted_at := Some now, f_updated_at := now\<rparr>"
  have fos: "t_folders ?w' = t_folders w" and fs: "t_files ?w' = upd P ?g (t_files w)" by simp_all
  have keep: "f_user (if P f then ?g f else f) = f_user f" "f_folder (if P f then ?g f else f) = f_folder f" for f by simp_all
  have "tenant_ok ?w'" using I(4) unfolding tenant_ok_def fos fs ball_upd keep .
  moreover have "trash_ok ?w'"
    unfolding trash_ok_def fos fs ball_upd keep
  proof (intro ballI conjI impI, goal_cases)
    case (1 p c)
    then show ?case using trash_okD(1) [OF I(5) 1(1,2)] by blast
  next
    case (2 p f)
    then have "trash_le (fo_deleted_at p) (f_deleted_at f)" using trash_okD(2) [OF I(5) 2(1,2)] by blast
    then show ?case using P [of f] by (cases "fo_deleted_at p") auto
  qed
  moreover have "forest ?w'" using I(6) by (simp add: forest_def child_rel_def)
  moreover have "clock_ok now ?w'"
    by (rule clock_ok_upd [OF I(3), where P = "\<lambda>_. False" and Q = P and h = ?g]) (simp_all add: upd_none)
  moreover have "vault_inv ?w'" by (rule upd_files_inv [OF I(1)]) auto
  ultimately show "system_inv now ?w'" by (simp add: system_inv_def tree_inv_def)
  show "isolated u w ?w'" using P by (intro upd_files_isolated) auto
  show "keys_safe w ?w'" by (rule keys_safe_cong) simp_all
qed

lemma delete_file_ok:
  assumes "delete_file t u d fid w = (Inr r, w')"
  obtains (same) "w' = w" "has_row (trashed_file fid u) (t_files w)"
  | (trashed) ev meta where "has_row (live_file fid u) (t_files w)" "audit_log t (Some u) (Some d) ev meta (w\<lparr>t_files := upd (live_file fid u)
       (\<lambda>f. f\<lparr>f_deleted_at := Some t, f_updated_at := t\<rparr>) (t_files w)\<rparr>) = Inr w'"
  using assms unfolding delete_file_def Let_def
  by (auto simp: attempt_oks trashed_file_def split: if_splits)

lemma delete_file_err: "delete_file t u d fid w = (Inl e, w') \<Longrightarrow> w' = w"
  unfolding delete_file_def by (auto simp: attempt_errs Let_def split: if_splits)

interpretation delete_file: tenant_transaction
  "\<lambda>w r w'. delete_file now u d fid w = (r, w')" now u
proof (unfold_locales, goal_cases)
  case (1 w e w')
  then show ?case by (auto dest: delete_file_err)
next
  case (2 w r w')
  from 2(2) show ?case
  proof (cases rule: delete_file_ok)
    case same
    then show ?thesis using 2(1) by simp
  next
    case (trashed ev meta)
    show ?thesis unfolding vault_inv_audit [OF trashed(2)] by (rule upd_files_inv [OF 2(1)]) auto
  qed
next
  case (3 w r w')
  from 3(2) show ?case
  proof (cases rule: delete_file_ok)
    case same
    then show ?thesis using 3(1) by (simp add: good_step_refl)
  next
    case (trashed ev meta)
    show ?thesis
      unfolding audit_good [OF trashed(2)] by (rule trash_files_good [OF 3(1)]) (simp add: live_file_def)
  qed
qed

text \<open>The folders above a restored file.\<close>

definition file_chain :: "vault \<Rightarrow> uuid \<Rightarrow> uuid list" where
  "file_chain w fid =
     ancestors (t_folders w)
       (map fo_id (filter (\<lambda>fo. has_row (\<lambda>f. f_id f = fid \<and> f_folder f = Some (fo_id fo)) (t_files w)) (t_folders w)))"

lemma restore_file_ok:
  assumes "restore_file t u fid w = (Inr r, w')"
  obtains ev w1 where "has_row (trashed_file fid u) (t_files w)"
    "t_folders w1 = upd (\<lambda>fo. fo_id fo \<in> set (file_chain w fid) \<and> fo_deleted_at fo \<noteq> None)
       (\<lambda>fo. fo\<lparr>fo_deleted_at := None, fo_updated_at := t\<rparr>) (t_folders w)"
    "t_files w1 = upd (trashed_file fid u) (\<lambda>f. f\<lparr>f_deleted_at := None, f_updated_at := t\<rparr>) (t_files w)"
    "t_versions w1 = t_versions w" "t_chunks w1 = t_chunks w" "t_pending w1 = t_pending w"
    "w' = file_broadcast u ev w1"
proof -
  let ?w1 = "untrash_files t (trashed_file fid u) w"
  let ?w2 = "untrash_folders t (\<lambda>fo. fo_id fo \<in> set (file_chain ?w1 fid) \<and> fo_deleted_at fo \<noteq> None) ?w1"
  have "has_row (\<lambda>f. f_id f = fid \<and> f_folder f = Some i) (t_files ?w1) = has_row (\<lambda>f. f_id f = fid \<and> f_folder f = Some i) (t_files w)" for i
    by (simp add: untrash_files_def bex_upd if_distrib [of f_id] if_distrib [of f_folder] cong: if_cong)
  then have chain: "file_chain ?w1 fid = file_chain w fid"
    unfolding file_chain_def by (simp add: untrash_files_def)
  from assms have "has_row (trashed_file fid u) (t_files w)"
    and w': "w' = file_broadcast u (mk_event ''restored'' ''file'' fid (JObj [])) ?w2"
    unfolding restore_file_def Let_def file_chain_def by (auto split: if_splits)
  then show ?thesis
    by (intro that [OF _ _ _ _ _ _ w']) (simp_all add: chain, simp_all add: untrash_folders_def untrash_files_def)
qed

lemma restore_file_err: "restore_file t u fid w = (Inl e, w') \<Longrightarrow> w' = w"
  unfolding restore_file_def by (auto simp: Let_def split: if_splits)

lemma file_chain_owned:
  assumes vi: "vault_inv w" and tn: "tenant_ok w" and f: "has_row (trashed_file fid u) (t_files w)"
    and fo: "fo \<in> set (t_folders w)" "fo_id fo \<in> set (file_chain w fid)"
  shows "fo_user fo = u"
proof -
  from f have own: "owner_file w u fid" by (auto simp: owner_file_def trashed_file_def)
  let ?start = "map fo_id (filter (\<lambda>fo. has_row (\<lambda>f. f_id f = fid \<and> f_folder f = Some (fo_id fo)) (t_files w)) (t_folders w))"
  show ?thesis
  proof (rule ancestors_owned [OF vi tn _ fo(1) fo(2) [unfolded file_chain_def]])
    fix p q assume "p \<in> set ?start" "q \<in> set (t_folders w)" "fo_id q = p"
    then obtain g where "g \<in> set (t_files w)" "f_id g = fid" "f_folder g = Some (fo_id q)" by auto
    then show "fo_user q = u"
      using tenant_okD(2) [OF tn \<open>q \<in> set (t_folders w)\<close>] owner_row [OF vi own] by metis
  qed
qed

interpretation restore_file: tenant_transaction
  "\<lambda>w r w'. restore_file t u fid w = (r, w')" now u
proof (unfold_locales, goal_cases)
  case (1 w e w')
  then show ?case by (auto dest: restore_file_err)
next
  case (2 w r w')
  from 2(2) show ?case by (rule restore_file_ok) (use untrash_inv [OF 2(1)] in simp)
next
  case (3 w r w')
  note I = system_invD [OF 3(1)]
  from 3(2) show ?case
  proof (rule restore_file_ok)
    fix ev w1
    let ?P = "\<lambda>fo. fo_id fo \<in> set (file_chain w fid) \<and> fo_deleted_at fo \<noteq> None"
    assume row: "has_row (trashed_file fid u) (t_files w)"
      and fos: "t_folders w1 = upd ?P (\<lambda>fo. fo\<lparr>fo_deleted_at := None, fo_updated_at := t\<rparr>) (t_folders w)"
      and fs: "t_files w1 = upd (trashed_file fid u) (\<lambda>f. f\<lparr>f_deleted_at := None, f_updated_at := t\<rparr>) (t_files w)"
      and vs: "t_versions w1 = t_versions w" "t_chunks w1 = t_chunks w" "t_pending w1 = t_pending w"
      and w': "w' = file_broadcast u ev w1"
    have "good_step now u w w1"
    proof (rule good_stepI)
      have "tree_inv w1"
      proof (rule untrash_tree_inv [OF I(2) fos fs], goal_cases)
        case (1 p c)
        then show ?case using ancestors_parent [OF _ 1(2,3)] by (auto simp: file_chain_def)
      next
        case (2 p f)
        then have "fo_id p \<in> set (file_chain w fid)"
          unfolding file_chain_def by (intro ancestors_start) (auto simp: trashed_file_def intro!: image_eqI [of _ _ p])
        then show ?case by blast
      qed
      moreover have "clock_ok now w1" by (rule clock_ok_upd [OF I(3) fos fs]) auto
      ultimately show "system_inv now w1" using untrash_inv [OF I(1) fos fs vs] by (simp add: system_inv_def)
      let ?w1 = "w\<lparr>t_folders := t_folders w1\<rparr>"
      let ?w2 = "?w1\<lparr>t_files := upd (trashed_file fid u) (\<lambda>f. f\<lparr>f_deleted_at := None, f_updated_at := t\<rparr>) (t_files ?w1)\<rparr>"
      have "isolated u w ?w1"
        unfolding fos using file_chain_owned [OF I(1,4) row] by (intro upd_folders_isolated) auto
      moreover have "isolated u ?w1 ?w2"
        by (intro upd_files_isolated) (auto simp: trashed_file_def)
      ultimately have "isolated u w ?w2" by (rule isolated_trans)
      then show "isolated u w w1" using isolated_right_cong [of w1 ?w2 u w] fs vs by simp
      show "keys_safe w w1" by (rule keys_safe_cong) (simp_all add: vs)
    qed
    then show "good_step now u w w'" by (simp add: w' quiet_good)
  qed
qed

subsection \<open>Purging\<close>

lemma permanently_delete_file_ok:
  assumes "permanently_delete_file x t u fid w = (Inr r, w')"
  obtains n ks w1 w2 ev ev' meta where "owner_file w u fid" "hard_delete_files t [fid] (Some u) w = ((n, ks), w1)"
    "audit_log t (Some u) None ev meta w1 = Inr w2" "w' = file_broadcast u ev' (delete_objects_best_effort x ks w2)"
proof -
  from assms obtain f where f: "find (\<lambda>f. f_id f = fid \<and> f_user f = u) (t_files w) = Some f"
    by (auto simp: permanently_delete_file_def split: option.splits)
  obtain n ks w1 where h: "hard_delete_files t [fid] (Some u) w = ((n, ks), w1)" by (rule split3)
  have own: "owner_file w u fid" using find_Some_in [OF f] by (auto simp: owner_file_def)
  show ?thesis
    by (rule exE [OF assms [unfolded permanently_delete_file_def f option.case h prod.case attempt_oks]])
      (elim conjE Pair_inject, rule that [OF own h], assumption, erule sym)
qed

lemma permanently_delete_file_err: "permanently_delete_file x t u fid w = (Inl e, w') \<Longrightarrow> w' = w"
  by (auto simp: permanently_delete_file_def attempt_errs split: option.splits prod.splits)

interpretation permanently_delete_file: tenant_transaction
  "\<lambda>w r w'. permanently_delete_file x t u fid w = (r, w')" now u
proof (unfold_locales, goal_cases)
  case (1 w e w')
  then show ?case by (auto dest: permanently_delete_file_err)
next
  case (2 w r w')
  from 2(2) show ?case
  proof (rule permanently_delete_file_ok)
    fix n ks w1 w2 ev ev' meta
    assume h: "hard_delete_files t [fid] (Some u) w = ((n, ks), w1)" and log: "audit_log t (Some u) None ev meta w1 = Inr w2"
      and w': "w' = file_broadcast u ev' (delete_objects_best_effort x ks w2)"
    have "vault_inv w1" by (rule hard_delete_result_inv [OF h 2(1)])
    then show "vault_inv w'" by (simp add: w' vault_inv_audit [OF log])
  qed
next
  case (3 w r w')
  from 3(2) show ?case
  proof (rule permanently_delete_file_ok)
    fix n ks w1 w2 ev ev' meta
    assume own: "owner_file w u fid" and h: "hard_delete_files t [fid] (Some u) w = ((n, ks), w1)"
      and log: "audit_log t (Some u) None ev meta w1 = Inr w2"
      and w': "w' = file_broadcast u ev' (delete_objects_best_effort x ks w2)"
    show "good_step now u w w'"
      unfolding w' quiet_good audit_good [OF log]
      by (rule hard_delete_good [OF 3(1) _ h]) (use owner_row [OF system_invD(1) [OF 3(1)] own] in auto)
  qed
qed

text \<open>
  The ownership count of \<open>bulk_delete\<close>: when as many owned rows match as identifiers were
  given, every row that matches is owned.
\<close>

lemma owned_count:
  assumes "ukey k rs" and "row_count (\<lambda>r. k r \<in> set ids \<and> own r) rs = length ids"
    and "r \<in> set rs" and "k r \<in> set ids"
  shows "own r"
proof (rule ccontr)
  assume no: "\<not> own r"
  let ?A = "{r \<in> set rs. k r \<in> set ids \<and> own r}"
  have inj: "inj_on k (set rs)" and d: "distinct rs"
    using assms(1) by (auto simp: ukey_def distinct_map)
  have "card ?A = length ids"
    using assms(2) d distinct_card [of "filter (\<lambda>r. k r \<in> set ids \<and> own r) rs"] by (simp add: row_count_def)
  moreover have "card (insert r ?A) = card (k ` insert r ?A)"
    using inj assms(3) by (intro card_image [symmetric] inj_on_subset [OF inj]) auto
  moreover have "card (k ` insert r ?A) \<le> card (set ids)" using assms(4) by (intro card_mono) auto
  ultimately show False using no card_length [of ids] by simp
qed

lemma bulk_delete_cases:
  assumes "bulk_delete x t u d req w = (res, w')"
  obtains (same) "w' = w"
  | (finished) ids ks w1 w2 ev meta where
      "ids = (if bd_folders req \<noteq> [] then subtree w (bd_folders req) u else [])"
      "bd_permanent req \<Longrightarrow> bd_files req = [] \<or>
         row_count (\<lambda>f. f_id f \<in> set (bd_files req) \<and> f_user f = u) (t_files w) = length (bd_files req)"
      "(ks, w1) = (if bd_permanent req then bulk_purge t u req ids w else ([], bulk_trash t u req ids w))"
      "audit_log t (Some u) (Some d) ev meta w1 = Inr w2"
      "w' = (if ks \<noteq> [] then delete_objects_best_effort x ks w2 else w2)"
proof -
  let ?ids = "if bd_folders req \<noteq> [] then subtree w (bd_folders req) u else []"
  obtain ks w1 where k: "(if bd_permanent req then bulk_purge t u req ?ids w else ([], bulk_trash t u req ?ids w)) = (ks, w1)"
    by (metis surj_pair)
  show ?thesis
  proof (cases "w' = w")
    case False
    with assms k show ?thesis
      unfolding bulk_delete_def Let_def
      by (auto simp: attempt_def attempt_sql_def check_that_def split: sum.splits if_splits intro!: finished [OF refl _ k [symmetric]])
  qed (rule same)
qed

lemma bulk_purge_inv:
  assumes "vault_inv w" and "bulk_purge t u req ids w = (ks, w1)"
  shows "vault_inv w1"
proof -
  let ?fids = "remdups_adj (sort ((if ids \<noteq> [] then map f_id (filter (\<lambda>f. opt_in (f_folder f) ids \<and> f_user f = u) (t_files w)) else []) @ bd_files req))"
  obtain n ks' w' where h: "hard_delete_files t ?fids (Some u) w = ((n, ks'), w')" by (rule split3)
  have "vault_inv w'" by (rule hard_delete_result_inv [OF h assms(1)])
  then show ?thesis
    using assms(2) unfolding bulk_purge_def Let_def h prod.case by (auto intro!: delete_folders_inv split: if_splits)
qed

lemma bulk_purge_good:
  assumes sys: "system_inv now w" and run: "bulk_purge t u req ids w = (ks, w1)"
    and ids: "ids = [] \<or> ids = subtree w roots u"
    and own: "\<And>f. f \<in> set (t_files w) \<Longrightarrow> f_id f \<in> set (bd_files req) \<Longrightarrow> f_user f = u"
  shows "good_step now u w w1"
proof -
  let ?tree = "if ids \<noteq> [] then map f_id (filter (\<lambda>f. opt_in (f_folder f) ids \<and> f_user f = u) (t_files w)) else []"
  let ?fids = "remdups_adj (sort (?tree @ bd_files req))"
  have set: "set ?fids = set ?tree \<union> set (bd_files req)" by simp
  obtain n ks' w' where h: "hard_delete_files t ?fids (Some u) w = ((n, ks'), w')" by (rule split3)
  have own': "f_user f = u" if f: "f \<in> set (t_files w)" "f_id f \<in> set ?fids" for f
  proof (cases "f_id f \<in> set (bd_files req)")
    case True
    with f(1) show ?thesis by (rule own)
  next
    case False
    with f(2) set have "f_id f \<in> set ?tree" by blast
    then obtain g where "g \<in> set (t_files w)" "f_id g = f_id f" "f_user g = u" by (auto split: if_splits)
    then show ?thesis using ukeyD [OF vault_invD(2) [OF system_invD(1) [OF sys]] _ f(1)] by metis
  qed
  show ?thesis
  proof (cases "ids = []")
    case True
    then have "w1 = w'" using run h by (simp add: bulk_purge_def Let_def)
    then show ?thesis using hard_delete_good [OF sys own' h] by simp
  next
    case False
    then have w1: "w1 = delete_folders (\<lambda>fo. fo_id fo \<in> set ids \<and> fo_user fo = u)
        (w'\<lparr>t_shares := upd (\<lambda>s. sh_type s = ''folder'' \<and> sh_item s \<in> set ids \<and> sh_revoked_at s = None)
                                    (\<lambda>s. s\<lparr>sh_revoked_at := Some t\<rparr>) (t_shares w')\<rparr>)"
      using run unfolding bulk_purge_def Let_def h prod.case by simp
    from ids False have S: "ids = subtree w roots u" by simp
    show ?thesis
      unfolding w1 by (rule purge_subtree_good [OF sys h S own']) (use False in auto)
  qed
qed

lemma bulk_trash_good:
  assumes sys: "system_inv now w" and ids: "ids = [] \<or> ids = subtree w roots u"
  shows "good_step now u w (bulk_trash now u req ids w)"
proof -
  let ?w1 = "if ids \<noteq> [] then trash_files_in now ids (trash_folders now ids w) else w"
  have g: "good_step now u w ?w1" using trash_subtree_contract [OF sys] ids good_step_refl [OF sys] by auto
  have "good_step now u ?w1 (bulk_trash now u req ids w)"
  proof (cases "bd_files req = []")
    case True
    then show ?thesis using good_step_refl [OF good_step_system [OF g]] by (simp add: bulk_trash_def)
  next
    case False
    have "good_step now u ?w1 (?w1\<lparr>t_files := upd (\<lambda>f. f_id f \<in> set (bd_files req) \<and> f_user f = u \<and> f_deleted_at f = None)
                           (\<lambda>f. f\<lparr>f_deleted_at := Some now, f_updated_at := now\<rparr>) (t_files ?w1)\<rparr>)"
      by (rule trash_files_good [OF good_step_system [OF g]]) blast
    then show ?thesis using False by (simp add: bulk_trash_def Let_def)
  qed
  with g show ?thesis by (rule good_step_trans)
qed

lemma bulk_trash_inv: "vault_inv w \<Longrightarrow> vault_inv (bulk_trash t u req ids w)"
  unfolding bulk_trash_def Let_def by (auto intro!: upd_files_inv trash_inv)

interpretation bulk_delete: safe_operation
  "\<lambda>w r w'. bulk_delete x now u d req w = (r, w')" now u
proof -
  have "good_step now u w w'" if sys: "system_inv now w" and run: "bulk_delete x now u d req w = (r, w')" for w w' r
    using run
  proof (cases rule: bulk_delete_cases)
    case same
    then show ?thesis using sys by (simp add: good_step_refl)
  next
    case (finished ids ks w1 w2 ev meta)
    have ids: "ids = [] \<or> ids = subtree w (bd_folders req) u" using finished(1) by auto
    have "good_step now u w w1"
    proof (cases "bd_permanent req")
      case True
      have "f_user f = u" if f: "f \<in> set (t_files w)" "f_id f \<in> set (bd_files req)" for f
        using finished(2) [OF True] owned_count [OF vault_invD(2) [OF system_invD(1) [OF sys]] _ f] f(2) by force
      then show ?thesis
        by (intro bulk_purge_good [OF sys finished(3) [unfolded if_P [OF True], symmetric] ids])
    next
      case False
      then show ?thesis using finished(3) bulk_trash_good [OF sys ids] by simp
    qed
    then have "good_step now u w w2" by (simp add: audit_good [OF finished(4)])
    then show ?thesis by (simp add: finished(5) quiet_good)
  qed
  moreover have "vault_inv w'" if inv: "vault_inv w" and run: "bulk_delete x now u d req w = (r, w')" for w w' r
    using run
  proof (cases rule: bulk_delete_cases)
    case same
    then show ?thesis using inv by simp
  next
    case (finished ids ks w1 w2 ev meta)
    have "vault_inv w1"
      using finished(3) [symmetric] bulk_purge_inv [OF inv, of now u req ids ks w1] bulk_trash_inv [OF inv, of now u req ids]
      by (auto split: if_splits)
    then show ?thesis by (simp add: finished(5) vault_inv_audit [OF finished(4)])
  qed
  ultimately show "safe_operation (\<lambda>w r w'. bulk_delete x now u d req w = (r, w')) now u"
    by unfold_locales (auto simp: good_step_def)
qed

text \<open>Emptying the trash.\<close>

lemma trashed_closure:
  assumes "vault_inv w" and "tenant_ok w"
  shows "set (folder_closure (\<lambda>fo. fo_user fo = u \<and> fo_deleted_at fo \<noteq> None) (t_folders w)) = set (trashed_tree w u)"
    and "fo \<in> set (t_folders w) \<Longrightarrow> fo_id fo \<in> set (trashed_tree w u) \<Longrightarrow> fo_user fo = u"
    and "f \<in> set (t_files w) \<Longrightarrow> opt_in (f_folder f) (trashed_tree w u) \<Longrightarrow> f_user f = u"
proof -
  let ?roots = "map fo_id (filter (\<lambda>fo. fo_user fo = u \<and> fo_deleted_at fo \<noteq> None) (t_folders w))"
  have "fo_id fo \<in> set ?roots \<and> fo_user fo = u \<longleftrightarrow> fo_user fo = u \<and> fo_deleted_at fo \<noteq> None" if "fo \<in> set (t_folders w)" for fo
    unfolding key_in_filter [OF vault_invD(1) [OF assms(1)] that] by blast
  then have filter: "filter (\<lambda>fo. fo_id fo \<in> set ?roots \<and> fo_user fo = u) (t_folders w) =
      filter (\<lambda>fo. fo_user fo = u \<and> fo_deleted_at fo \<noteq> None) (t_folders w)"
    by (intro filter_cong) auto
  then have tree: "trashed_tree w u = subtree w ?roots u"
    unfolding trashed_tree_def subtree_def by simp
  show "fo \<in> set (t_folders w) \<Longrightarrow> fo_id fo \<in> set (trashed_tree w u) \<Longrightarrow> fo_user fo = u"
    unfolding tree by (rule subtree_owned [OF assms(1)])
  show "f \<in> set (t_files w) \<Longrightarrow> opt_in (f_folder f) (trashed_tree w u) \<Longrightarrow> f_user f = u"
    unfolding tree using subtree_file [OF assms(2)] by (auto simp: opt_in_iff)
  have "set (folder_closure (\<lambda>fo. fo_user fo = u \<and> fo_deleted_at fo \<noteq> None) (t_folders w)) = (child_rel w)\<^sup>* `` set ?roots"
    by (simp add: folder_closure_def set_rec_union child_edges_rel)
  also have "\<dots> = set (subtree w ?roots u)"
  proof
    have "owned_rel w u \<subseteq> child_rel w" by (auto simp: owned_rel_def child_rel_def)
    then show "set (subtree w ?roots u) \<subseteq> (child_rel w)\<^sup>* `` set ?roots"
      using rtrancl_mono [of "owned_rel w u" "child_rel w"] unfolding set_subtree by blast
    have "child_rel w `` set (subtree w ?roots u) \<subseteq> set (subtree w ?roots u)"
      using subtree_child [OF assms] by (auto simp: child_rel_def)
    then have "(child_rel w)\<^sup>* `` set (subtree w ?roots u) = set (subtree w ?roots u)" by (rule Image_closed_trancl)
    moreover have "set ?roots \<subseteq> set (subtree w ?roots u)" using subtree_root [of _ w u ?roots] by auto
    ultimately show "(child_rel w)\<^sup>* `` set ?roots \<subseteq> set (subtree w ?roots u)" by blast
  qed
  finally show "set (folder_closure (\<lambda>fo. fo_user fo = u \<and> fo_deleted_at fo \<noteq> None) (t_folders w)) = set (trashed_tree w u)"
    by (simp add: tree)
qed

lemma empty_trash_good:
  assumes sys: "system_inv now w" and run: "empty_trash x t u w = (r, w')"
  shows "good_step now u w w'"
proof -
  note I = system_invD [OF sys]
  let ?fids = "map f_id (filter (\<lambda>f. f_user f = u \<and> (f_deleted_at f \<noteq> None \<or> opt_in (f_folder f) (trashed_tree w u))) (t_files w))"
  let ?P = "\<lambda>fo. fo_user fo = u \<and> fo_deleted_at fo \<noteq> None"
  obtain n ks w1 where h: "hard_delete_files t ?fids (Some u) w = ((n, ks), w1)" by (rule split3)
  from run have w': "w' = delete_objects_best_effort x ks (delete_folders ?P (w1\<lparr>t_shares := t_shares w1\<rparr>))"
    unfolding empty_trash_def Let_def h prod.case by simp
  note T = trashed_closure [OF I(1,4), where u = u]
  show ?thesis
    unfolding w' quiet_good
  proof (rule purge_good [OF sys h])
    show "f_user f = u" if "f \<in> set (t_files w)" "f_id f \<in> set ?fids" for f
      using that unfolding key_in_filter [OF vault_invD(2) [OF I(1)] that(1)] by blast
    show "f_id f \<in> set ?fids" if "f \<in> set (t_files w)" "opt_in (f_folder f) (folder_closure ?P (t_folders w))" for f
    proof -
      have "opt_in (f_folder f) (trashed_tree w u)" using that(2) unfolding opt_in_iff T(1) .
      then show ?thesis using T(3) that(1) by auto
    qed
    show "fo_user fo = u" if "fo \<in> set (t_folders w)" "fo_id fo \<in> set (folder_closure ?P (t_folders w))" for fo
      using that T(1,2) by blast
  qed
qed

interpretation empty_trash: safe_operation "\<lambda>w r w'. empty_trash x t u w = (r, w')" now u
proof -
  have "vault_inv w'" if inv: "vault_inv w" and run: "empty_trash x t u w = (r, w')" for w w' r
  proof -
    let ?fids = "map f_id (filter (\<lambda>f. f_user f = u \<and> (f_deleted_at f \<noteq> None \<or> opt_in (f_folder f) (trashed_tree w u))) (t_files w))"
    obtain n ks w1 where h: "hard_delete_files t ?fids (Some u) w = ((n, ks), w1)" by (rule split3)
    have "vault_inv w1" by (rule hard_delete_result_inv [OF h inv])
    then show ?thesis using run unfolding empty_trash_def Let_def h prod.case by (auto intro: delete_folders_inv)
  qed
  then show "safe_operation (\<lambda>w r w'. empty_trash x t u w = (r, w')) now u"
    by unfold_locales (auto simp: good_step_def dest: empty_trash_good)
qed

end
