(* ===== verification/Shares.thy ===== *)
theory Shares
  imports Files_Manage
begin

text \<open>
  The share operations of \<open>src/features/files/service.rs\<close>: creating, opening, listing and
  revoking a share, and the manifest of a file in a shared folder. Anyone may open a share,
  so these are the operations that read rows without a user of their own; the gate they
  share is \<open>find_share\<close>.
\<close>

subsection \<open>Requests and responses\<close>

record create_share_request =
  csr_item_type :: string
  csr_payload :: string
  csr_nonce :: string
  csr_header :: "string option"
  csr_item_id :: uuid
  csr_expires_at :: "timestamp option"
  csr_access_type :: "string option"

record get_share_response =
  gs_share_id :: uuid
  gs_item_type :: string
  gs_payload :: string
  gs_nonce :: string
  gs_header :: "string option"
  gs_chunks :: "download_chunk_info list option"
  gs_total_size :: "int option"
  gs_access_type :: string

record share_list_item =
  sl_share_id :: uuid
  sl_item_id :: uuid
  sl_item_type :: string
  sl_created_at :: timestamp
  sl_expires_at :: "timestamp option"
  sl_revoked_at :: "timestamp option"
  sl_access_type :: string

subsection \<open>Creating and revoking\<close>

text \<open>The share row that \<open>create_share\<close> inserts, once its payload is decoded.\<close>

definition new_share ::
  "timestamp \<Rightarrow> uuid \<Rightarrow> uuid \<Rightarrow> uuid \<Rightarrow> create_share_request \<Rightarrow> bytes \<Rightarrow> bytes \<Rightarrow> bytes option \<Rightarrow> share_row" where
  "new_share now sid u item req payload nonce header =
     \<lparr>sh_id = sid, sh_owner = u, sh_item = item, sh_type = csr_item_type req, sh_payload = payload,
      sh_nonce = nonce, sh_header = header, sh_created_at = now, sh_expires_at = csr_expires_at req,
      sh_revoked_at = None, sh_access = (case csr_access_type req of None \<Rightarrow> ''public'' | Some a \<Rightarrow> a)\<rparr>"

definition create_share ::
  "ext \<Rightarrow> timestamp \<Rightarrow> uuid \<Rightarrow> uuid \<Rightarrow> uuid \<Rightarrow> create_share_request \<Rightarrow> vault \<Rightarrow> uuid result \<times> vault" where
  "create_share x now sid u item req w =
     attempt (check_that (if csr_item_type req = ''file'' then has_row (live_file item u) (t_files w)
                          else has_row (live_folder item u) (t_folders w)) NotFound) w (\<lambda>_.
     attempt (decode_b64 x (csr_payload req)) w (\<lambda>payload.
     attempt (decode_b64 x (csr_nonce req)) w (\<lambda>nonce.
     attempt (decode_opt x (csr_header req)) w (\<lambda>header.
     attempt_sql (insert_share (new_share now sid u item req payload nonce header) w) w (\<lambda>w1.
     (Inr sid, audit_log_ok now (Some u) None ''share_created''
                 (JObj [(''share_id'', JUuid sid), (''item_id'', JUuid item),
                        (''item_type'', JStr (csr_item_type req))]) w1))))))"

definition revoke_share :: "timestamp \<Rightarrow> uuid \<Rightarrow> uuid \<Rightarrow> vault \<Rightarrow> unit result \<times> vault" where
  "revoke_share now u sid w =
     (let P = (\<lambda>s. sh_id s = sid \<and> sh_owner s = u \<and> sh_revoked_at s = None)
      in attempt (check_that (row_count P (t_shares w) \<noteq> 0) NotFound) w (\<lambda>_.
         (Inr (), audit_log_ok now (Some u) None ''share_revoked'' (JObj [(''share_id'', JUuid sid)])
                    (w\<lparr>t_shares := upd P (\<lambda>s. s\<lparr>sh_revoked_at := Some now\<rparr>) (t_shares w)\<rparr>))))"

definition list_shares :: "uuid \<Rightarrow> vault \<Rightarrow> share_list_item list" where
  "list_shares u w =
     map (\<lambda>s. \<lparr>sl_share_id = sh_id s, sl_item_id = sh_item s, sl_item_type = sh_type s,
               sl_created_at = sh_created_at s, sl_expires_at = sh_expires_at s,
               sl_revoked_at = sh_revoked_at s, sl_access_type = sh_access s\<rparr>)
       (sort_desc sh_created_at (filter (\<lambda>s. sh_owner s = u) (t_shares w)))"

subsection \<open>Opening a share\<close>

text \<open>\<open>revoked_at IS NULL AND (expires_at IS NULL OR expires_at > now())\<close>.\<close>

definition share_open :: "timestamp \<Rightarrow> share_row \<Rightarrow> bool" where
  "share_open now s \<longleftrightarrow>
     sh_revoked_at s = None \<and> (case sh_expires_at s of None \<Rightarrow> True | Some t \<Rightarrow> now < t)"

definition find_share :: "timestamp \<Rightarrow> uuid \<Rightarrow> vault \<Rightarrow> share_row option" where
  "find_share now sid w = find (\<lambda>s. sh_id s = sid \<and> share_open now s) (t_shares w)"

text \<open>A NULL column decoded into a type that is not an \<open>Option\<close>.\<close>

definition unexpected_null :: sqlx_error where
  "unexpected_null = OtherSqlx ''unexpected null''"

text \<open>
  The state of the shared item: the version to serve for a file, nothing for a folder. The
  row is decoded before its columns are looked at, so that a file without a current
  version is a decoding error, trashed or not.
\<close>

definition shared_item :: "share_row \<Rightarrow> vault \<Rightarrow> uuid option result" where
  "shared_item s w =
     (if sh_type s = ''file'' then
        (case find (\<lambda>f. f_id f = sh_item s) (t_files w) of
           None \<Rightarrow> Inl NotFound
         | Some f \<Rightarrow>
             (case f_current f of
                None \<Rightarrow> Inl (of_sqlx unexpected_null)
              | Some vid \<Rightarrow>
                  (case f_deleted_at f of Some _ \<Rightarrow> Inl SharedItemDeleted | None \<Rightarrow> Inr (Some vid))))
      else
        and_then (check_that (has_row (\<lambda>fo. fo_id fo = sh_item s \<and> fo_deleted_at fo = None) (t_folders w))
                    SharedItemDeleted) (\<lambda>_. Inr None))"

text \<open>The chunks, the size and the header of the version of a shared file.\<close>

definition shared_content ::
  "ext \<Rightarrow> uuid option \<Rightarrow> vault \<Rightarrow> (download_chunk_info list option \<times> int option \<times> bytes option) result" where
  "shared_content x ver w =
     (case ver of
        None \<Rightarrow> Inr (None, None, None)
      | Some vid \<Rightarrow>
          (case find (\<lambda>v. v_id v = vid) (t_versions w) of
             None \<Rightarrow> Inl (of_sqlx RowNotFound)
           | Some v \<Rightarrow>
               and_then (generate_download_urls x (manifest_chunks w vid)) (\<lambda>infos.
               Inr (Some infos, Some (v_size v), Some (v_header v)))))"

definition get_share ::
  "ext \<Rightarrow> timestamp \<Rightarrow> uuid \<Rightarrow> bool \<Rightarrow> vault \<Rightarrow> get_share_response result \<times> vault" where
  "get_share x now sid is_authenticated w =
     (case find_share now sid w of
        None \<Rightarrow> (Inl NotFound, w)
      | Some s \<Rightarrow>
     attempt (check_that (\<not> (sh_access s = ''restricted'' \<and> \<not> is_authenticated)) Unauthorized) w (\<lambda>_.
     attempt (shared_item s w) w (\<lambda>ver.
     let w' = audit_log_ok now None None ''share_accessed''
                (JObj [(''share_id'', JStr (uuid_str x sid)), (''authenticated'', JBool is_authenticated),
                       (''item_type'', JStr (sh_type s))]) w
     in attempt (shared_content x ver w') w' (\<lambda>(chunks, total_size, header).
        (Inr \<lparr>gs_share_id = sh_id s, gs_item_type = sh_type s, gs_payload = encode_b64 x (sh_payload s),
              gs_nonce = encode_b64 x (sh_nonce s), gs_header = map_option (encode_b64 x) header,
              gs_chunks = chunks, gs_total_size = total_size, gs_access_type = sh_access s\<rparr>, w')))))"

subsection \<open>Files of a shared folder\<close>

text \<open>
  The chain of live folders upwards: from a live folder to its parent, when that is live too.
\<close>

definition chain_edges :: "folder_row list \<Rightarrow> (uuid \<times> uuid) list" where
  "chain_edges fos =
     concat (map (\<lambda>c. case fo_parent c of
                        None \<Rightarrow> []
                      | Some p \<Rightarrow>
                          if fo_deleted_at c = None \<and> has_row (\<lambda>fo. fo_id fo = p \<and> fo_deleted_at fo = None) fos
                          then [(fo_id c, p)] else []) fos)"

text \<open>
  The outer option is \<open>None\<close> when the recursive query does not return: it is a \<open>UNION ALL\<close>,
  which a cycle of folders makes infinite.
\<close>

definition verify_file_in_shared_folder ::
  "timestamp \<Rightarrow> uuid \<Rightarrow> uuid \<Rightarrow> bool \<Rightarrow> vault \<Rightarrow> uuid result option" where
  "verify_file_in_shared_folder now sid fid is_authenticated w =
     (case find_share now sid w of
        None \<Rightarrow> Some (Inl NotFound)
      | Some s \<Rightarrow>
     (case find (\<lambda>s. sh_id s = sid) (t_shares w) of
        None \<Rightarrow> Some (Inl (of_sqlx RowNotFound))
      | Some s' \<Rightarrow>
     if sh_access s' = ''restricted'' \<and> \<not> is_authenticated then Some (Inl Unauthorized)
     else if sh_type s = ''file'' then
       Some (if sh_item s \<noteq> fid then Inl NotFound else Inr (sh_item s))
     else
     (case find (\<lambda>f. f_id f = fid \<and> f_deleted_at f = None) (t_files w) of
        None \<Rightarrow> Some (Inl NotFound)
      | Some f \<Rightarrow>
     (case f_folder f of
        None \<Rightarrow> Some (Inl (of_sqlx unexpected_null))
      | Some d \<Rightarrow>
     if d = sh_item s then Some (Inr (sh_item s))
     else
     (case rec_exists (chain_edges (t_folders w)) (sh_item s)
             (map fo_id (filter (\<lambda>fo. fo_id fo = d \<and> fo_deleted_at fo = None) (t_folders w))) of
        None \<Rightarrow> None
      | Some is_descendant \<Rightarrow> Some (if is_descendant then Inr (sh_item s) else Inl NotFound))))))"

definition get_shared_file_manifest ::
  "ext \<Rightarrow> timestamp \<Rightarrow> uuid \<Rightarrow> uuid \<Rightarrow> bool \<Rightarrow> vault \<Rightarrow> download_manifest result option" where
  "get_shared_file_manifest x now sid fid is_authenticated w =
     map_option (\<lambda>checked. and_then checked (\<lambda>_.
       case find (\<lambda>f. f_id f = fid) (t_files w) of
         None \<Rightarrow> Inl (of_sqlx RowNotFound)
       | Some f \<Rightarrow>
       (case f_current f of
          None \<Rightarrow> Inl (of_sqlx unexpected_null)
        | Some vid \<Rightarrow>
       (case find (\<lambda>v. v_id v = vid) (t_versions w) of
          None \<Rightarrow> Inl (of_sqlx RowNotFound)
        | Some v \<Rightarrow>
            and_then (generate_download_urls x (manifest_chunks w vid)) (\<lambda>infos.
            Inr \<lparr>dm_file = fid, dm_version = vid, dm_header = encode_b64 x (v_header v),
                 dm_total_size = v_size v, dm_total_chunks = v_total_chunks v, dm_chunks = infos,
                 dm_key = '''', dm_key_nonce = ''''\<rparr>)))))
       (verify_file_in_shared_folder now sid fid is_authenticated w)"

subsection \<open>Contracts\<close>

lemma create_share_ok:
  assumes "create_share x now sid u item req w = (Inr r, w')"
  obtains payload nonce header w1 where "r = sid"
    and "if csr_item_type req = ''file'' then has_row (live_file item u) (t_files w)
         else has_row (live_folder item u) (t_folders w)"
    and "decode_b64 x (csr_payload req) = Inr payload" "decode_b64 x (csr_nonce req) = Inr nonce"
    and "insert_share (new_share now sid u item req payload nonce header) w = Inr w1"
    and "w' = audit_log_ok now (Some u) None ''share_created''
                 (JObj [(''share_id'', JUuid sid), (''item_id'', JUuid item),
                        (''item_type'', JStr (csr_item_type req))]) w1"
  using assms unfolding create_share_def attempt_oks check_that_ok by blast

lemma create_share_err: "create_share x now sid u item req w = (Inl e, w') \<Longrightarrow> w' = w"
  unfolding create_share_def attempt_errs by blast

lemma insert_share_Inr:
  assumes "insert_share r w = Inr w1"
  shows "w1 = w\<lparr>t_shares := t_shares w @ [r]\<rparr>" "\<And>s. s \<in> set (t_shares w) \<Longrightarrow> sh_id s \<noteq> sh_id r"
    "sh_type r = ''file'' \<or> sh_type r = ''folder''"
  using assms by (auto simp: insert_share_def split: if_splits)

interpretation create_share: tenant_transaction
  "\<lambda>w r w'. create_share x t sid u item req w = (r, w')" now u
proof (unfold_locales, goal_cases)
  case (1 w e w')
  then show ?case by (auto dest: create_share_err)
next
  case (2 w r w')
  then show ?case by (auto elim!: create_share_ok dest: insert_share_Inr(1))
next
  case (3 w r w')
  then show ?case by (auto elim!: create_share_ok dest: insert_share_Inr(1) intro!: other_tables_good)
qed

lemma revoke_share_ok:
  assumes "revoke_share now u sid w = (Inr r, w')"
  shows "w' = audit_log_ok now (Some u) None ''share_revoked'' (JObj [(''share_id'', JUuid sid)])
           (w\<lparr>t_shares := upd (\<lambda>s. sh_id s = sid \<and> sh_owner s = u \<and> sh_revoked_at s = None)
                            (\<lambda>s. s\<lparr>sh_revoked_at := Some now\<rparr>) (t_shares w)\<rparr>)"
    and "\<exists>s\<in>set (t_shares w). sh_id s = sid \<and> sh_owner s = u \<and> sh_revoked_at s = None"
  using assms by (auto simp: revoke_share_def attempt_oks Let_def)

lemma revoke_share_err: "revoke_share now u sid w = (Inl e, w') \<Longrightarrow> w' = w"
  by (auto simp: revoke_share_def attempt_errs Let_def)

interpretation revoke_share: tenant_transaction
  "\<lambda>w r w'. revoke_share t u sid w = (r, w')" now u
proof (unfold_locales, goal_cases)
  case (1 w e w')
  then show ?case by (auto dest: revoke_share_err)
next
  case (2 w r w')
  then show ?case by (auto dest: revoke_share_ok(1))
next
  case (3 w r w')
  then show ?case by (auto dest: revoke_share_ok(1) intro!: other_tables_good)
qed

lemma get_share_same: "get_share x now sid auth w = (r, w') \<Longrightarrow> same_tables w w'"
  unfolding get_share_def Let_def
  by (auto simp: attempt_def same_tables_def split: option.splits sum.splits prod.splits)

interpretation get_share: tenant_transaction
  "\<lambda>w r w'. get_share x t sid auth w = (r, w')" now u
  by unfold_locales (auto dest: get_share_same simp: same_tables_inv intro: same_tables_good)

end
