(* ===== verification/Sample_Vault.thy ===== *)
theory Sample_Vault
  imports Contract
begin

text \<open>
  A concrete state and concrete external code, at which the properties with hypotheses are
  applied: two users with their devices, a small folder tree with a trashed branch, a file
  with a completed version and a pending one, and a codec of bytes 0 and 1 that writes
  one digit per byte.
  \<open>system_inv\<close> holds of the state.
\<close>

definition sample_ext :: ext where
  "sample_ext =
     \<lparr>b64_decode = (\<lambda>s. if list_all (\<lambda>c. c = CHR ''0'' \<or> c = CHR ''1'') s
         then Some (map (\<lambda>c. if c = CHR ''0'' then 0 else 1) s) else None),
      b64_encode = map (\<lambda>b. if b = 0 then CHR ''0'' else CHR ''1''),
      uuid_str = show_nat, r2_configured = True, sdk_presign_config_ok = True,
      sdk_presign_put = (\<lambda>k. Some (''put:'' @ k)), sdk_presign_get = (\<lambda>k. Some (''get:'' @ k)),
      sdk_head = (\<lambda>_. HeadOk (Some ''etag'')), sdk_delete = (\<lambda>_. DeleteDone 0),
      sdk_delete_one = (\<lambda>_. True), sdk_put = (\<lambda>_ _. True)\<rparr>"

definition sample_user :: "uuid \<Rightarrow> user_row" where
  "sample_user u =
     \<lparr>u_id = u, u_email = ''a@b.c'', u_email_normalized = ''a@b.c'', u_full_name = ''A'', u_salt = [], u_argon2_params = JNull,
      u_auth_key_hash = '''', u_recovery_auth_key_hash = '''', u_wrapped_dek = [], u_wrapped_dek_nonce = [],
      u_recovery_wrapped_dek = [], u_recovery_wrapped_dek_nonce = [], u_identity_pubkey = [], u_avatar_url = None,
      u_created_at = 0, u_updated_at = 0, u_disabled_at = None\<rparr>"

definition sample_device :: "uuid \<Rightarrow> uuid \<Rightarrow> device_row" where
  "sample_device d u =
     \<lparr>d_id = d, d_user = u, d_name = ''laptop'', d_pubkey = [], d_created_at = 0, d_last_seen_at = 0, d_revoked_at = None\<rparr>"

definition sample_folder :: "uuid \<Rightarrow> uuid \<Rightarrow> uuid option \<Rightarrow> timestamp option \<Rightarrow> folder_row" where
  "sample_folder i u parent deleted =
     \<lparr>fo_id = i, fo_user = u, fo_parent = parent, fo_metadata = [], fo_nonce = replicate 24 0,
      fo_created_at = 0, fo_updated_at = 0, fo_deleted_at = deleted\<rparr>"

definition sample_file :: "uuid \<Rightarrow> uuid \<Rightarrow> uuid option \<Rightarrow> uuid option \<Rightarrow> timestamp option \<Rightarrow> file_row" where
  "sample_file i u folder cur deleted =
     \<lparr>f_id = i, f_user = u, f_folder = folder, f_metadata = [], f_nonce = replicate 24 0, f_blake3 = replicate 32 0,
      f_size = 5, f_current = cur, f_created_at = 0, f_updated_at = 0, f_deleted_at = deleted\<rparr>"

definition sample_version :: "uuid \<Rightarrow> uuid \<Rightarrow> int \<Rightarrow> uuid \<Rightarrow> bool \<Rightarrow> version_row" where
  "sample_version i f n d act =
     \<lparr>v_id = i, v_file = f, v_number = n, v_size = 5, v_total_chunks = 1, v_blake3 = replicate 32 0,
      v_header = replicate 24 0, v_device = d, v_active = act, v_created_at = 0, v_key = Some [], v_key_nonce = Some []\<rparr>"

definition sample_chunk :: "uuid \<Rightarrow> uuid \<Rightarrow> string \<Rightarrow> timestamp option \<Rightarrow> chunk_row" where
  "sample_chunk i v key uploaded =
     \<lparr>c_id = i, c_version = v, c_index = 0, c_segment = 0, c_size = 22, c_blake3 = replicate 32 0, c_key = key,
      c_etag = None, c_uploaded_at = uploaded, c_created_at = 0\<rparr>"

definition sample_vault :: vault where
  "sample_vault =
     empty_vault\<lparr>t_users := [sample_user 1, sample_user 2],
       t_devices := [sample_device 7 1, sample_device 8 2],
       t_folders := [sample_folder 10 1 None None, sample_folder 11 1 (Some 10) None,
                     sample_folder 12 1 (Some 11) (Some 3), sample_folder 20 2 None None],
       t_files := [sample_file 30 1 (Some 11) (Some 40) None, sample_file 31 1 (Some 12) (Some 41) (Some 2),
                   sample_file 32 2 (Some 20) (Some 43) None],
       t_versions := [sample_version 40 30 1 7 True, sample_version 42 30 2 7 False,
                      sample_version 41 31 1 7 True, sample_version 43 32 1 8 False],
       t_chunks := [sample_chunk 50 40 ''k40'' (Some 1), sample_chunk 52 42 ''k42'' None,
                    sample_chunk 51 41 ''k41'' (Some 1), sample_chunk 53 43 ''k43'' None],
       sse_channels := [(1, 1)]\<rparr>"

lemmas sample_rows =
  sample_vault_def empty_vault_def sample_user_def sample_device_def sample_folder_def sample_file_def
  sample_version_def sample_chunk_def

text \<open>Identifiers that grow from parent to child rule out cycles.\<close>

lemma forest_by_rank:
  assumes "\<And>fo p. fo \<in> set (t_folders w) \<Longrightarrow> fo_parent fo = Some p \<Longrightarrow> p < fo_id fo"
  shows "forest w"
proof -
  have "child_rel w \<subseteq> {(a, b). a < b}" using assms by (auto simp: child_rel_def)
  moreover have "acyclic {(a, b). a < (b :: nat)}"
  proof -
    have "a < b" if "(a, b) \<in> {(a, b). a < (b :: nat)}\<^sup>+" for a b
      using that by (induction rule: trancl_induct) auto
    then show ?thesis by (auto simp: acyclic_def)
  qed
  ultimately show ?thesis unfolding forest_def by (meson acyclic_subset)
qed

lemma sample_system: "system_inv 3 sample_vault"
proof -
  have "vault_inv sample_vault"
    by (auto simp: vault_inv_defs sample_rows ukey_def fkey_def active_ok_def current_ok_def)
  moreover have "tenant_ok sample_vault" "trash_ok sample_vault"
    by (simp_all add: tenant_ok_def trash_ok_def sample_rows)
  moreover have "forest sample_vault"
    by (rule forest_by_rank) (auto simp: sample_rows)
  moreover have "clock_ok 3 sample_vault"
    by (simp add: clock_ok_def sample_rows)
  ultimately show ?thesis by (simp add: system_inv_def tree_inv_def)
qed

end
