(* ===== verification/Folder_Properties.thy ===== *)
theory Folder_Properties
  imports Folders Sample_Vault
begin

text \<open>
  What the folder service guarantees to its clients: the round trip through the trash, when a
  move succeeds and that it returns, and what exactly a deletion moves to the trash.
\<close>

subsection \<open>Through the trash and back\<close>

lemma subtree_trash [simp]:
  "subtree (trash_files_in now ids (trash_folders now ids w)) roots u = subtree w roots u"
proof -
  have "child_edges (\<lambda>fo. fo_user fo = u) (upd P g fos) = child_edges (\<lambda>fo. fo_user fo = u) fos"
    "map fo_id (filter (\<lambda>fo. fo_id fo \<in> set roots \<and> fo_user fo = u) (upd P g fos)) =
       map fo_id (filter (\<lambda>fo. fo_id fo \<in> set roots \<and> fo_user fo = u) fos)"
    if "\<And>fo. fo_id (g fo) = fo_id fo" "\<And>fo. fo_parent (g fo) = fo_parent fo" "\<And>fo. fo_user (g fo) = fo_user fo" for P g fos
    using that by (induction fos) (auto simp: child_edges_def upd_def split: option.splits)
  then show ?thesis by (simp add: subtree_def trash_files_in_def trash_folders_def)
qed

text \<open>The proper ancestors of a live folder are live and lie outside its subtree.\<close>

lemma live_ancestors:
  assumes sys: "system_inv now w" and fo: "fo \<in> set (t_folders w)" "live_folder fid u fo"
    and a: "a \<in> set (t_folders w)"
      "fo_id a \<in> set (ancestors (t_folders w) (map snd (filter (\<lambda>e. fst e = fid) (parent_edges (t_folders w)))))"
  shows "fo_deleted_at a = None" and "fo_id a \<notin> set (subtree w [fid] u)"
proof -
  note I = system_invD [OF sys]
  from a(2) obtain p where p: "(fid, p) \<in> (child_rel w)\<inverse>" "(p, fo_id a) \<in> ((child_rel w)\<inverse>)\<^sup>*"
    by (auto simp: set_ancestors parent_edges_rel)
  then have path: "(fo_id a, fid) \<in> (child_rel w)\<^sup>+"
    by (metis converse_iff rtrancl_converseD rtrancl_into_trancl1)
  then have "(fo_id a, fid) \<in> (child_rel w)\<^sup>*" by (rule trancl_into_rtrancl)
  then show "fo_deleted_at a = None"
    using live_path [OF I(1,5) _ fo(1)] fo(2) a(1) by (auto simp: live_folder_def)
  show "fo_id a \<notin> set (subtree w [fid] u)"
  proof
    assume "fo_id a \<in> set (subtree w [fid] u)"
    moreover have "set (subtree w [fid] u) = (child_rel w)\<^sup>* `` {fid}"
      using subtree_all [OF I(1,4) fo(1)] fo(2) by (simp add: live_folder_def)
    ultimately have "(fid, fo_id a) \<in> (child_rel w)\<^sup>*" by simp
    then have "(fid, fid) \<in> (child_rel w)\<^sup>+" using path by (rule rtrancl_trancl_trancl)
    then show False using I(6) by (auto simp: forest_def acyclic_def)
  qed
qed

lemma upd_undo:
  assumes "\<And>r. r \<in> set rs \<Longrightarrow> P' (if P r then g r else r) \<longleftrightarrow> P r" and "\<And>r. r \<in> set rs \<Longrightarrow> P r \<Longrightarrow> v (h (g r)) = v r"
  shows "map v (upd P' h (upd P g rs)) = map v rs"
  using assms by (induction rs) (auto simp: upd_def)

text \<open>A row without its update time: every other column.\<close>

definition folder_content :: "folder_row \<Rightarrow> folder_row" where
  "folder_content fo = fo\<lparr>fo_updated_at := 0\<rparr>"

definition file_content :: "file_row \<Rightarrow> file_row" where
  "file_content f = f\<lparr>f_updated_at := 0\<rparr>"

lemma content_restored:
  "fo_deleted_at fo = None \<Longrightarrow> folder_content (fo\<lparr>fo_deleted_at := None, fo_updated_at := t\<rparr>) = folder_content fo"
  "f_deleted_at f = None \<Longrightarrow> file_content (f\<lparr>f_deleted_at := None, f_updated_at := t\<rparr>) = file_content f"
  by (cases fo, simp add: folder_content_def) (cases f, simp add: file_content_def)

lemma trash_then_restore:
  assumes sys: "system_inv t0 w" and later: "t0 < now"
    and del: "delete_folder now u fid w = (Inr (), w1)"
  obtains w2 where "restore_folder now' u fid w1 = (Inr (), w2)"
    "map folder_content (t_folders w2) = map folder_content (t_folders w)"
    "map file_content (t_files w2) = map file_content (t_files w)"
proof -
  note I = system_invD [OF sys]
  let ?S = "subtree w [fid] u"
  let ?w1 = "trash_files_in now ?S (trash_folders now ?S w)"
  from del obtain ev fo where fo: "fo \<in> set (t_folders w)" "live_folder fid u fo" and w1: "w1 = broadcast_sync u ev ?w1"
    by (auto elim!: delete_folder_ok)
  have T: "t_folders w1 = t_folders ?w1" "t_files w1 = t_files ?w1" using w1 by simp_all
  note rows = trash_rows [of now ?S w, folded T]
  have S: "subtree w1 [fid] u = ?S" using subtree_cong [OF T(1)] by simp
  have "fo_id fo \<in> set ?S" using fo by (auto intro: subtree_root simp: live_folder_def)
  then have "fo\<lparr>fo_deleted_at := Some now, fo_updated_at := now\<rparr> \<in> set (t_folders w1)"
    unfolding rows in_upd_iff using fo by (auto simp: live_folder_def intro!: bexI [of _ fo])
  then have "find (\<lambda>fo. fo_id fo = fid \<and> fo_user fo = u \<and> fo_deleted_at fo \<noteq> None) (t_folders w1) \<noteq> None"
    unfolding find_None_all using fo(2) by (fastforce simp: live_folder_def)
  then obtain w2 where w2: "restore_folder now' u fid w1 = (Inr (), w2)"
    by (cases "find (\<lambda>fo. fo_id fo = fid \<and> fo_user fo = u \<and> fo_deleted_at fo \<noteq> None) (t_folders w1)")
      (auto simp: restore_folder_def Let_def)
  have old: "fo_deleted_at r \<noteq> Some now" if "r \<in> set (t_folders w)" for r
    using I(3) later that by (auto simp: clock_ok_def)
  have oldf: "f_deleted_at r \<noteq> Some now" if "r \<in> set (t_files w)" for r
    using I(3) later that by (auto simp: clock_ok_def)
  have edges: "parent_edges (t_folders w1) = parent_edges (t_folders w)" unfolding rows by (simp add: parent_edges_upd)
  from w2 show ?thesis
  proof (rule restore_folder_ok)
    fix ev' w3 root
    assume root: "root \<in> set (t_folders w1)" "fo_id root = fid" "fo_user root = u" "fo_deleted_at root \<noteq> None"
      and fos: "t_folders w3 = upd (restored_folder w1 fid u (fo_deleted_at root))
         (\<lambda>fo. fo\<lparr>fo_deleted_at := None, fo_updated_at := now'\<rparr>) (t_folders w1)"
      and fs: "t_files w3 = upd (restored_file w1 fid u (fo_deleted_at root))
         (\<lambda>f. f\<lparr>f_deleted_at := None, f_updated_at := now'\<rparr>) (t_files w1)"
      and w2': "w2 = broadcast_sync u ev' w3"
    have t: "fo_deleted_at root = Some now"
    proof -
      from root(1) obtain r where r: "r \<in> set (t_folders w)"
        "root = (if fo_id r \<in> set ?S \<and> fo_deleted_at r = None then r\<lparr>fo_deleted_at := Some now, fo_updated_at := now\<rparr> else r)"
        unfolding rows in_upd_iff by blast
      then have "r = fo" using root(2) fo by (intro ukeyD [OF vault_invD(1) [OF I(1)]]) (auto simp: live_folder_def split: if_splits)
      with r(2) fo(2) \<open>fo_id fo \<in> set ?S\<close> show ?thesis by (auto simp: live_folder_def)
    qed
    have "map folder_content (t_folders w3) = map folder_content (t_folders w)"
      unfolding fos t rows
      using old live_ancestors [OF sys fo]
      by (intro upd_undo) (auto simp: restored_folder_def S edges ancestors_def content_restored)
    moreover have "map file_content (t_files w3) = map file_content (t_files w)"
      unfolding fs t rows
      using oldf by (intro upd_undo) (auto simp: restored_file_def S content_restored)
    ultimately show ?thesis using that [OF w2] w2' by simp
  qed
qed

text \<open>
  C27: Trashing a folder at a time after every stamp in the database, and restoring it at any time
  with nothing in between, is the identity on the rows of all folders and files but for their update
  times: owner, place, metadata, sizes, current version and trash stamp are back (what was in the
  trash before stays there), and the restore succeeds.
\<close>

theorem delete_restore_roundtrip:
  assumes "system_inv t0 w" and "t0 < now" and "delete_folder now u fid w = (Inr (), w1)"
  shows "\<exists>w2. restore_folder now' u fid w1 = (Inr (), w2) \<and>
     map folder_content (t_folders w2) = map folder_content (t_folders w) \<and>
     map file_content (t_files w2) = map file_content (t_files w)"
  using assms by (rule trash_then_restore) blast

theorem delete_restore_roundtrip_witness:
  "\<exists>w1 w2. delete_folder 9 1 10 sample_vault = (Inr (), w1) \<and> restore_folder 12 1 10 w1 = (Inr (), w2) \<and>
     map folder_content (t_folders w2) = map folder_content (t_folders sample_vault) \<and>
     map file_content (t_files w2) = map file_content (t_files sample_vault)"
proof -
  have "fst (delete_folder 9 1 10 sample_vault) = Inr ()" by code_simp
  then have "delete_folder 9 1 10 sample_vault = (Inr (), snd (delete_folder 9 1 10 sample_vault))" by (metis prod.collapse)
  with delete_restore_roundtrip [OF sample_system _ this, of 12] show ?thesis by auto
qed

subsection \<open>Moves\<close>

text \<open>
  C28: On a well-formed hierarchy a move succeeds exactly when the folder is a live folder of the
  user and the target is the root, or a live folder of the user that is not the folder itself or one
  of its descendants. Then the parent of the folder is the target, and no other row has changed. A
  folder or target that is not a live folder of the user is answered by \<open>NotFound\<close>, a target below the
  folder by \<open>BadRequest\<close>.
\<close>

theorem move_folder_iff:
  fixes u :: uuid
  assumes sys: "system_inv now w"
  defines "own i \<equiv> has_row (live_folder i u) (t_folders w)"
  shows "((\<exists>r w'. move_folder x now u fid target w = Some (Inr r, w')) \<longleftrightarrow>
      own fid \<and> (\<forall>t. target = Some t \<longrightarrow> own t \<and> (fid, t) \<notin> (child_rel w)\<^sup>*)) \<and>
    (\<forall>r w'. move_folder x now u fid target w = Some (Inr r, w') \<longrightarrow>
      t_folders w' = map (\<lambda>fo. if live_folder fid u fo then fo\<lparr>fo_parent := target, fo_updated_at := now\<rparr> else fo) (t_folders w) \<and>
      t_files w' = t_files w) \<and>
    (\<not> own fid \<longrightarrow> move_folder x now u fid target w = Some (Inl NotFound, w)) \<and>
    (\<forall>t. own fid \<and> target = Some t \<and> own t \<and> (fid, t) \<in> (child_rel w)\<^sup>* \<longrightarrow>
      (\<exists>msg. move_folder x now u fid target w = Some (Inl (BadRequest msg), w)))"
proof -
  let ?g = "\<lambda>fo. fo\<lparr>fo_parent := target, fo_updated_at := now\<rparr>"
  have v: "verify_folder_ownership w i u = (if own i then Inr () else Inl NotFound)" for i
    by (simp add: verify_folder_ownership_def check_that_def own_def)
  have d: "is_descendant_or_self w fid t = Some ((fid, t) \<in> (child_rel w)\<^sup>*)" if "own fid" "own t" for t
    using that is_descendant_exact [OF sys] unfolding own_def has_row_iff by blast
  have found: "find (live_folder fid u) (upd (live_folder fid u) ?g (t_folders w)) \<noteq> None" if o: "own fid"
  proof -
    obtain a where "a \<in> set (t_folders w)" "live_folder fid u a" using o by (auto simp: own_def)
    then have "?g a \<in> set (upd (live_folder fid u) ?g (t_folders w))" "live_folder fid u (?g a)"
      by (auto simp: in_upd_iff live_folder_def)
    then show ?thesis unfolding find_None_all by blast
  qed
  have if_ok: "\<exists>r w'. move_folder x now u fid target w = Some (Inr r, w')"
    if "own fid" "\<And>t. target = Some t \<Longrightarrow> own t \<and> (fid, t) \<notin> (child_rel w)\<^sup>*"
    using that d found by (cases target)
      (auto simp: move_folder_def check_move_target_def v)
  have only_if: "own fid \<and> (\<forall>t. target = Some t \<longrightarrow> own t \<and> (fid, t) \<notin> (child_rel w)\<^sup>*)"
    if run: "move_folder x now u fid target w = Some (Inr r, w')" for r w'
    using run
  proof (rule move_folder_ok)
    assume o: "has_row (live_folder fid u) (t_folders w)" and c: "check_move_target w u fid target = Some (Inr ())"
    then show ?thesis using check_move_target_ok [OF sys _ _ c] by (auto simp: own_def)
  qed
  have rows: "t_folders w' = map (\<lambda>fo. if live_folder fid u fo then ?g fo else fo) (t_folders w) \<and> t_files w' = t_files w"
    if "move_folder x now u fid target w = Some (Inr r, w')" for r w'
    using that by (rule move_folder_ok) (simp add: upd_def)
  have "\<exists>msg. move_folder x now u fid target w = Some (Inl (BadRequest msg), w)"
    if "own fid" "target = Some t" "own t" "(fid, t) \<in> (child_rel w)\<^sup>*" for t
    using that d [OF that(1,3)] by (auto simp: move_folder_def check_move_target_def v)
  moreover have "move_folder x now u fid target w = Some (Inl NotFound, w)" if "\<not> own fid"
    using that by (simp add: move_folder_def v)
  ultimately show ?thesis using if_ok only_if rows by blast
qed

lemma sample_child:
  "sample_folder 11 1 (Some 10) None \<in> set (t_folders sample_vault)" "(10, 11) \<in> child_rel sample_vault"
proof -
  show row: "sample_folder 11 1 (Some 10) None \<in> set (t_folders sample_vault)" by (simp add: sample_rows)
  have "fo_id (sample_folder 11 1 (Some 10) None) = 11" "fo_parent (sample_folder 11 1 (Some 10) None) = Some 10"
    by (simp_all add: sample_folder_def)
  with row show "(10, 11) \<in> child_rel sample_vault"
    unfolding child_rel_def by (intro CollectI exI [of _ 10] exI [of _ "sample_folder 11 1 (Some 10) None"]) simp
qed

theorem move_folder_iff_witness:
  "(\<exists>r w'. move_folder sample_ext 9 1 11 None sample_vault = Some (Inr r, w')) \<and>
   (\<exists>msg. move_folder sample_ext 9 1 10 (Some 11) sample_vault = Some (Inl (BadRequest msg), sample_vault))"
proof -
  have own: "has_row (live_folder 11 1) (t_folders sample_vault)" "has_row (live_folder 10 1) (t_folders sample_vault)"
    by (simp_all add: sample_rows live_folder_def)
  have path: "(10, 11) \<in> (child_rel sample_vault)\<^sup>*" using sample_child(2) by blast
  have sys: "system_inv 9 sample_vault" using sample_system by (rule system_inv_later) simp
  have "\<exists>msg. move_folder sample_ext 9 1 10 (Some 11) sample_vault = Some (Inl (BadRequest msg), sample_vault)"
    using move_folder_iff [OF sys, where x = sample_ext and u = 1 and fid = 10 and target = "Some 11"] own path by blast
  moreover have "\<exists>r w'. move_folder sample_ext 9 1 11 None sample_vault = Some (Inr r, w')"
    using move_folder_iff [OF sys, where x = sample_ext and u = 1 and fid = 11 and target = None] own by blast
  ultimately show ?thesis by blast
qed

text \<open>
  C29: On a well-formed hierarchy \<open>move_folder\<close> always answers, and whatever it answers the
  hierarchy stays a forest whose items belong to the owner of their folder and in which a live
  item has live ancestors; an error changes nothing.
\<close>

theorem move_folder_total:
  assumes "system_inv now w"
  shows "\<exists>res w'. move_folder x now u fid target w = Some (res, w') \<and> tree_inv w' \<and> (isl res \<longrightarrow> w' = w)"
proof -
  have "\<exists>p. move_folder x now u fid target w = Some p"
    using check_move_target_returns [OF system_invD(6) [OF assms], of u fid target]
    by (auto simp: move_folder_def Let_def split: sum.splits option.splits)
  then obtain res w' where run: "move_folder x now u fid target w = Some (res, w')" by auto
  moreover have "tree_inv w'" by (rule system_invD(2) [OF move_folder.system [OF assms run]])
  moreover have "w' = w" if "isl res" using that run move_folder_err by (cases res) auto
  ultimately show ?thesis by blast
qed

theorem move_folder_total_witness:
  "\<exists>res w'. move_folder sample_ext 9 1 10 (Some 11) sample_vault = Some (res, w') \<and> tree_inv w' \<and> (isl res \<longrightarrow> w' = sample_vault)"
  by (rule move_folder_total [OF system_inv_later [OF sample_system]]) simp

subsection \<open>The trash\<close>

text \<open>
  C30: For a live folder of the user \<open>delete_folder\<close> succeeds and stamps exactly the live folders of
  its subtree and the live files in them with the present time; what was in the trash before keeps
  its stamp, every other row stays as it was, no row is removed, and versions, chunks, shares and
  the deletion queue are untouched. For anything else the answer is \<open>NotFound\<close> and nothing changes.
\<close>

theorem delete_folder_trashes_subtree:
  fixes fid :: uuid
  assumes sys: "system_inv now w"
  defines "below \<equiv> (child_rel w)\<^sup>* `` {fid}"
  shows "if has_row (live_folder fid u) (t_folders w)
    then \<exists>w'. delete_folder now u fid w = (Inr (), w') \<and>
      t_folders w' = map (\<lambda>fo. if fo_id fo \<in> below \<and> fo_deleted_at fo = None
        then fo\<lparr>fo_deleted_at := Some now, fo_updated_at := now\<rparr> else fo) (t_folders w) \<and>
      t_files w' = map (\<lambda>f. if f_folder f \<in> Some ` below \<and> f_deleted_at f = None
        then f\<lparr>f_deleted_at := Some now, f_updated_at := now\<rparr> else f) (t_files w) \<and>
      t_versions w' = t_versions w \<and> t_chunks w' = t_chunks w \<and> t_shares w' = t_shares w \<and> t_pending w' = t_pending w
    else delete_folder now u fid w = (Inl NotFound, w)"
proof (cases "has_row (live_folder fid u) (t_folders w)")
  case True
  note I = system_invD [OF sys]
  from True obtain fo where fo: "fo \<in> set (t_folders w)" "live_folder fid u fo" by auto
  have S: "set (subtree w [fid] u) = below"
    using subtree_all [OF I(1,4) fo(1)] fo(2) by (simp add: live_folder_def below_def)
  have in_S: "opt_in i (subtree w [fid] u) \<longleftrightarrow> i \<in> Some ` below" for i by (auto simp: opt_in_iff S)
  let ?w' = "snd (delete_folder now u fid w)"
  have "delete_folder now u fid w = (Inr (), ?w')" "t_folders ?w' = t_folders (trash_files_in now (subtree w [fid] u) (trash_folders now (subtree w [fid] u) w))"
    "t_files ?w' = t_files (trash_files_in now (subtree w [fid] u) (trash_folders now (subtree w [fid] u) w))"
    using True by (simp_all add: delete_folder_def Let_def)
  moreover have "t_versions ?w' = t_versions w \<and> t_chunks ?w' = t_chunks w \<and> t_shares ?w' = t_shares w \<and> t_pending ?w' = t_pending w"
    using True by (simp add: delete_folder_def Let_def trash_files_in_def trash_folders_def)
  ultimately show ?thesis using True unfolding trash_rows by (simp add: S in_S upd_def) blast
qed (simp add: delete_folder_def)

theorem delete_folder_trashes_subtree_witness:
  "\<exists>w'. delete_folder 9 1 10 sample_vault = (Inr (), w') \<and>
     (\<exists>fo\<in>set (t_folders w'). fo_id fo = 11 \<and> fo_deleted_at fo = Some 9)"
proof -
  have own: "has_row (live_folder 10 1) (t_folders sample_vault)" by (simp add: sample_rows live_folder_def)
  have path: "(10, 11) \<in> (child_rel sample_vault)\<^sup>*" using sample_child(2) by blast
  let ?fo = "sample_folder 11 1 (Some 10) None"
  have fo: "fo_id ?fo = 11" "fo_deleted_at ?fo = None" by (simp_all add: sample_folder_def)
  have "system_inv 9 sample_vault" using sample_system by (rule system_inv_later) simp
  from delete_folder_trashes_subtree [OF this, where u = 1 and fid = 10] own
  obtain w' where w': "delete_folder 9 1 10 sample_vault = (Inr (), w')"
    "t_folders w' = map (\<lambda>fo. if fo_id fo \<in> (child_rel sample_vault)\<^sup>* `` {10} \<and> fo_deleted_at fo = None
        then fo\<lparr>fo_deleted_at := Some 9, fo_updated_at := 9\<rparr> else fo) (t_folders sample_vault)" by auto
  have "?fo\<lparr>fo_deleted_at := Some 9, fo_updated_at := 9\<rparr> \<in> set (t_folders w')"
    unfolding w'(2) set_map using fo path by (intro image_eqI [OF _ sample_child(1)]) simp
  moreover have "fo_id (?fo\<lparr>fo_deleted_at := Some 9, fo_updated_at := 9\<rparr>) = 11 \<and> fo_deleted_at (?fo\<lparr>fo_deleted_at := Some 9, fo_updated_at := 9\<rparr>) = Some 9"
    using fo by simp
  ultimately show ?thesis using w'(1) by blast
qed

end
