(* ===== verification/Upload_Properties.thy ===== *)
theory Upload_Properties
  imports Files_Upload Sample_Vault
begin

text \<open>
  Properties of the beginning of an upload: what the validation accepts, what a new upload
  registers, and that the quota holds after a single and after a bulk initialisation.
\<close>

subsection \<open>Validation\<close>

text \<open>A base64 field that decodes to a given number of bytes.\<close>

definition decodes_to :: "ext \<Rightarrow> nat \<Rightarrow> string \<Rightarrow> bool" where
  "decodes_to x n s \<longleftrightarrow> (case b64_decode x s of None \<Rightarrow> False | Some b \<Rightarrow> length b = n)"

lemma decode_ok: "decode_b64 x s = Inr b \<longleftrightarrow> b64_decode x s = Some b"
  by (simp add: decode_b64_def split: option.splits)

lemma decodes_to_iff: "decodes_to x n s \<longleftrightarrow> (\<exists>b. b64_decode x s = Some b \<and> length b = n)"
  by (simp add: decodes_to_def split: option.splits)

definition plan_ok :: "ext \<Rightarrow> chunk_plan list \<Rightarrow> bool" where
  "plan_ok x cs \<longleftrightarrow>
     map cp_index cs = map int [0..<length cs] \<and> (\<forall>c\<in>set cs. 0 < cp_size c \<and> decodes_to x 32 (cp_blake3 c))"

definition plan_size :: "create_file_request \<Rightarrow> int" where
  "plan_size req = sum_list (map cp_size (cf_chunks req))"

lemma check_chunks_ok:
  assumes "int (i + length cs) < 2 ^ 31" and "wrap_i64 acc = acc"
  shows "check_chunks x i acc cs = Inr tot \<longleftrightarrow>
     map cp_index cs = map int [i..<i + length cs] \<and> (\<forall>c\<in>set cs. 0 < cp_size c \<and> decodes_to x 32 (cp_blake3 c)) \<and>
     tot = wrap_i64 (acc + sum_list (map cp_size cs))"
  using assms
proof (induction cs arbitrary: i acc)
  case Nil
  then show ?case by auto
next
  case (Cons c cs)
  have i: "wrap_i32 (int i) = int i" using Cons.prems(1) by (intro wrap_i32_id) (simp add: in_i32_def)
  have IH: "check_chunks x (Suc i) (wrap_i64 (acc + cp_size c)) cs = Inr tot \<longleftrightarrow>
     map cp_index cs = map int [Suc i..<Suc i + length cs] \<and> (\<forall>c\<in>set cs. 0 < cp_size c \<and> decodes_to x 32 (cp_blake3 c)) \<and>
     tot = wrap_i64 (acc + cp_size c + sum_list (map cp_size cs))"
    using Cons.IH [of "Suc i" "wrap_i64 (acc + cp_size c)"] Cons.prems(1) wrap_i64_id [OF wrap_i64_in]
    by (simp add: wrap_i64_add)
  have up: "[i..<Suc (i + length cs)] = i # [Suc i..<Suc (i + length cs)]" by (simp only: upt_conv_Cons le_imp_less_Suc le_add1)
  show ?case
    by (auto simp: i IH up decode_ok decodes_to_iff add.assoc simp del: upt_Suc)
qed

lemma validate_iff:
  assumes len: "length (cf_chunks req) < 2 ^ 31"
  shows "validate_create_request x req = Inr () \<longleftrightarrow>
     b64_decode x (cf_metadata req) \<noteq> None \<and> decodes_to x 24 (cf_nonce req) \<and>
     decodes_to x 32 (cf_blake3 req) \<and> decodes_to x 24 (cf_header req) \<and>
     0 < cf_total_chunks req \<and> cf_total_chunks req \<le> max_chunks_per_file \<and>
     int (length (cf_chunks req)) = cf_total_chunks req \<and>
     0 \<le> cf_total_size req \<and> cf_total_size req \<le> max_file_size \<and>
     plan_ok x (cf_chunks req) \<and>
     wrap_i64 (plan_size req) = cf_total_size req + 17 * cf_total_chunks req"
proof -
  have l: "wrap_i32 (int (length (cf_chunks req))) = int (length (cf_chunks req))"
    using len by (intro wrap_i32_id) (simp add: in_i32_def)
  have e: "wrap_i64 (cf_total_size req + wrap_i64 (cf_total_chunks req * 17)) = cf_total_size req + 17 * cf_total_chunks req"
    if "0 < cf_total_chunks req" "cf_total_chunks req \<le> max_chunks_per_file" "0 \<le> cf_total_size req" "cf_total_size req \<le> max_file_size"
  proof -
    have "wrap_i64 (cf_total_chunks req * 17) = cf_total_chunks req * 17"
      using that by (intro wrap_i64_id) (simp add: in_i64_def max_chunks_per_file_def)
    then show ?thesis
      using that by (subst wrap_i64_id) (simp_all add: in_i64_def max_chunks_per_file_def max_file_size_def)
  qed
  have c: "check_chunks x 0 0 (cf_chunks req) = Inr tot \<longleftrightarrow> plan_ok x (cf_chunks req) \<and> tot = wrap_i64 (plan_size req)" for tot
    using check_chunks_ok [of 0 "cf_chunks req" 0 x tot] len wrap_i64_id [of 0]
    by (auto simp: plan_ok_def plan_size_def in_i64_def)
  show ?thesis
    unfolding validate_create_request_def check_ciphertext_size_def Let_def
    by (cases "b64_decode x (cf_metadata req)")
      (auto simp: and_then_ok check_that_ok decode_ok decodes_to_iff l c e decode_b64_def [of x "cf_metadata req"])
qed

text \<open>
  C25: Validation of an upload accepts exactly the requests whose fields have the right lengths,
  whose counts and sizes are within the limits, whose chunks are numbered from 0 with positive
  sizes, and whose chunk sizes sum to the file size plus 17 bytes per chunk - the sum taken in
  64-bit arithmetic.
\<close>

theorem validate_create_request_iff:
  assumes len: "length (cf_chunks req) < 2 ^ 31"
  shows "validate_create_request x req = Inr () \<longleftrightarrow>
     b64_decode x (cf_metadata req) \<noteq> None \<and> decodes_to x 24 (cf_nonce req) \<and>
     decodes_to x 32 (cf_blake3 req) \<and> decodes_to x 24 (cf_header req) \<and>
     0 < cf_total_chunks req \<and> cf_total_chunks req \<le> max_chunks_per_file \<and>
     int (length (cf_chunks req)) = cf_total_chunks req \<and>
     0 \<le> cf_total_size req \<and> cf_total_size req \<le> max_file_size \<and>
     plan_ok x (cf_chunks req) \<and>
     wrap_i64 (plan_size req) = cf_total_size req + 17 * cf_total_chunks req"
  using len by (rule validate_iff)

definition sample_plan :: "int \<Rightarrow> int \<Rightarrow> chunk_plan" where
  "sample_plan i sz = \<lparr>cp_index = i, cp_segment = 0, cp_size = sz, cp_blake3 = replicate 32 CHR ''1''\<rparr>"

definition sample_request :: "uuid option \<Rightarrow> int \<Rightarrow> int list \<Rightarrow> create_file_request" where
  "sample_request folder sz sizes =
     \<lparr>cf_folder = folder, cf_metadata = ''1'', cf_nonce = replicate 24 CHR ''1'', cf_blake3 = replicate 32 CHR ''1'',
      cf_total_size = sz, cf_total_chunks = int (length sizes), cf_header = replicate 24 CHR ''0'',
      cf_chunks = map2 sample_plan (map int [0..<length sizes]) sizes, cf_key = ''101'', cf_key_nonce = ''01''\<rparr>"

theorem validate_create_request_iff_witness:
  "validate_create_request sample_ext (sample_request (Some 11) 7 [20, 21]) = Inr () \<longleftrightarrow>
     wrap_i64 (plan_size (sample_request (Some 11) 7 [20, 21])) = 7 + 17 * 2"
proof -
  have "plan_ok sample_ext (cf_chunks (sample_request (Some 11) 7 [20, 21]))" by code_simp
  then show ?thesis
    using validate_create_request_iff [of "sample_request (Some 11) 7 [20, 21]" sample_ext]
    by (simp add: sample_request_def sample_ext_def decodes_to_def max_chunks_per_file_def max_file_size_def list_all_iff)
qed

text \<open>
  C26: When the planned chunk sizes do not overflow 64 bits in total, an accepted upload plans
  exactly the file size plus 17 bytes per chunk, and no chunk is larger than that. Without this
  condition three chunks of almost \<open>2 ^ 63\<close> bytes are accepted for a file of 7 bytes.
\<close>

theorem validate_create_request_size:
  "(validate_create_request x req = Inr () \<and> length (cf_chunks req) < 2 ^ 31 \<and> plan_size req < 2 ^ 63 \<longrightarrow>
      plan_size req = cf_total_size req + 17 * int (length (cf_chunks req)) \<and>
      (\<forall>c\<in>set (cf_chunks req). cp_size c \<le> cf_total_size req + 17 * int (length (cf_chunks req)))) \<and>
   validate_create_request sample_ext (sample_request None 7 [2 ^ 63 - 1, 2 ^ 63 - 1, 60]) = Inr ()"
proof -
  have "validate_create_request sample_ext (sample_request None 7 [2 ^ 63 - 1, 2 ^ 63 - 1, 60]) = Inr ()"
    by code_simp
  moreover have "plan_size req = cf_total_size req + 17 * int (length (cf_chunks req)) \<and>
      (\<forall>c\<in>set (cf_chunks req). cp_size c \<le> cf_total_size req + 17 * int (length (cf_chunks req)))"
    if v: "validate_create_request x req = Inr ()" and l: "length (cf_chunks req) < 2 ^ 31" and s: "plan_size req < 2 ^ 63"
  proof -
    note ok = iffD1 [OF validate_iff [OF l] v]
    have pos: "\<forall>c\<in>set (cf_chunks req). 0 < cp_size c" using ok by (simp add: plan_ok_def)
    then have "0 \<le> plan_size req" unfolding plan_size_def by (intro sum_list_nonneg) (auto simp: less_le)
    then have eq: "plan_size req = cf_total_size req + 17 * int (length (cf_chunks req))"
      using ok s wrap_i64_id [of "plan_size req"] by (simp add: in_i64_def)
    moreover have "cp_size c \<le> plan_size req" if "c \<in> set (cf_chunks req)" for c
      unfolding plan_size_def using pos that by (intro member_le_sum_list) (auto simp: less_le)
    ultimately show ?thesis by simp
  qed
  ultimately show ?thesis by blast
qed

theorem validate_create_request_size_witness:
  "plan_size (sample_request (Some 11) 7 [20, 21]) = 7 + 17 * 2"
proof -
  have "validate_create_request sample_ext (sample_request (Some 11) 7 [20, 21]) = Inr ()" by code_simp
  with validate_create_request_size [of sample_ext "sample_request (Some 11) 7 [20, 21]"] show ?thesis
    by (simp add: sample_request_def plan_size_def sample_plan_def)
qed


subsection \<open>New uploads\<close>

lemma create_file_ok:
  assumes "create_file x t fid vid gen u d req w = (Inr r, w')"
  obtains usage hash dup where "validate_create_request x req = Inr ()" "current_usage w u = Inr usage"
    "within_quota usage (cf_total_size req)" "decode_b64 x (cf_blake3 req) = Inr hash"
    "check_duplicate x u (cf_folder req) hash w = Inr dup"
    "(\<exists>f v. dup = Duplicate f v \<and> r = \<lparr>cr_file = f, cr_version = v, cr_deduplicated = True, cr_urls = []\<rparr> \<and> w' = w) \<or>
     (\<forall>f v. dup \<noteq> Duplicate f v) \<and>
     create_file_tx x t fid vid gen u d req (case dup of Ghost g \<Rightarrow> delete_files (\<lambda>f. f_id f = g) w | _ \<Rightarrow> w) = Inr w' \<and>
     (\<exists>urls. generate_upload_urls x u fid vid (plan_indices req) = Inr urls \<and>
        r = \<lparr>cr_file = fid, cr_version = vid, cr_deduplicated = False, cr_urls = urls\<rparr>)"
  using assms unfolding create_file_def attempt_oks check_that_ok
  by (auto simp: Let_def attempt_oks split: dedup.splits)

lemma begin_upload_rows:
  assumes f: "insert_file r w = Inr w1" "f_id r = fid"
    and v: "insert_version vr w1 = Inr w2" "v_id vr = vid"
    and c: "insert_chunks x t gen u fid vid hash 0 cs (set_current vid fid w2) = Inr w3"
  obtains rows where "t_files w3 = t_files w @ [r\<lparr>f_current := Some vid\<rparr>]" "t_versions w3 = t_versions w @ [vr]"
    "t_chunks w3 = t_chunks w @ rows" "t_folders w3 = t_folders w"
    "map (\<lambda>c. (c_index c, c_segment c, c_size c, c_key c)) rows =
       map (\<lambda>c. (cp_index c, cp_segment c, cp_size c, chunk_key x u fid vid (cp_segment c) (cp_index c))) cs"
    "\<And>c. c \<in> set rows \<Longrightarrow> c_version c = vid \<and> c_uploaded_at c = None"
    "\<And>f. f \<in> set (t_files w) \<Longrightarrow> f_id f \<noteq> fid" "\<And>v. v \<in> set (t_versions w) \<Longrightarrow> v_id v \<noteq> vid"
proof -
  note F = insert_file_Inr [OF f(1)] and V = insert_version_Inr [OF v(1)]
  have upd: "upd (\<lambda>f. f_id f = fid) (\<lambda>f. f\<lparr>f_current := Some vid\<rparr>) (t_files w @ [r]) = t_files w @ [r\<lparr>f_current := Some vid\<rparr>]"
    using F(2) f(2) upd_none [of "t_files w" "\<lambda>f. f_id f = fid"] by (auto simp: upd_def)
  from insert_chunks_rows [OF c] obtain rows where rows: "w3 = set_current vid fid w2\<lparr>t_chunks := t_chunks w2 @ rows\<rparr>"
    "map (\<lambda>c. (c_index c, c_segment c, c_size c, c_key c)) rows =
       map (\<lambda>c. (cp_index c, cp_segment c, cp_size c, chunk_key x u fid vid (cp_segment c) (cp_index c))) cs"
    "\<forall>c\<in>set rows. c_version c = vid \<and> c_uploaded_at c = None"
    by (auto simp: set_current_def)
  show ?thesis
    using that [of rows] rows F(1,2) V(1,2) f(2) v(2) upd by (simp add: set_current_def)
qed

lemma create_file_tx_rows:
  assumes "create_file_tx x t fid vid gen u d req w = Inr w'"
  obtains f v rows where "t_files w' = t_files w @ [f]" "t_versions w' = t_versions w @ [v]"
    "t_chunks w' = t_chunks w @ rows" "t_folders w' = t_folders w"
    "f_id f = fid" "f_user f = u" "f_folder f = cf_folder req" "f_size f = cf_total_size req"
    "f_current f = Some vid" "f_deleted_at f = None"
    "v_id v = vid" "v_file v = fid" "\<not> v_active v" "v_total_chunks v = cf_total_chunks req"
    "v_size v = cf_total_size req" "decode_b64 x (cf_header req) = Inr (v_header v)"
    "\<exists>k. decode_b64 x (cf_key req) = Inr k \<and> v_key v = Some k"
    "\<exists>k. decode_b64 x (cf_key_nonce req) = Inr k \<and> v_key_nonce v = Some k"
    "map (\<lambda>c. (c_index c, c_segment c, c_size c, c_key c)) rows =
       map (\<lambda>c. (cp_index c, cp_segment c, cp_size c, chunk_key x u fid vid (cp_segment c) (cp_index c))) (cf_chunks req)"
    "\<And>c. c \<in> set rows \<Longrightarrow> c_version c = vid \<and> c_uploaded_at c = None"
    "\<And>f. f \<in> set (t_files w) \<Longrightarrow> f_id f \<noteq> fid" "\<And>v. v \<in> set (t_versions w) \<Longrightarrow> v_id v \<noteq> vid"
proof -
  from assms obtain r w1 vr w2 hash w3 ev meta where
    r: "insert_file r w = Inr w1" "f_id r = fid" "f_user r = u" "f_folder r = cf_folder req" "f_size r = cf_total_size req"
      "f_deleted_at r = None"
    and vr: "insert_version vr w1 = Inr w2" "v_id vr = vid" "v_file vr = fid" "\<not> v_active vr" "v_total_chunks vr = cf_total_chunks req"
      "v_size vr = cf_total_size req" "decode_b64 x (cf_header req) = Inr (v_header vr)"
      "\<exists>k. decode_b64 x (cf_key req) = Inr k \<and> v_key vr = Some k"
      "\<exists>k. decode_b64 x (cf_key_nonce req) = Inr k \<and> v_key_nonce vr = Some k"
    and c: "insert_chunks x t gen u fid vid hash 0 (cf_chunks req) (set_current vid fid w2) = Inr w3"
    and a: "audit_log t (Some u) (Some d) ev meta w3 = Inr w'"
    unfolding create_file_tx_def and_then_ok sql_ok
    by (elim exE conjE) (rule that, (assumption | (simp; fail))+)
  from begin_upload_rows [OF r(1,2) vr(1,2) c] obtain rows where R: "t_files w3 = t_files w @ [r\<lparr>f_current := Some vid\<rparr>]"
    "t_versions w3 = t_versions w @ [vr]" "t_chunks w3 = t_chunks w @ rows" "t_folders w3 = t_folders w"
    "map (\<lambda>c. (c_index c, c_segment c, c_size c, c_key c)) rows =
       map (\<lambda>c. (cp_index c, cp_segment c, cp_size c, chunk_key x u fid vid (cp_segment c) (cp_index c))) (cf_chunks req)"
    "\<And>c. c \<in> set rows \<Longrightarrow> c_version c = vid \<and> c_uploaded_at c = None"
    "\<And>f. f \<in> set (t_files w) \<Longrightarrow> f_id f \<noteq> fid" "\<And>v. v \<in> set (t_versions w) \<Longrightarrow> v_id v \<noteq> vid" by blast
  note same = same_tablesD [OF audit_log_frame [OF a]]
  show ?thesis
    by (rule that [of "r\<lparr>f_current := Some vid\<rparr>" vr rows]) (use R r vr same in simp_all)
qed


lemma ghost_free:
  assumes "vault_inv w"
  shows "vault_inv (case dup of Ghost g \<Rightarrow> delete_files (\<lambda>f. f_id f = g) w | _ \<Rightarrow> w)"
  using assms by (auto intro: delete_files_inv split: dedup.splits)

lemma no_chunk_of_fresh_version:
  assumes "vault_inv w" and "\<And>v. v \<in> set (t_versions w) \<Longrightarrow> v_id v \<noteq> vid"
  shows "filter (\<lambda>c. c_version c = vid) (t_chunks w) = []"
  using fkeyD [OF vault_invD(10) [OF assms(1)]] assms(2) by (force simp: filter_empty_conv)

lemma upload_urls_rows:
  assumes "generate_upload_urls x u fid vid (map (\<lambda>c. (cp_index c, cp_segment c)) cs) = Inr urls"
  shows "map (\<lambda>r. (cu_index r, cu_segment r, cu_key r)) urls =
     map (\<lambda>c. (cp_index c, cp_segment c, chunk_key x u fid vid (cp_segment c) (cp_index c))) cs"
proof -
  from assms have ok: "map (\<lambda>r. (cu_index r, cu_segment r)) urls = map (\<lambda>c. (cp_index c, cp_segment c)) cs"
    "\<forall>r\<in>set urls. cu_key r = chunk_key x u fid vid (cu_segment r) (cu_index r)"
    by (auto simp: generate_upload_urls_def dest!: upload_urls_ok split: sum.splits)
  have "map (\<lambda>r. (cu_index r, cu_segment r, cu_key r)) urls =
      map (\<lambda>(i, s). (i, s, chunk_key x u fid vid s i)) (map (\<lambda>r. (cu_index r, cu_segment r)) urls)"
    using ok(2) by simp
  then show ?thesis by (simp add: ok(1))
qed

text \<open>
  C23: A new upload (no duplicate) registers a live file of the user in the requested folder
  whose current version is inactive, and one pending chunk row per planned chunk; the presigned
  URLs of the answer are those of the registered chunks, in order, numbered from 0.
\<close>

theorem create_file_registers:
  assumes inv: "vault_inv w" and len: "length (cf_chunks req) < 2 ^ 31"
    and run: "create_file x t fid vid gen u d req w = (Inr r, w')" and new: "\<not> cr_deduplicated r"
  shows "cr_file r = fid \<and> cr_version r = vid \<and>
    (\<exists>f\<in>set (t_files w'). f_id f = fid \<and> f_user f = u \<and> f_folder f = cf_folder req \<and> f_size f = cf_total_size req \<and>
       f_current f = Some vid \<and> f_deleted_at f = None) \<and>
    (\<exists>v\<in>set (t_versions w'). v_id v = vid \<and> v_file v = fid \<and> \<not> v_active v \<and> v_total_chunks v = int (length (cr_urls r))) \<and>
    (let rows = filter (\<lambda>c. c_version c = vid) (t_chunks w')
     in map (\<lambda>c. (c_index c, c_segment c, c_key c)) rows = map (\<lambda>r. (cu_index r, cu_segment r, cu_key r)) (cr_urls r) \<and>
        map c_index rows = map int [0..<length rows] \<and> (\<forall>c\<in>set rows. c_uploaded_at c = None))"
proof -
  from run new obtain dup urls where v: "validate_create_request x req = Inr ()"
    and tx: "create_file_tx x t fid vid gen u d req (case dup of Ghost g \<Rightarrow> delete_files (\<lambda>f. f_id f = g) w | _ \<Rightarrow> w) = Inr w'"
      (is "create_file_tx _ _ _ _ _ _ _ _ ?w1 = _")
    and urls: "generate_upload_urls x u fid vid (plan_indices req) = Inr urls"
    and r: "r = \<lparr>cr_file = fid, cr_version = vid, cr_deduplicated = False, cr_urls = urls\<rparr>"
    by (elim create_file_ok) auto
  note ok = iffD1 [OF validate_iff [OF len] v]
  have w1: "vault_inv ?w1" using inv by (rule ghost_free)
  have keys: "map (\<lambda>r. (cu_index r, cu_segment r, cu_key r)) urls =
     map (\<lambda>c. (cp_index c, cp_segment c, chunk_key x u fid vid (cp_segment c) (cp_index c))) (cf_chunks req)"
    using urls by (intro upload_urls_rows) (simp add: plan_indices_def)
  from tx show ?thesis
  proof (rule create_file_tx_rows)
    fix f v rows
    assume R: "t_files w' = t_files ?w1 @ [f]" "t_versions w' = t_versions ?w1 @ [v]" "t_chunks w' = t_chunks ?w1 @ rows"
      and f: "f_id f = fid" "f_user f = u" "f_folder f = cf_folder req" "f_size f = cf_total_size req" "f_current f = Some vid" "f_deleted_at f = None"
      and v: "v_id v = vid" "v_file v = fid" "\<not> v_active v" "v_total_chunks v = cf_total_chunks req"
      and m: "map (\<lambda>c. (c_index c, c_segment c, c_size c, c_key c)) rows =
         map (\<lambda>c. (cp_index c, cp_segment c, cp_size c, chunk_key x u fid vid (cp_segment c) (cp_index c))) (cf_chunks req)"
      and pend: "\<And>c. c \<in> set rows \<Longrightarrow> c_version c = vid \<and> c_uploaded_at c = None"
      and fresh: "\<And>v. v \<in> set (t_versions ?w1) \<Longrightarrow> v_id v \<noteq> vid"
    have rows: "filter (\<lambda>c. c_version c = vid) (t_chunks w') = rows"
      using no_chunk_of_fresh_version [OF w1 fresh] pend by (simp add: R filter_id_conv)
    have m3: "map (\<lambda>c. (c_index c, c_segment c, c_key c)) rows =
       map (\<lambda>c. (cp_index c, cp_segment c, chunk_key x u fid vid (cp_segment c) (cp_index c))) (cf_chunks req)"
      using arg_cong [OF m, of "map (\<lambda>(a, b, c, d). (a, b, d))"] by (simp add: comp_def)
    have m1: "map c_index rows = map cp_index (cf_chunks req)"
      using arg_cong [OF m, of "map fst"] by (simp add: comp_def)
    have len: "length rows = length (cf_chunks req)" "length urls = length (cf_chunks req)"
      using arg_cong [OF m, of length] arg_cong [OF keys, of length] by simp_all
    show ?thesis
      unfolding Let_def rows using f v pend ok by (simp add: m3 m1 keys len R r plan_ok_def)
  qed
qed


text \<open>The answer of a run and the state it leaves, when the answer is known to be a success.\<close>

lemma run_ok: "fst p = Inr r \<Longrightarrow> p = (Inr r, snd p)"
  by (metis prod.collapse)

lemma create_file_runs:
  assumes "validate_create_request x req = Inr ()" and "current_usage w u = Inr usage"
    and "within_quota usage (cf_total_size req)" and "for_option (cf_folder req) (\<lambda>folder. verify_folder_ownership w folder u) = Inr ()"
    and "decode_b64 x (cf_blake3 req) = Inr hash" and "check_duplicate x u (cf_folder req) hash w = Inr NoDuplicate"
    and "\<not> isl (create_file_tx x t fid vid gen u d req w)" and "generate_upload_urls x u fid vid (plan_indices req) = Inr urls"
  shows "create_file x t fid vid gen u d req w =
      (Inr \<lparr>cr_file = fid, cr_version = vid, cr_deduplicated = False, cr_urls = urls\<rparr>,
       projr (create_file_tx x t fid vid gen u d req w))"
  using assms by (cases "create_file_tx x t fid vid gen u d req w") (simp_all add: create_file_def check_that_def del: for_option_ok)

lemma sample_create_file:
  obtains r w' where "create_file sample_ext 9 33 44 (\<lambda>i. 60 + i) 1 7 (sample_request (Some 11) 7 [20, 21]) sample_vault = (Inr r, w')"
    "\<not> cr_deduplicated r" "length (cr_urls r) = 2" "cr_version r = 44"
    "w' = projr (create_file_tx sample_ext 9 33 44 (\<lambda>i. 60 + i) 1 7 (sample_request (Some 11) 7 [20, 21]) sample_vault)"
proof -
  let ?req = "sample_request (Some 11) 7 [20, 21]"
  have "validate_create_request sample_ext ?req = Inr ()" "current_usage sample_vault 1 = Inr 5" "within_quota 5 (cf_total_size ?req)"
    "for_option (cf_folder ?req) (\<lambda>folder. verify_folder_ownership sample_vault folder 1) = Inr ()"
    "decode_b64 sample_ext (cf_blake3 ?req) = Inr (replicate 32 1)"
    "check_duplicate sample_ext 1 (cf_folder ?req) (replicate 32 1) sample_vault = Inr NoDuplicate"
    "\<not> isl (create_file_tx sample_ext 9 33 44 (\<lambda>i. 60 + i) 1 7 ?req sample_vault)"
    "generate_upload_urls sample_ext 1 33 44 (plan_indices ?req) =
     Inr [\<lparr>cu_index = 0, cu_segment = 0, cu_url = ''put:1/33/44/0/0'', cu_key = ''1/33/44/0/0'', cu_already_uploaded = False\<rparr>,
          \<lparr>cu_index = 1, cu_segment = 0, cu_url = ''put:1/33/44/0/1'', cu_key = ''1/33/44/0/1'', cu_already_uploaded = False\<rparr>]"
    by code_simp+
  from create_file_runs [OF this] show ?thesis by (rule that) simp_all
qed

theorem create_file_registers_witness:
  "\<exists>r w'. create_file sample_ext 9 33 44 (\<lambda>i. 60 + i) 1 7 (sample_request (Some 11) 7 [20, 21]) sample_vault = (Inr r, w') \<and>
     map c_index (filter (\<lambda>c. c_version c = 44) (t_chunks w')) = [0, 1]"
proof (rule sample_create_file)
  let ?req = "sample_request (Some 11) 7 [20, 21]"
  fix r w'
  assume r: "create_file sample_ext 9 33 44 (\<lambda>i. 60 + i) 1 7 ?req sample_vault = (Inr r, w')"
    "\<not> cr_deduplicated r" "length (cr_urls r) = 2"
  have "length (cf_chunks ?req) < 2 ^ 31" by (simp add: sample_request_def)
  note reg = create_file_registers [OF system_invD(1) [OF sample_system] this r(1,2), unfolded Let_def]
  from reg have "map (\<lambda>c. (c_index c, c_segment c, c_key c)) (filter (\<lambda>c. c_version c = 44) (t_chunks w')) =
     map (\<lambda>r. (cu_index r, cu_segment r, cu_key r)) (cr_urls r)" by blast
  from arg_cong [OF this, of length] have "length (filter (\<lambda>c. c_version c = 44) (t_chunks w')) = 2"
    using r(3) by simp
  with reg have "map c_index (filter (\<lambda>c. c_version c = 44) (t_chunks w')) = [0, 1]" by (simp add: numeral_2_eq_2)
  with r(1) show ?thesis by (intro exI conjI)
qed


subsection \<open>Quota\<close>

definition quota_ok :: "uuid \<Rightarrow> vault \<Rightarrow> bool" where
  "quota_ok u w \<longleftrightarrow> (\<forall>f\<in>set (t_files w). 0 \<le> f_size f) \<and> user_usage w u \<le> user_storage_quota_bytes"

lemma user_usage_snoc:
  "t_files w' = t_files w @ [f] \<Longrightarrow>
     user_usage w' u = user_usage w u + (if f_user f = u \<and> f_deleted_at f = None then f_size f else 0)"
  by (simp add: user_usage_def)

lemma sum_filter_le: "(\<And>r. r \<in> set rs \<Longrightarrow> 0 \<le> g r) \<Longrightarrow> sum_list (map g (filter P rs)) \<le> sum_list (map (g :: _ \<Rightarrow> int) rs)"
  by (induction rs) force+

lemma delete_files_usage:
  assumes "\<And>f. f \<in> set (t_files w) \<Longrightarrow> 0 \<le> f_size f"
  shows "user_usage (delete_files P w) u \<le> user_usage w u"
    and "f \<in> set (t_files (delete_files P w)) \<Longrightarrow> 0 \<le> f_size f"
proof -
  let ?live = "\<lambda>f. f_user f = u \<and> f_deleted_at f = None"
  let ?clear = "\<lambda>f. f\<lparr>f_current := None\<rparr> :: file_row"
  have clear: "sum_list (map f_size (filter ?live (upd Q ?clear fs))) = sum_list (map f_size (filter ?live fs))" for Q fs
    by (induction fs) (auto simp: upd_def)
  have files: "\<exists>Q. t_files (delete_files P w) = upd Q ?clear (del P (t_files w))"
    by (auto simp: delete_files_def delete_versions_def Let_def)
  then obtain Q where Q: "t_files (delete_files P w) = upd Q ?clear (del P (t_files w))" by blast
  have "sum_list (map f_size (filter ?live (del P (t_files w)))) \<le> sum_list (map f_size (filter ?live (t_files w)))"
    using sum_filter_le [of "filter ?live (t_files w)" f_size "\<lambda>f. \<not> P f"] assms
    by (simp add: del_def conj_commute)
  then show "user_usage (delete_files P w) u \<le> user_usage w u" by (simp add: user_usage_def Q clear)
  show "0 \<le> f_size f" if "f \<in> set (t_files (delete_files P w))"
    using that assms unfolding Q in_upd_iff by auto
qed

lemma within_quota_iff:
  assumes "usage \<le> user_storage_quota_bytes" and "0 \<le> usage" and "0 \<le> added" and "added \<le> 2 ^ 62"
  shows "within_quota usage added \<longleftrightarrow> usage + added \<le> user_storage_quota_bytes"
proof -
  have "wrap_i64 (usage + added) = usage + added"
    using assms by (intro wrap_i64_id) (simp add: in_i64_def user_storage_quota_bytes_def)
  then show ?thesis by (auto simp: within_quota_def)
qed

lemma usage_nonneg: "(\<forall>f\<in>set (t_files w). 0 \<le> f_size f) \<Longrightarrow> 0 \<le> user_usage w u"
  unfolding user_usage_def by (rule sum_list_nonneg) auto

lemma validate_limits:
  assumes "validate_create_request x req = Inr ()"
  shows "0 \<le> cf_total_size req" "cf_total_size req \<le> max_file_size"
  using assms by (auto simp: validate_create_request_def and_then_ok check_that_ok split: sum.splits)

lemma create_file_outcome:
  assumes "create_file x t fid vid gen u d req w = (res, w')"
  obtains "w' = w"
  | usage w1 where "validate_create_request x req = Inr ()" "current_usage w u = Inr usage"
      "within_quota usage (cf_total_size req)"
      "w1 = w \<or> (\<exists>g. w1 = delete_files (\<lambda>f. f_id f = g) w)"
      "w' = w1 \<or> create_file_tx x t fid vid gen u d req w1 = Inr w'"
proof -
  have "w' = w \<or> (\<exists>usage w1. validate_create_request x req = Inr () \<and> current_usage w u = Inr usage \<and>
      within_quota usage (cf_total_size req) \<and> (w1 = w \<or> (\<exists>g. w1 = delete_files (\<lambda>f. f_id f = g) w)) \<and>
      (w' = w1 \<or> create_file_tx x t fid vid gen u d req w1 = Inr w'))"
    using assms unfolding create_file_def
    by (elim attempt_cases)
      (auto simp: Let_def check_that_def elim!: attempt_cases split: dedup.splits if_splits)
  then show ?thesis using that by blast
qed

text \<open>
  C24: A user within the storage quota stays within it when a file is created: the live files of
  the user never sum to more than 10 GiB after the request, whatever it answers.
\<close>

theorem create_file_quota:
  assumes q: "quota_ok u w" and run: "create_file x t fid vid gen u d req w = (res, w')"
  shows "quota_ok u w'"
proof -
  have nonneg: "\<And>f. f \<in> set (t_files w) \<Longrightarrow> 0 \<le> f_size f" and le: "user_usage w u \<le> user_storage_quota_bytes"
    using q by (auto simp: quota_ok_def)
  have ghost: "quota_ok u (delete_files P w)" for P
    using delete_files_usage [of w, OF nonneg] le by (auto simp: quota_ok_def intro: order_trans)
  have tx: "quota_ok u w2"
    if "quota_ok u w1" "user_usage w1 u \<le> user_usage w u" "create_file_tx x t fid vid gen u d req w1 = Inr w2"
      "validate_create_request x req = Inr ()" "current_usage w u = Inr usage" "within_quota usage (cf_total_size req)" for w1 w2 usage
  proof -
    note lim = validate_limits [OF that(4)]
    have "user_usage w u + cf_total_size req \<le> user_storage_quota_bytes"
      using that(5,6) lim le usage_nonneg [of w u] nonneg
      by (auto simp: current_usage_def within_quota_iff max_file_size_def split: if_splits)
    moreover from that(3) obtain f where "t_files w2 = t_files w1 @ [f]" "f_size f = cf_total_size req"
      by (rule create_file_tx_rows)
    ultimately show ?thesis
      using that(1,2) lim user_usage_snoc [of w2 w1 f u]
      by (auto simp: quota_ok_def)
  qed
  from run show ?thesis
  proof (rule create_file_outcome)
    assume "w' = w" with q show ?thesis by simp
  next
    fix usage w1
    assume v: "validate_create_request x req = Inr ()" "current_usage w u = Inr usage" "within_quota usage (cf_total_size req)"
      and w1: "w1 = w \<or> (\<exists>g. w1 = delete_files (\<lambda>f. f_id f = g) w)"
      and w': "w' = w1 \<or> create_file_tx x t fid vid gen u d req w1 = Inr w'"
    have "quota_ok u w1 \<and> user_usage w1 u \<le> user_usage w u"
      using w1 q ghost delete_files_usage(1) [of w, OF nonneg] by auto
    with w' tx [OF _ _ _ v] show ?thesis by auto
  qed
qed


lemma sample_quota: "quota_ok 1 sample_vault"
  by (simp add: quota_ok_def user_usage_def sample_rows user_storage_quota_bytes_def)

theorem create_file_quota_witness:
  "\<exists>r w'. create_file sample_ext 9 33 44 (\<lambda>i. 60 + i) 1 7 (sample_request (Some 11) 7 [20, 21]) sample_vault = (Inr r, w') \<and> quota_ok 1 w'"
proof (rule sample_create_file)
  fix r w'
  assume "create_file sample_ext 9 33 44 (\<lambda>i. 60 + i) 1 7 (sample_request (Some 11) 7 [20, 21]) sample_vault = (Inr r, w')"
  with create_file_quota [OF sample_quota this] show ?thesis by (intro exI conjI)
qed

lemma bulk_total_sum:
  assumes "bulk_total x acc reqs = Inr tot" and "0 \<le> acc" and "acc + int (length reqs) * max_file_size \<le> 2 ^ 62"
  shows "tot = acc + sum_list (map cf_total_size reqs) \<and> (\<forall>req\<in>set reqs. 0 \<le> cf_total_size req) \<and> tot \<le> 2 ^ 62"
  using assms
proof (induction reqs arbitrary: acc)
  case (Cons req reqs)
  from Cons.prems(1) have v: "validate_bulk_init_request x req = Inr ()"
    and rest: "bulk_total x (wrap_i64 (acc + cf_total_size req)) reqs = Inr tot" by (auto simp: and_then_ok)
  from v have lim: "0 \<le> cf_total_size req" "cf_total_size req \<le> max_file_size"
    by (auto simp: validate_bulk_init_request_def and_then_ok check_that_ok split: sum.splits)
  have bound: "acc + cf_total_size req + int (length reqs) * max_file_size \<le> 2 ^ 62"
    using Cons.prems(3) lim(2) by (simp add: algebra_simps)
  moreover have "0 \<le> int (length reqs) * max_file_size" by (simp add: max_file_size_def)
  ultimately have w: "wrap_i64 (acc + cf_total_size req) = acc + cf_total_size req"
    using Cons.prems(2) lim(1) by (intro wrap_i64_id) (simp add: in_i64_def)
  show ?case using Cons.IH [OF rest] Cons.prems(2) lim bound by (simp add: w)
qed simp

lemma bulk_init_one_rows:
  assumes "bulk_init_one x t fid vid gen u d req w = Inr (r, w')"
  obtains f v rows where "t_files w' = t_files w @ [f]" "t_versions w' = t_versions w @ [v]" "t_chunks w' = t_chunks w @ rows"
    "f_size f = cf_total_size req" "f_user f = u" "f_folder f = cf_folder req" "f_deleted_at f = None" "f_id f = fid"
proof -
  from assms obtain rf w1 vr w2 hash where
    r: "insert_file rf w = Inr w1" "f_id rf = fid" "f_size rf = cf_total_size req" "f_user rf = u" "f_folder rf = cf_folder req" "f_deleted_at rf = None"
    and vr: "insert_version vr w1 = Inr w2" "v_id vr = vid"
    and c: "insert_chunks x t gen u fid vid hash 0 (cf_chunks req) (set_current vid fid w2) = Inr w'"
    unfolding bulk_init_one_def and_then_ok sql_ok
    by clarsimp
  from begin_upload_rows [OF r(1,2) vr c] obtain rows where "t_files w' = t_files w @ [rf\<lparr>f_current := Some vid\<rparr>]"
    "t_versions w' = t_versions w @ [vr]" "t_chunks w' = t_chunks w @ rows" by metis
  with r show ?thesis by (intro that [of "rf\<lparr>f_current := Some vid\<rparr>" vr rows]) simp_all
qed

lemma bulk_init_loop_usage:
  "bulk_init_loop x t ids gen u d i reqs w = Inr (rs, w') \<Longrightarrow>
     user_usage w' u = user_usage w u + sum_list (map cf_total_size reqs) \<and>
     f_size ` set (t_files w') = f_size ` set (t_files w) \<union> cf_total_size ` set reqs"
proof (induction reqs arbitrary: i w rs)
  case (Cons req reqs)
  from Cons.prems obtain r w1 rs' where one: "bulk_init_one x t (fst (ids i)) (snd (ids i)) (gen i) u d req w = Inr (r, w1)"
    and rest: "bulk_init_loop x t ids gen u d (Suc i) reqs w1 = Inr (rs', w')"
    by (auto simp: and_then_ok split: prod.splits)
  from one obtain f where f: "t_files w1 = t_files w @ [f]" "f_size f = cf_total_size req" "f_user f = u" "f_deleted_at f = None"
    by (rule bulk_init_one_rows)
  then have "user_usage w1 u = user_usage w u + cf_total_size req" by (simp add: user_usage_def)
  with Cons.IH [OF rest] f show ?case by auto
qed simp


text \<open>
  C40: The bulk form keeps the quota too: after a bulk initialisation of up to 100 files (the
  limit of the request type) the live files of a user who was within the quota sum to at most
  10 GiB; the accumulated size does not overflow.
\<close>

theorem bulk_init_quota:
  assumes q: "quota_ok u w" and len: "length reqs \<le> 100"
    and run: "bulk_init_uploads x t ids gen u d reqs w = (res, w')"
  shows "quota_ok u w'"
proof (cases res)
  case (Inl e)
  with run bulk_init_uploads_err q show ?thesis by metis
next
  case (Inr rs)
  have nonneg: "\<forall>f\<in>set (t_files w). 0 \<le> f_size f" and le: "user_usage w u \<le> user_storage_quota_bytes"
    using q by (auto simp: quota_ok_def)
  from run [unfolded Inr] obtain tot usage where tot: "bulk_total x 0 reqs = Inr tot" and use: "current_usage w u = Inr usage"
    and wq: "within_quota usage tot" and loop: "bulk_init_loop x t ids gen u d 0 reqs w = Inr (rs, w')"
    by (rule bulk_init_uploads_ok)
  have sum: "tot = sum_list (map cf_total_size reqs)" "\<forall>req\<in>set reqs. 0 \<le> cf_total_size req" "tot \<le> 2 ^ 62"
    using bulk_total_sum [OF tot] len by (simp_all add: max_file_size_def)
  have "0 \<le> tot" unfolding sum(1) using sum(2) by (intro sum_list_nonneg) auto
  then have "user_usage w u + tot \<le> user_storage_quota_bytes"
    using use wq le usage_nonneg [OF nonneg, of u] sum(3)
    by (auto simp: current_usage_def within_quota_iff split: if_splits)
  moreover have "\<forall>f\<in>set (t_files w'). 0 \<le> f_size f"
  proof
    fix f assume "f \<in> set (t_files w')"
    then have "f_size f \<in> f_size ` set (t_files w) \<union> cf_total_size ` set reqs"
      using bulk_init_loop_usage [OF loop] by blast
    then show "0 \<le> f_size f" using nonneg sum(2) by auto
  qed
  ultimately show ?thesis
    using bulk_init_loop_usage [OF loop] sum(1) by (auto simp: quota_ok_def)
qed

theorem bulk_init_quota_witness:
  "\<exists>rs w'. bulk_init_uploads sample_ext 9 (\<lambda>i. (33, 44)) (\<lambda>i k. 60 + k) 1 7 [sample_request (Some 11) 7 [20, 21]] sample_vault = (Inr rs, w') \<and>
     quota_ok 1 w'"
proof -
  let ?reqs = "[sample_request (Some 11) 7 [20, 21]]" and ?run = "bulk_init_uploads sample_ext 9 (\<lambda>i. (33, 44)) (\<lambda>i k. 60 + k) 1 7"
  have "\<not> isl (bulk_init_loop sample_ext 9 (\<lambda>i. (33, 44)) (\<lambda>i k. 60 + k) 1 7 0 ?reqs sample_vault)" by code_simp
  moreover have "bulk_total sample_ext 0 ?reqs = Inr 7" "current_usage sample_vault 1 = Inr 5" "within_quota 5 7" "require_r2 sample_ext = Inr ()"
    by code_simp+
  ultimately obtain rs w' where "?run ?reqs sample_vault = (Inr rs, w')"
    by (cases "bulk_init_loop sample_ext 9 (\<lambda>i. (33, 44)) (\<lambda>i k. 60 + k) 1 7 0 ?reqs sample_vault")
      (auto simp: bulk_init_uploads_def check_that_def)
  with bulk_init_quota [OF sample_quota _ this] show ?thesis by auto
qed

end
