(* ===== verification/Manage_Properties.thy ===== *)
theory Manage_Properties
  imports Files_Manage Folder_Properties Upload_Properties
begin

text \<open>
  Properties of the second half of the file service: the trash of files, permanent deletion,
  versions, download manifests and the listing.
\<close>

subsection \<open>Files through the trash and back\<close>

lemma file_chain_live:
  assumes sys: "system_inv now w" and f: "f \<in> set (t_files w)" "live_file fid u f"
    and fo: "fo \<in> set (t_folders w)" "fo_id fo \<in> set (file_chain w fid)"
  shows "fo_deleted_at fo = None"
proof -
  note I = system_invD [OF sys]
  from fo(2) obtain q g where q: "q \<in> set (t_folders w)" and g: "g \<in> set (t_files w)" "f_id g = fid" "f_folder g = Some (fo_id q)"
    and path: "(fo_id q, fo_id fo) \<in> ((child_rel w)\<inverse>)\<^sup>*"
    by (auto simp: file_chain_def set_ancestors)
  have "g = f" using g f by (intro ukeyD [OF vault_invD(2) [OF I(1)]]) (auto simp: live_file_def)
  then have live: "fo_deleted_at q = None"
    using trash_okD(2) [OF I(5) q g(1,3)] f(2) by (cases "fo_deleted_at q") (auto simp: live_file_def)
  from path have "(fo_id fo, fo_id q) \<in> (child_rel w)\<^sup>*" by (simp add: rtrancl_converse)
  then show ?thesis using live_path [OF I(1,5) _ q refl live] fo(1) by blast
qed

lemma delete_file_live:
  assumes "has_row (live_file fid u) (t_files w)" and "delete_file t u d fid w = (Inr r, w')"
  shows "t_files w' = upd (live_file fid u) (\<lambda>f. f\<lparr>f_deleted_at := Some t, f_updated_at := t\<rparr>) (t_files w)"
    "t_folders w' = t_folders w" "has_row (trashed_file fid u) (t_files w')" "row_count (live_file fid u) (t_files w') = 0"
proof -
  obtain f where f: "f \<in> set (t_files w)" "live_file fid u f" using assms(1) by auto
  from assms(2) obtain ev meta where log: "audit_log t (Some u) (Some d) ev meta (w\<lparr>t_files := upd (live_file fid u)
       (\<lambda>f. f\<lparr>f_deleted_at := Some t, f_updated_at := t\<rparr>) (t_files w)\<rparr>) = Inr w'"
    using assms(1) unfolding delete_file_def Let_def attempt_sql_ok row_count_0 by (auto simp: attempt_oks split: if_splits)
  show files: "t_files w' = upd (live_file fid u) (\<lambda>f. f\<lparr>f_deleted_at := Some t, f_updated_at := t\<rparr>) (t_files w)" "t_folders w' = t_folders w"
    using same_tablesD [OF audit_log_frame [OF log]] by simp_all
  show "has_row (trashed_file fid u) (t_files w')"
    unfolding files has_row_iff bex_upd using f by (auto simp: trashed_file_def live_file_def intro!: bexI [of _ f])
  show "row_count (live_file fid u) (t_files w') = 0"
    unfolding files row_count_0 ball_upd by (auto simp: live_file_def)
qed

text \<open>
  C33: Deleting a live file is idempotent, and restoring it gives back the rows of all folders and
  files, with every column but the update times.
\<close>

theorem file_trash_roundtrip:
  assumes sys: "system_inv now w" and live: "has_row (live_file fid u) (t_files w)"
    and del: "delete_file t u d fid w = (Inr (), w1)"
  shows "delete_file t' u d' fid w1 = (Inr (), w1) \<and>
    (\<exists>w2. restore_file t'' u fid w1 = (Inr (), w2) \<and> map folder_content (t_folders w2) = map folder_content (t_folders w) \<and>
       map file_content (t_files w2) = map file_content (t_files w))"
proof -
  note D = delete_file_live [OF live del]
  have "delete_file t' u d' fid w1 = (Inr (), w1)"
    using D(3,4) by (auto simp: delete_file_def trashed_file_def)
  moreover obtain w2 where w2: "restore_file t'' u fid w1 = (Inr (), w2)"
    using D(3) by (auto simp: restore_file_def Let_def row_count_0)
  moreover have "map folder_content (t_folders w2) = map folder_content (t_folders w) \<and> map file_content (t_files w2) = map file_content (t_files w)"
    using w2
  proof (rule restore_file_ok)
    fix ev w3
    assume fos: "t_folders w3 = upd (\<lambda>fo. fo_id fo \<in> set (file_chain w1 fid) \<and> fo_deleted_at fo \<noteq> None)
         (\<lambda>fo. fo\<lparr>fo_deleted_at := None, fo_updated_at := t''\<rparr>) (t_folders w1)"
      and fs: "t_files w3 = upd (trashed_file fid u) (\<lambda>f. f\<lparr>f_deleted_at := None, f_updated_at := t''\<rparr>) (t_files w1)"
      and w2': "w2 = file_broadcast u ev w3"
    obtain f where f: "f \<in> set (t_files w)" "live_file fid u f" using live by auto
    have "has_row (\<lambda>f. f_id f = fid \<and> f_folder f = Some i) (t_files w1) = has_row (\<lambda>f. f_id f = fid \<and> f_folder f = Some i) (t_files w)" for i
      by (simp add: D(1) bex_upd if_distrib [of f_id] if_distrib [of f_folder] cong: if_cong)
    then have chain: "file_chain w1 fid = file_chain w fid" unfolding file_chain_def D(2) by simp
    have "t_folders w3 = t_folders w"
      unfolding fos D(2) chain using file_chain_live [OF sys f] by (intro upd_none) auto
    moreover have "map file_content (t_files w3) = map file_content (t_files w)"
      unfolding fs D(1)
    proof (rule upd_undo)
      fix r assume r: "r \<in> set (t_files w)"
      have "r = f" if "f_id r = fid" using that r f
        by (intro ukeyD [OF vault_invD(2) [OF system_invD(1) [OF sys]]]) (auto simp: live_file_def)
      then show "trashed_file fid u (if live_file fid u r then r\<lparr>f_deleted_at := Some t, f_updated_at := t\<rparr> else r) = live_file fid u r"
        using f(2) by (auto simp: trashed_file_def live_file_def)
    qed (auto simp: content_restored live_file_def)
    ultimately show ?thesis using w2' by simp
  qed
  ultimately show ?thesis by blast
qed

theorem file_trash_roundtrip_witness:
  "\<exists>w1 w2. delete_file 9 1 7 30 sample_vault = (Inr (), w1) \<and> restore_file 11 1 30 w1 = (Inr (), w2) \<and>
     map file_content (t_files w2) = map file_content (t_files sample_vault)"
proof -
  have "fst (delete_file 9 1 7 30 sample_vault) = Inr ()" by code_simp
  note del = run_ok [OF this]
  have "has_row (live_file 30 1) (t_files sample_vault)" by code_simp
  from file_trash_roundtrip [OF sample_system this del] del show ?thesis by blast
qed

subsection \<open>Permanent deletion\<close>

lemma delete_folders_rows:
  assumes "\<And>f. f \<in> set (t_files w) \<Longrightarrow> \<not> opt_in (f_folder f) (folder_closure P (t_folders w))"
  shows "delete_folders P w = w\<lparr>t_folders := del (\<lambda>fo. fo_id fo \<in> set (folder_closure P (t_folders w))) (t_folders w)\<rparr>"
  unfolding delete_folders_def Let_def folder_closure_def [symmetric]
  by (rule delete_files_none) (use assms in simp)

text \<open>On a well-formed hierarchy the folders below a trashed one are the trashed folders.\<close>

lemma trashed_tree_stamp:
  assumes sys: "system_inv now w" and fo: "fo \<in> set (t_folders w)"
  shows "fo_id fo \<in> set (trashed_tree w u) \<longleftrightarrow> fo_user fo = u \<and> fo_deleted_at fo \<noteq> None"
proof
  note I = system_invD [OF sys]
  let ?P = "\<lambda>fo. fo_user fo = u \<and> fo_deleted_at fo \<noteq> None"
  note T = trashed_closure [OF I(1,4), where u = u]
  show "fo_id fo \<in> set (trashed_tree w u)" if "fo_user fo = u \<and> fo_deleted_at fo \<noteq> None"
    using that fo by (force simp: trashed_tree_def set_rec_union)
  assume "fo_id fo \<in> set (trashed_tree w u)"
  moreover from this have "fo_id fo \<in> (child_rel w)\<^sup>* `` (fo_id ` {r \<in> set (t_folders w). ?P r})"
    unfolding T(1) [symmetric] by (simp add: folder_closure_def set_rec_union child_edges_rel image_def)
  then obtain r where r: "r \<in> set (t_folders w)" "?P r" "(fo_id r, fo_id fo) \<in> (child_rel w)\<^sup>*" by auto
  ultimately show "?P fo"
    using T(2) [OF fo] live_path [OF I(1,5) r(3) fo refl] r(1,2) by (cases "fo_deleted_at fo") auto
qed

text \<open>
  C32: Emptying the trash removes exactly the trashed folders and files of the user and counts
  the files; live rows are untouched, and every object key that is no longer referenced by a
  chunk is queued for deletion.
\<close>

theorem empty_trash_effect:
  assumes sys: "system_inv now w" and run: "empty_trash x t u w = (Inr n, w')"
  shows "t_folders w' = filter (\<lambda>fo. \<not> (fo_user fo = u \<and> fo_deleted_at fo \<noteq> None)) (t_folders w) \<and>
    t_files w' = filter (\<lambda>f. \<not> (f_user f = u \<and> f_deleted_at f \<noteq> None)) (t_files w) \<and>
    n = length (filter (\<lambda>f. f_user f = u \<and> f_deleted_at f \<noteq> None) (t_files w)) \<and>
    chunk_keys w - chunk_keys w' \<subseteq> queued_keys w'"
proof -
  note I = system_invD [OF sys]
  let ?P = "\<lambda>fo. fo_user fo = u \<and> fo_deleted_at fo \<noteq> None"
  let ?Q = "\<lambda>f. f_user f = u \<and> (f_deleted_at f \<noteq> None \<or> opt_in (f_folder f) (trashed_tree w u))"
  let ?fids = "map f_id (filter ?Q (t_files w))"
  note T = trashed_closure [OF I(1,4), where u = u]
  have Q: "?Q f \<longleftrightarrow> f_user f = u \<and> f_deleted_at f \<noteq> None" if f: "f \<in> set (t_files w)" for f
  proof -
    have "f_deleted_at f \<noteq> None" if "opt_in (f_folder f) (trashed_tree w u)"
    proof -
      from that obtain d where d: "f_folder f = Some d" "d \<in> set (trashed_tree w u)" by (auto simp: opt_in_iff)
      obtain p where p: "p \<in> set (t_folders w)" "fo_id p = d" using fkeyD [OF vault_invD(7) [OF I(1)] f d(1)] by auto
      have "fo_deleted_at p \<noteq> None" using trashed_tree_stamp [OF sys p(1)] d(2) p(2) by blast
      then show ?thesis using trash_okD(2) [OF I(5) p(1) f] d(1) p(2) by (cases "fo_deleted_at p"; cases "f_deleted_at f") auto
    qed
    then show ?thesis by blast
  qed
  have fids: "f_id f \<in> set ?fids \<longleftrightarrow> f_user f = u \<and> f_deleted_at f \<noteq> None" if "f \<in> set (t_files w)" for f
    unfolding key_in_filter [OF vault_invD(2) [OF I(1)] that] using Q [OF that] .
  obtain m ks w1 where h: "hard_delete_files t ?fids (Some u) w = ((m, ks), w1)" by (rule split3)
  from run have w': "w' = delete_objects_best_effort x ks (delete_folders ?P w1)" and n: "n = m"
    unfolding empty_trash_def Let_def h prod.case by simp_all
  note R = hard_delete_rows [OF I(1) h] and K = hard_delete_reported [OF h]
  have files: "t_files w1 = filter (\<lambda>f. \<not> (f_user f = u \<and> f_deleted_at f \<noteq> None)) (t_files w)"
    unfolding R(2) del_def using fids by (intro filter_cong) auto
  have closure: "fo_id fo \<in> set (folder_closure ?P (t_folders w1)) \<longleftrightarrow> ?P fo" if "fo \<in> set (t_folders w)" for fo
    unfolding R(1) T(1) by (rule trashed_tree_stamp [OF sys that])
  have none: "\<not> opt_in (f_folder f) (folder_closure ?P (t_folders w1))" if "f \<in> set (t_files w1)" for f
    using that Q [of f] T(3) [of f] unfolding R(1) files opt_in_iff T(1) by auto
  have drop: "delete_folders ?P w1 = w1\<lparr>t_folders := del (\<lambda>fo. fo_id fo \<in> set (folder_closure ?P (t_folders w1))) (t_folders w1)\<rparr>"
    by (rule delete_folders_rows) (rule none)
  have "del (\<lambda>fo. fo_id fo \<in> set (folder_closure ?P (t_folders w1))) (t_folders w1) = filter (\<lambda>fo. \<not> ?P fo) (t_folders w)"
    unfolding del_def using closure by (intro filter_cong) (simp_all only: R(1))
  then have "t_folders w' = filter (\<lambda>fo. \<not> ?P fo) (t_folders w)" unfolding w' drop by simp
  moreover have "t_files w' = t_files w1" "chunk_keys w' = chunk_keys w1" "queued_keys w' = queued_keys w1"
    unfolding w' drop by (simp_all add: chunk_keys_def queued_keys_def)
  moreover have "m = length (filter (\<lambda>f. f_user f = u \<and> f_deleted_at f \<noteq> None) (t_files w))"
    unfolding K(3) row_count_def using fids by (intro arg_cong [of _ _ length] filter_cong) auto
  ultimately show ?thesis using files K(1,2) n by auto
qed

theorem empty_trash_effect_witness:
  "\<exists>w'. empty_trash sample_ext 9 1 sample_vault = (Inr 1, w') \<and> length (t_files sample_vault) = 3 \<and>
     t_files w' = filter (\<lambda>f. \<not> (f_user f = 1 \<and> f_deleted_at f \<noteq> None)) (t_files sample_vault)"
proof -
  have "fst (empty_trash sample_ext 9 1 sample_vault) = Inr 1" by code_simp
  note run = run_ok [OF this]
  from empty_trash_effect [OF sample_system run] run show ?thesis by (auto simp: sample_rows)
qed


text \<open>
  C31: A permanent deletion of a folder removes exactly the folders of its subtree and the files
  in them, revokes the shares of those folders, and queues every object key that no chunk
  references any more.
\<close>

theorem permanent_delete_folder_effect:
  assumes sys: "system_inv now w" and run: "permanent_delete_folder x t u fid w = (Inr (), w')"
  defines "below \<equiv> (child_rel w)\<^sup>* `` {fid}"
  shows "t_folders w' = filter (\<lambda>fo. fo_id fo \<notin> below) (t_folders w) \<and>
    t_files w' = filter (\<lambda>f. \<forall>i\<in>below. f_folder f \<noteq> Some i) (t_files w) \<and>
    (\<forall>s\<in>set (t_shares w'). sh_type s = ''folder'' \<and> sh_item s \<in> below \<longrightarrow> sh_revoked_at s \<noteq> None) \<and>
    chunk_keys w - chunk_keys w' \<subseteq> queued_keys w'"
  using run
proof (rule permanent_delete_folder_ok)
  note I = system_invD [OF sys]
  let ?S = "subtree w [fid] u"
  let ?P = "\<lambda>fo. fo_id fo \<in> set ?S \<and> fo_user fo = u"
  let ?fids = "map f_id (filter (\<lambda>f. opt_in (f_folder f) ?S \<and> f_user f = u) (t_files w))"
  fix n ks and w1 w4 :: vault and ev ev' meta
  let ?sh = "upd (\<lambda>s. sh_type s = ''folder'' \<and> sh_item s \<in> set ?S \<and> sh_revoked_at s = None)
      (\<lambda>s. s\<lparr>sh_revoked_at := Some t\<rparr>) (t_shares w1)"
  assume root: "has_row (\<lambda>fo. fo_id fo = fid \<and> fo_user fo = u) (t_folders w)"
    and h: "hard_delete_files t ?fids (Some u) w = ((n, ks), w1)"
    and log: "audit_log t (Some u) None ev' meta (delete_folders ?P (w1\<lparr>t_shares := ?sh\<rparr>)) = Inr w4"
    and w': "w' = broadcast_sync u ev (delete_objects_best_effort x ks w4)"
  from root obtain fo where "fo \<in> set (t_folders w)" "fo_id fo = fid" "fo_user fo = u" by auto
  then have S: "set ?S = below" using subtree_all [OF I(1,4), of fo u] by (simp add: below_def)
  note R = hard_delete_rows [OF I(1) h] and K = hard_delete_reported [OF h]
  have mine: "f_user f = u" if "f \<in> set (t_files w)" "opt_in (f_folder f) ?S" for f
    using that subtree_file [OF I(4)] by (auto simp: opt_in_iff)
  have fids: "f_id f \<in> set ?fids \<longleftrightarrow> opt_in (f_folder f) ?S" if "f \<in> set (t_files w)" for f
    unfolding key_in_filter [OF vault_invD(2) [OF I(1)] that] using mine [OF that] by blast
  have files: "t_files w1 = filter (\<lambda>f. \<not> opt_in (f_folder f) ?S) (t_files w)"
    unfolding R(2) del_def using fids by (intro filter_cong) auto
  have clo: "set (folder_closure ?P (t_folders w)) = set ?S" by (rule subtree_closure [OF I(1,4)])
  have drop: "delete_folders ?P (w1\<lparr>t_shares := ?sh\<rparr>) =
      w1\<lparr>t_shares := ?sh, t_folders := del (\<lambda>fo. fo_id fo \<in> set ?S) (t_folders w)\<rparr>"
  proof -
    have "\<not> opt_in (f_folder f) (folder_closure ?P (t_folders (w1\<lparr>t_shares := ?sh\<rparr>)))"
      if "f \<in> set (t_files (w1\<lparr>t_shares := ?sh\<rparr>))" for f
      using that by (simp add: files R(1) opt_in_iff clo)
    from delete_folders_rows [OF this] show ?thesis by (simp add: R(1) clo)
  qed
  have same: "t_folders w' = del (\<lambda>fo. fo_id fo \<in> set ?S) (t_folders w)" "t_files w' = t_files w1" "t_shares w' = ?sh"
    "chunk_keys w' = chunk_keys w1" "queued_keys w' = queued_keys w1"
    using audit_log_frame [OF log] unfolding w' drop by (simp_all add: same_tables_def chunk_keys_def queued_keys_def)
  have "\<forall>s\<in>set ?sh. sh_type s = ''folder'' \<and> sh_item s \<in> below \<longrightarrow> sh_revoked_at s \<noteq> None"
    unfolding ball_upd S by auto
  then show ?thesis using K(1,2) by (auto simp: same files S del_def opt_in_iff intro: filter_cong)
qed

theorem permanent_delete_folder_effect_witness:
  "\<exists>w'. permanent_delete_folder sample_ext 9 1 10 sample_vault = (Inr (), w') \<and>
     t_folders w' = filter (\<lambda>fo. fo_id fo \<notin> (child_rel sample_vault)\<^sup>* `` {10}) (t_folders sample_vault)"
proof -
  have "fst (permanent_delete_folder sample_ext 9 1 10 sample_vault) = Inr ()" by code_simp
  note run = run_ok [OF this]
  from permanent_delete_folder_effect [OF sample_system run] run show ?thesis by blast
qed


subsection \<open>Versions\<close>

text \<open>
  \<open>restore_version\<close> does not ask whether the version was ever uploaded: restoring the pending
  version of a file succeeds, makes it current and active in place of the complete one, and the
  completeness check of the file then fails.
\<close>

theorem restore_version_incomplete:
  "verify_download_completeness 1 30 None sample_vault = Inr True \<and>
   (\<exists>w'. restore_version 9 1 7 30 42 sample_vault = (Inr (), w') \<and> verify_download_completeness 1 30 None w' = Inr False)"
proof -
  have before: "verify_download_completeness 1 30 None sample_vault = Inr True" by code_simp
  have ok: "fst (restore_version 9 1 7 30 42 sample_vault) = Inr ()" by code_simp
  have after: "verify_download_completeness 1 30 None (snd (restore_version 9 1 7 30 42 sample_vault)) = Inr False" by code_simp
  show ?thesis by (rule conjI [OF before]) (rule exI, rule conjI [OF run_ok [OF ok] after])
qed

text \<open>
  Deleting a version removes its object keys from the database without queueing them for
  deletion: when the delete request to the object store fails, the object is never deleted.
\<close>

theorem delete_version_loses_keys:
  "\<exists>x w'. delete_version x 9 1 30 42 sample_vault = (Inr (), w') \<and> sdk_delete x [''k42''] = DeleteSendError \<and>
     ''k42'' \<in> chunk_keys sample_vault \<and> ''k42'' \<notin> chunk_keys w' \<union> queued_keys w'"
proof -
  let ?x = "sample_ext\<lparr>sdk_delete := \<lambda>_. DeleteSendError\<rparr>"
  let ?run = "delete_version ?x 9 1 30 42 sample_vault"
  have ok: "fst ?run = Inr ()" by code_simp
  have err: "sdk_delete ?x [''k42''] = DeleteSendError" by simp
  have "''k42'' \<in> set (map c_key (t_chunks sample_vault))"
    "''k42'' \<notin> set (map c_key (t_chunks (snd ?run))) \<union> set (map p_key (t_pending (snd ?run)))" by code_simp+
  then have "''k42'' \<in> chunk_keys sample_vault" "''k42'' \<notin> chunk_keys (snd ?run) \<union> queued_keys (snd ?run)"
    by (simp_all add: chunk_keys_def queued_keys_def)
  then show ?thesis by (rule_tac exI, rule_tac exI) (rule conjI [OF run_ok [OF ok] conjI [OF err conjI]])
qed

subsection \<open>Listing\<close>

text \<open>
  The pages of a file listing partition it: with a limit between 1 and 1000, consecutive
  pages concatenate to all files of the folder in descending order of their update time, no page
  is longer than the limit and each carries the total.
\<close>

theorem list_files_pages:
  fixes x :: ext
  assumes "1 \<le> lim" and "lim \<le> 1000" and "length (folder_files w u folder trashed) \<le> nat lim * n"
  shows "concat (map (\<lambda>i. fst (list_files x u folder lim (lim * int i) trashed w)) [0..<n]) =
      map (file_response_of x w None) (sort_desc f_updated_at (folder_files w u folder trashed)) \<and>
    (\<forall>off. length (fst (list_files x u folder lim off trashed w)) \<le> nat lim \<and>
       snd (list_files x u folder lim off trashed w) = int (length (folder_files w u folder trashed)))"
proof -
  have lim: "clamp 1 1000 lim = lim" "max (lim * int i) 0 = lim * int i" for i
    using assms(1,2) by (simp_all add: clamp_def)
  let ?rows = "sort_desc f_updated_at (folder_files w u folder trashed)"
  have "concat (map (\<lambda>i. fst (list_files x u folder lim (lim * int i) trashed w)) [0..<n]) =
      map (file_response_of x w None) (concat (map (\<lambda>i. page lim (lim * int i) ?rows) [0..<n]))"
    by (simp add: list_files_def Let_def lim map_concat comp_def)
  also have "concat (map (\<lambda>i. page lim (lim * int i) ?rows) [0..<n]) = ?rows"
    using assms by (intro pages_concat) simp_all
  finally show ?thesis by (simp add: list_files_def Let_def lim page_length)
qed

theorem list_files_pages_witness:
  "concat (map (\<lambda>i. fst (list_files sample_ext 1 (Some 11) 1 (1 * int i) False sample_vault)) [0..<2]) =
     map (file_response_of sample_ext sample_vault None) (sort_desc f_updated_at (folder_files sample_vault 1 (Some 11) False))"
  using list_files_pages [of 1 sample_vault 1 "Some 11" False 2 sample_ext] by (simp add: folder_files_def sample_rows)

end
