(* ===== verification/Completion_Properties.thy ===== *)
theory Completion_Properties
  imports Upload_Properties
begin

text \<open>
  Properties of the end of an upload: what \<open>complete_upload\<close> answers and does, that a partial
  completion can be resumed, and what cancellation leaves behind.
\<close>

subsection \<open>Marking chunks\<close>

lemma upd_compose:
  assumes "\<And>r. P (if Q r then g r else r) = P r" and "\<And>r. P r \<Longrightarrow> Q r \<Longrightarrow> g (g r) = g r"
  shows "upd P g (upd Q g rs) = upd (\<lambda>r. P r \<or> Q r) g rs"
  using assms by (induction rs) (auto simp: upd_def)

lemma upd_pred_cong: "(\<And>r. r \<in> set rs \<Longrightarrow> P r = Q r) \<Longrightarrow> upd P g rs = upd Q g rs"
  by (simp add: upd_def cong: map_cong)

lemma mark_uploaded_eq:
  "mark_uploaded now vid etags cs rows =
     upd (\<lambda>r. c_version r = vid \<and> map_of etags (c_index r) \<noteq> None \<and> (\<exists>c\<in>set cs. c_index c = c_index r \<and> c_uploaded_at c = None))
       (\<lambda>r. r\<lparr>c_uploaded_at := Some now, c_etag := map_of etags (c_index r)\<rparr>) rows"
proof (induction cs arbitrary: rows)
  case Nil
  show ?case by (simp add: upd_none)
next
  case (Cons c cs)
  let ?g = "\<lambda>r. r\<lparr>c_uploaded_at := Some now, c_etag := map_of etags (c_index r)\<rparr> :: chunk_row"
  let ?P = "\<lambda>r. c_version r = vid \<and> map_of etags (c_index r) \<noteq> None \<and> (\<exists>c\<in>set cs. c_index c = c_index r \<and> c_uploaded_at c = None)"
  let ?Q = "\<lambda>r. c_version r = vid \<and> c_index r = c_index c \<and> map_of etags (c_index r) \<noteq> None \<and> c_uploaded_at c = None"
  have "mark_uploaded now vid etags (c # cs) rows = mark_uploaded now vid etags cs (upd ?Q ?g rows)"
    by (auto simp: upd_def split: option.splits intro!: arg_cong [of _ _ "mark_uploaded now vid etags cs"] map_idI [symmetric])
  also have "\<dots> = upd ?P ?g (upd ?Q ?g rows)" by (rule Cons.IH)
  also have "\<dots> = upd (\<lambda>r. ?P r \<or> ?Q r) ?g rows" by (rule upd_compose) auto
  also have "\<dots> = upd (\<lambda>r. c_version r = vid \<and> map_of etags (c_index r) \<noteq> None \<and>
      (\<exists>c\<in>set (c # cs). c_index c = c_index r \<and> c_uploaded_at c = None)) ?g rows"
    by (rule upd_pred_cong) auto
  finally show ?case .
qed

lemma set_version_chunks: "set (version_chunks w vid) = {c \<in> set (t_chunks w). c_version c = vid}"
  by (simp add: version_chunks_def)

lemma insort_key_map: "insort_key f (h a) (map h xs) = map h (insort_key (\<lambda>r. f (h r)) a xs)"
  by (induction xs) auto

lemma sort_key_map: "sort_key f (map h xs) = map h (sort_key (\<lambda>r. f (h r)) xs)"
  by (induction xs) (simp_all add: insort_key_map)

text \<open>Marking the uploaded chunks of a version, seen through its sorted chunk list.\<close>

definition mark_row :: "timestamp \<Rightarrow> (int \<times> string) list \<Rightarrow> chunk_row \<Rightarrow> chunk_row" where
  "mark_row now etags r =
     (if c_uploaded_at r = None \<and> map_of etags (c_index r) \<noteq> None
      then r\<lparr>c_uploaded_at := Some now, c_etag := map_of etags (c_index r)\<rparr> else r)"

lemma mark_row_simps [simp]: "c_version (mark_row now etags r) = c_version r" "c_index (mark_row now etags r) = c_index r"
  "c_uploaded_at (mark_row now etags r) = None \<longleftrightarrow> c_uploaded_at r = None \<and> map_of etags (c_index r) = None"
  by (auto simp: mark_row_def)

lemma marked_rows:
  assumes "vault_inv w"
  shows "t_chunks (marked t req w) =
     map (\<lambda>r. if c_version r = co_version req then mark_row t (co_etags req) r else r) (t_chunks w)"
proof -
  let ?vid = "co_version req" and ?e = "co_etags req"
  have "(\<exists>c\<in>set (version_chunks w ?vid). c_index c = c_index r \<and> c_uploaded_at c = None) \<longleftrightarrow> c_uploaded_at r = None"
    if "r \<in> set (t_chunks w)" "c_version r = ?vid" for r
    using that ukeyD [OF vault_invD(13) [OF assms] that(1)] by (force simp: set_version_chunks)
  then show ?thesis
    unfolding marked_def mark_uploaded_eq by (auto simp: upd_def mark_row_def)
qed

lemma version_chunks_marked:
  assumes "vault_inv w"
  shows "version_chunks (marked t req w) (co_version req) = map (mark_row t (co_etags req)) (version_chunks w (co_version req))"
proof -
  let ?vid = "co_version req" and ?h = "mark_row t (co_etags req)"
  have "filter (\<lambda>c. c_version c = ?vid) (map (\<lambda>r. if c_version r = ?vid then ?h r else r) cs) =
      map ?h (filter (\<lambda>c. c_version c = ?vid) cs)" for cs
    by (induction cs) auto
  then show ?thesis by (simp add: version_chunks_def marked_rows [OF assms] sort_key_map)
qed

subsection \<open>Completion\<close>

text \<open>The pending upload that a completion request names, with everything the request needs.\<close>

definition pending_upload :: "vault \<Rightarrow> uuid \<Rightarrow> uuid \<Rightarrow> uuid \<Rightarrow> bool" where
  "pending_upload w u d vid \<longleftrightarrow>
     has_row (\<lambda>v. v_id v = vid \<and> \<not> v_active v \<and> has_row (live_file (v_file v) u) (t_files w)) (t_versions w) \<and>
     has_row (\<lambda>c. c_version c = vid) (t_chunks w) \<and> user_exists w u \<and> device_exists w d"

text \<open>The chunk indices that are neither uploaded yet nor acknowledged by the request.\<close>

definition missing_after :: "vault \<Rightarrow> complete_upload_request \<Rightarrow> int list" where
  "missing_after w req =
     map c_index (filter (\<lambda>c. c_uploaded_at c = None \<and> map_of (co_etags req) (c_index c) = None)
       (version_chunks w (co_version req)))"

lemma missing_marked:
  assumes "vault_inv w"
  shows "missing_chunks (marked t req w) (co_version req) = missing_after w req"
    and "row_count (\<lambda>c. c_version c = co_version req \<and> c_uploaded_at c = None) (t_chunks (marked t req w)) > 0
      \<longleftrightarrow> missing_after w req \<noteq> []"
proof -
  show "missing_chunks (marked t req w) (co_version req) = missing_after w req"
    by (simp add: missing_chunks_def missing_after_def version_chunks_marked [OF assms] filter_map comp_def)
  show "row_count (\<lambda>c. c_version c = co_version req \<and> c_uploaded_at c = None) (t_chunks (marked t req w)) > 0
      \<longleftrightarrow> missing_after w req \<noteq> []"
    unfolding row_count_pos marked_rows [OF assms] missing_after_def map_is_Nil_conv filter_empty_conv set_version_chunks set_map bex_simps
    by (auto split: if_splits)
qed

lemma audit_log_runs:
  assumes "user_exists w u" and "device_exists w d"
  obtains w' where "audit_log t (Some u) (Some d) ev meta w = Inr w'"
  using assms by (simp add: audit_log_def)

lemma complete_upload_run:
  assumes inv: "vault_inv w" and pend: "pending_upload w u d (co_version req)"
  obtains v w2 ev meta where "v \<in> set (t_versions w)" "v_id v = co_version req" "\<not> v_active v" "has_row (live_file (v_file v) u) (t_files w)"
    "missing_after w req \<noteq> []" "audit_log t (Some u) (Some d) ev meta (marked t req w) = Inr w2"
    "complete_upload t u d req w = (Inl (BadRequest (''missing chunks: '' @ show_int_list (missing_after w req))), w2)"
  | v w2 ev meta ev' where "v \<in> set (t_versions w)" "v_id v = co_version req" "\<not> v_active v" "has_row (live_file (v_file v) u) (t_files w)"
    "missing_after w req = []" "audit_log t (Some u) (Some d) ev meta (activate_version t (co_version req) (v_file v) (marked t req w)) = Inr w2"
    "complete_upload t u d req w = (Inr (), file_broadcast u ev' w2)"
proof -
  let ?vid = "co_version req"
  let ?P = "\<lambda>v. v_id v = ?vid \<and> has_row (\<lambda>f. f_id f = v_file v \<and> f_user f = u \<and> f_deleted_at f = None) (t_files w)"
  from pend obtain v where v: "v \<in> set (t_versions w)" "v_id v = ?vid" "\<not> v_active v" "has_row (live_file (v_file v) u) (t_files w)"
    and ne: "version_chunks w ?vid \<noteq> []" and ex: "user_exists w u" "device_exists w d"
    by (auto simp: pending_upload_def set_version_chunks simp flip: set_empty)
  have find: "find ?P (t_versions w) = Some v"
    using v by (intro find_unique [OF vault_invD(3) [OF inv, unfolded ukey_def]]) (auto simp: live_file_def)
  have ex1: "user_exists (marked t req w) u" "device_exists (marked t req w) d"
    "user_exists (activate_version t ?vid (v_file v) (marked t req w)) u"
    "device_exists (activate_version t ?vid (v_file v) (marked t req w)) d"
    using ex by (simp_all add: user_exists_def device_exists_def marked_def activate_version_def)
  note mk = missing_marked [OF inv, where t = t and req = req]
  let ?mw = "marked t req w" and ?ms = "missing_after w req"
  have eq: "complete_upload t u d req w =
     (if ?ms \<noteq> [] then
        attempt_sql (audit_log t (Some u) (Some d) ''file_upload_partial''
          (JObj [(''version_id'', JUuid ?vid), (''missing_chunks'', JArr (map JInt ?ms))]) ?mw) w
          (\<lambda>w2. (Inl (BadRequest (''missing chunks: '' @ show_int_list ?ms)), w2))
      else
        attempt_sql (audit_log t (Some u) (Some d) ''file_upload_completed'' (JObj [(''version_id'', JUuid ?vid)])
          (activate_version t ?vid (v_file v) ?mw)) w
          (\<lambda>w2. (Inr (), file_broadcast u (mk_event ''uploaded'' ''file'' (v_file v) (JObj [(''version_id'', JUuid ?vid)])) w2)))"
    unfolding complete_upload_def Let_def marked_def [symmetric] mk find option.case using v(3) ne by simp
  show ?thesis
  proof (cases "?ms = []")
    case True
    obtain w2 where "audit_log t (Some u) (Some d) ''file_upload_completed'' (JObj [(''version_id'', JUuid ?vid)])
        (activate_version t ?vid (v_file v) ?mw) = Inr w2"
      using audit_log_runs [OF ex1(3,4)] .
    with True show ?thesis by (intro that(2) [OF v True]) (simp_all add: eq)
  next
    case False
    obtain w2 where "audit_log t (Some u) (Some d) ''file_upload_partial''
        (JObj [(''version_id'', JUuid ?vid), (''missing_chunks'', JArr (map JInt ?ms))]) ?mw = Inr w2"
      using audit_log_runs [OF ex1(1,2)] .
    with False show ?thesis by (intro that(1) [OF v False]) (simp_all add: eq)
  qed
qed


text \<open>
  C18: For a pending upload of the user the answer of \<open>complete_upload\<close> is exact: success when
  every chunk is already uploaded or acknowledged by the request, and otherwise an error that
  lists precisely the missing chunk indices in ascending order.
\<close>

theorem complete_upload_answer:
  assumes "vault_inv w" and "pending_upload w u d (co_version req)"
  shows "fst (complete_upload t u d req w) =
     (if missing_after w req = [] then Inr ()
      else Inl (BadRequest (''missing chunks: '' @ show_int_list (missing_after w req)))) \<and>
     sorted (missing_after w req)"
proof -
  have "sorted (map c_index (version_chunks w (co_version req)))" by (simp add: version_chunks_def)
  then have "sorted (missing_after w req)" by (simp add: missing_after_def sorted_filter)
  then show ?thesis by (rule_tac complete_upload_run [OF assms, where t = t]) simp_all
qed

definition sample_complete :: "(int \<times> string) list \<Rightarrow> complete_upload_request" where
  "sample_complete etags = \<lparr>co_version = 42, co_etags = etags\<rparr>"

lemma sample_pending: "pending_upload sample_vault 1 7 (co_version (sample_complete etags))"
  by (simp add: sample_complete_def pending_upload_def live_file_def sample_rows user_exists_def device_exists_def)

theorem complete_upload_answer_witness:
  "fst (complete_upload 9 1 7 (sample_complete []) sample_vault) = Inl (BadRequest ''missing chunks: [0]'') \<and>
   fst (complete_upload 9 1 7 (sample_complete [(0, ''e'')]) sample_vault) = Inr ()"
proof -
  have "missing_after sample_vault (sample_complete []) = [0]" "missing_after sample_vault (sample_complete [(0, ''e'')]) = []"
    "show_int_list [0] = ''[0]''" by code_simp+
  with complete_upload_answer [OF system_invD(1) [OF sample_system] sample_pending, where t = 9]
  show ?thesis by simp
qed

lemma pending_inactive:
  assumes "vault_inv w" and "pending_upload w u d vid" and "v \<in> set (t_versions w)" and "v_id v = vid"
  shows "\<not> v_active v"
  using assms ukeyD [OF vault_invD(3) [OF assms(1)] assms(3)] by (force simp: pending_upload_def)

lemma deactivated: "a = a\<lparr>v_active := False\<rparr> \<Longrightarrow> \<not> v_active (a :: version_row)"
  by (drule arg_cong [where f = v_active]) simp

text \<open>
  C17: A successful completion of a pending upload leaves a version whose chunks are all
  uploaded, makes it the current version of its file and the only active one, and completing it
  a second time changes nothing.
\<close>

theorem complete_upload_activates:
  assumes inv: "vault_inv w" and pend: "pending_upload w u d (co_version req)"
    and run: "complete_upload t u d req w = (Inr (), w')"
  shows "(\<forall>c\<in>set (t_chunks w'). c_version c = co_version req \<longrightarrow> c_uploaded_at c \<noteq> None) \<and>
    (\<exists>f\<in>set (t_files w'). f_user f = u \<and> f_current f = Some (co_version req) \<and>
       {v_id v |v. v \<in> set (t_versions w') \<and> v_file v = f_id f \<and> v_active v} = {co_version req}) \<and>
    complete_upload t' u d' req w' = (Inr (), w')"
proof -
  let ?vid = "co_version req"
  obtain v w2 ev meta ev' where
    v: "v \<in> set (t_versions w)" "v_id v = ?vid" "has_row (live_file (v_file v) u) (t_files w)"
    and none: "missing_after w req = []"
    and log: "audit_log t (Some u) (Some d) ev meta (activate_version t ?vid (v_file v) (marked t req w)) = Inr w2"
    and w': "w' = file_broadcast u ev' w2"
    by (rule complete_upload_run [OF inv pend, where t = t]) (use run in simp_all)
  note act = activate_version_def [of t ?vid "v_file v"]
  have rows: "t_chunks w' = t_chunks (marked t req w)"
    "t_versions w' = t_versions (activate_version t ?vid (v_file v) w)" "t_files w' = t_files (activate_version t ?vid (v_file v) w)"
    using same_tablesD [OF audit_log_frame [OF log]] w' by (simp_all add: act)
  have "\<forall>c\<in>set (t_chunks w'). c_version c = ?vid \<longrightarrow> c_uploaded_at c \<noteq> None"
    using none by (auto simp: rows marked_rows [OF inv] missing_after_def filter_empty_conv set_version_chunks mark_row_def)
  moreover obtain f where f: "f \<in> set (t_files w)" "live_file (v_file v) u f" using v(3) by auto
  let ?f = "f\<lparr>f_current := Some ?vid, f_updated_at := t\<rparr>"
  have "?f \<in> set (t_files w')" using f by (force simp: rows act in_upd_iff live_file_def)
  moreover have "{v_id v |v. v \<in> set (t_versions w') \<and> v_file v = f_id ?f \<and> v_active v} = {?vid}"
  proof -
    have "f_id ?f = v_file v" using f(2) by (simp add: live_file_def)
    moreover have "v\<lparr>v_active := True\<rparr> \<in> set (t_versions w')" using v(1,2) by (force simp: rows act in_upd_iff)
    moreover have "v_id a = ?vid" if "a \<in> set (t_versions w')" "v_file a = v_file v" "v_active a" for a
      using that by (auto simp: rows act in_upd_iff dest: deactivated split: if_splits)
    ultimately show ?thesis using v(2) by force
  qed
  moreover have "complete_upload t' u d' req w' = (Inr (), w')"
  proof -
    have found: "find (\<lambda>v. v_id v = ?vid \<and> has_row (\<lambda>f. f_id f = v_file v \<and> f_user f = u \<and> f_deleted_at f = None) (t_files w'))
        (t_versions w') = Some (v\<lparr>v_active := True\<rparr>)"
    proof (rule find_unique [OF vault_invD(3) [OF complete_upload_inv [OF inv run], unfolded ukey_def]])
      show "v\<lparr>v_active := True\<rparr> \<in> set (t_versions w')" using v(1,2) by (force simp: rows act in_upd_iff)
      show "v_id (v\<lparr>v_active := True\<rparr>) = ?vid \<and>
          has_row (\<lambda>g. f_id g = v_file (v\<lparr>v_active := True\<rparr>) \<and> f_user g = u \<and> f_deleted_at g = None) (t_files w')"
        using v(2) f(2) \<open>?f \<in> set (t_files w')\<close> by (auto simp: live_file_def intro!: bexI [of _ ?f])
    qed (simp add: v(2))
    show ?thesis unfolding complete_upload_def Let_def found by simp
  qed
  moreover have "f_user ?f = u" "f_current ?f = Some ?vid" using f(2) by (simp_all add: live_file_def)
  ultimately show ?thesis by blast
qed

theorem complete_upload_activates_witness:
  "\<exists>w'. complete_upload 9 1 7 (sample_complete [(0, ''e'')]) sample_vault = (Inr (), w') \<and>
     complete_upload 10 1 7 (sample_complete [(0, ''e'')]) w' = (Inr (), w')"
proof -
  have "fst (complete_upload 9 1 7 (sample_complete [(0, ''e'')]) sample_vault) = Inr ()" by code_simp
  from run_ok [OF this] complete_upload_activates [OF system_invD(1) [OF sample_system] sample_pending run_ok [OF this]]
  show ?thesis by blast
qed

subsection \<open>Resumption\<close>

lemma missing_after_marked:
  assumes inv: "vault_inv w" and same: "co_version req' = co_version req" and rows: "t_chunks w1 = t_chunks (marked t req w)"
  shows "missing_after w1 req' = filter (\<lambda>i. map_of (co_etags req') i = None) (missing_after w req)"
proof -
  have "version_chunks w1 (co_version req) = version_chunks (marked t req w) (co_version req)"
    by (simp add: version_chunks_def rows)
  then show ?thesis
    by (simp add: missing_after_def same version_chunks_marked [OF inv] filter_map comp_def conj_ac)
qed

lemma pending_upload_marked:
  assumes inv: "vault_inv w" and pend: "pending_upload w u d vid" and log: "audit_log t (Some u') d' ev meta (marked t req w) = Inr w1"
  shows "pending_upload w1 u d vid"
proof -
  have "has_row (\<lambda>c. c_version c = vid) (map (\<lambda>r. if c_version r = co_version req then mark_row t (co_etags req) r else r) (t_chunks w))"
  proof -
    obtain c where "c \<in> set (t_chunks w)" "c_version c = vid" using pend by (auto simp: pending_upload_def)
    then show ?thesis unfolding has_row_iff set_map bex_simps by (intro bexI [of _ c]) auto
  qed
  moreover have "t_users w1 = t_users w" "t_devices w1 = t_devices w"
    using audit_log_frame [OF log] by (simp_all add: same_tables_def marked_def)
  ultimately show ?thesis
    using pend same_tablesD [OF audit_log_frame [OF log]] marked_rows [OF inv, of t req]
    by (simp add: pending_upload_def user_exists_def device_exists_def)
qed

text \<open>
  C19: An interrupted upload can be resumed: after a completion that reported missing chunks, a
  second request that acknowledges just those chunks completes the upload.
\<close>

theorem complete_upload_resume:
  assumes inv: "vault_inv w" and pend: "pending_upload w u d (co_version req)"
    and first: "complete_upload t u d req w = (Inl e, w1)"
    and same: "co_version req' = co_version req" and cover: "set (missing_after w req) \<subseteq> fst ` set (co_etags req')"
  shows "\<exists>w2. complete_upload t' u d req' w1 = (Inr (), w2)"
proof -
  obtain ev meta where log: "audit_log t (Some u) (Some d) ev meta (marked t req w) = Inr w1"
    by (rule complete_upload_run [OF inv pend, where t = t]) (use first in simp_all)
  have inv1: "vault_inv w1" by (rule complete_upload_inv [OF inv first])
  have pend1: "pending_upload w1 u d (co_version req')"
    using pending_upload_marked [OF inv pend log] same by simp
  have "missing_after w1 req' = []"
    using missing_after_marked [OF inv same same_tablesD(4) [OF audit_log_frame [OF log]]] cover
    by (auto simp: filter_empty_conv map_of_eq_None_iff)
  then show ?thesis by (rule_tac complete_upload_run [OF inv1 pend1, where t = t']) auto
qed

theorem complete_upload_resume_witness:
  "\<exists>e w1 w2. complete_upload 9 1 7 (sample_complete []) sample_vault = (Inl e, w1) \<and>
     complete_upload 10 1 7 (sample_complete [(0, ''e'')]) w1 = (Inr (), w2)"
proof -
  have "fst (complete_upload 9 1 7 (sample_complete []) sample_vault) = Inl (BadRequest ''missing chunks: [0]'')" by code_simp
  then obtain w1 where w1: "complete_upload 9 1 7 (sample_complete []) sample_vault = (Inl (BadRequest ''missing chunks: [0]''), w1)"
    by (metis prod.collapse)
  have "set (missing_after sample_vault (sample_complete [])) \<subseteq> fst ` set (co_etags (sample_complete [(0, ''e'')]))" by code_simp
  with complete_upload_resume [OF system_invD(1) [OF sample_system] sample_pending w1, of "sample_complete [(0, ''e'')]" 10]
  show ?thesis using w1 by (auto simp: sample_complete_def)
qed


subsection \<open>Cancellation\<close>

lemma filter_map_other:
  assumes "\<And>r. r \<in> set rs \<Longrightarrow> P (g r) = P r" and "\<And>r. r \<in> set rs \<Longrightarrow> P r \<Longrightarrow> g r = r"
  shows "filter P (map g rs) = filter P rs"
  using assms by (induction rs) auto

text \<open>
  The rows after a cancellation. The row of the file stays, also when the cancelled version was its
  only one: the foreign key has set its current version to NULL when the statement that deletes
  it compares that column.
\<close>

lemma cancel_upload_rows:
  assumes inv: "vault_inv w" and run: "cancel_upload x t u fid vid w = (Inr (), w')"
  shows "t_versions w' = filter (\<lambda>v. v_id v \<noteq> vid) (t_versions w) \<and>
    t_chunks w' = filter (\<lambda>c. c_version c \<noteq> vid) (t_chunks w) \<and>
    queued_keys w' = queued_keys w \<union> set (map c_key (filter (\<lambda>c. c_version c = vid) (t_chunks w))) \<and> t_folders w' = t_folders w \<and>
    t_files w' = map (\<lambda>f. if f_current f = Some vid then f\<lparr>f_current := None\<rparr> else f) (t_files w)"
proof -
  let ?keys = "map c_key (filter (\<lambda>c. c_version c = vid) (t_chunks w))"
  from run obtain v where v: "v \<in> set (t_versions w)" "v_id v = vid" "\<not> v_active v" by (rule cancel_upload_ok)
  from run obtain w3 where w3: "w3 = delete_versions (\<lambda>v. v_id v = vid \<and> \<not> v_active v) (delete_chunks (\<lambda>c. c_version c = vid) w)"
    and w': "w' = delete_objects_best_effort x ?keys (queue_deletions t (Some u) ?keys w3)"
    by (rule cancel_upload_step)
  have one: "a = v" if "a \<in> set (t_versions w)" "v_id a = vid" for a
    using that v by (intro ukeyD [OF vault_invD(3) [OF inv]]) auto
  have P: "v_id a = vid \<and> \<not> v_active a \<longleftrightarrow> v_id a = vid" if "a \<in> set (t_versions w)" for a
    using one [OF that] v(3) by auto
  have vs: "filter (\<lambda>a. v_id a = vid \<and> \<not> v_active a) (t_versions w) = filter (\<lambda>a. v_id a = vid) (t_versions w)"
    "del (\<lambda>a. v_id a = vid \<and> \<not> v_active a) (t_versions w) = filter (\<lambda>a. v_id a \<noteq> vid) (t_versions w)"
    using P by (auto simp: del_def intro!: filter_cong)
  have ids: "opt_in c (map v_id (filter (\<lambda>a. v_id a = vid) (t_versions w))) \<longleftrightarrow> c = Some vid" for c
    using v(1,2) by (auto simp: opt_in_iff)
  have "t_versions w3 = filter (\<lambda>v. v_id v \<noteq> vid) (t_versions w)"
    "t_files w3 = map (\<lambda>f. if f_current f = Some vid then f\<lparr>f_current := None\<rparr> else f) (t_files w)"
    unfolding w3 by (simp_all add: delete_versions_def delete_chunks_def Let_def vs ids upd_def)
  moreover have "t_chunks w3 = filter (\<lambda>c. c_version c \<noteq> vid) (t_chunks w)"
    unfolding w3 by (simp add: delete_versions_def delete_chunks_def Let_def vs del_def) (auto intro: filter_cong)
  moreover have "queued_keys w' = queued_keys w \<union> set ?keys"
  proof -
    have "queued_keys w' = queued_keys (queue_deletions t (Some u) ?keys w3)" "queued_keys w3 = queued_keys w"
      by (simp_all add: w' w3 queued_keys_def delete_versions_def delete_chunks_def Let_def)
    then show ?thesis using queued_queue_deletions [of t "Some u" ?keys w3] by simp
  qed
  moreover have "t_folders w' = t_folders w" by (simp add: w' w3 delete_versions_def delete_chunks_def Let_def)
  ultimately show ?thesis using w' by simp
qed

text \<open>
  C39: Cancelling an unfinished upload of one's own removes the version and its chunks, and queues
  the keys of all those chunks for deletion; every other version, chunk and file and every folder
  stays as it was, and no key leaves the queue. A completed version is refused, one that is
  not a version of that file and user is not found; both without effect.
\<close>

theorem cancel_upload_effect:
  assumes inv: "vault_inv w" and run: "cancel_upload x t u fid vid w = (r, w')"
  shows "if \<exists>v\<in>set (t_versions w). v_id v = vid \<and> v_file v = fid \<and> owner_file w u fid
    then if \<exists>v\<in>set (t_versions w). v_id v = vid \<and> v_active v
      then (\<exists>msg. r = Inl (BadRequest msg)) \<and> w' = w
      else r = Inr () \<and>
        t_versions w' = filter (\<lambda>v. v_id v \<noteq> vid) (t_versions w) \<and> t_chunks w' = filter (\<lambda>c. c_version c \<noteq> vid) (t_chunks w) \<and>
        queued_keys w' = queued_keys w \<union> c_key ` {c \<in> set (t_chunks w). c_version c = vid} \<and>
        filter (\<lambda>f. f_id f \<noteq> fid) (t_files w') = filter (\<lambda>f. f_id f \<noteq> fid) (t_files w) \<and> t_folders w' = t_folders w
    else r = Inl NotFound \<and> w' = w"
proof (cases "find (\<lambda>v. v_id v = vid \<and> v_file v = fid \<and> has_row (\<lambda>f. f_id f = fid \<and> f_user f = u) (t_files w)) (t_versions w)")
  case None
  then have "\<not> (\<exists>v\<in>set (t_versions w). v_id v = vid \<and> v_file v = fid \<and> owner_file w u fid)"
    by (auto simp: find_None_all owner_file_def)
  then show ?thesis using None run by (auto simp: cancel_upload_def)
next
  case (Some v)
  then have v: "v \<in> set (t_versions w)" "v_id v = vid" "v_file v = fid" "owner_file w u fid"
    by (auto dest!: find_Some_in simp: owner_file_def)
  have act: "(\<exists>a\<in>set (t_versions w). v_id a = vid \<and> v_active a) \<longleftrightarrow> v_active v"
    using v(1,2) ukeyD [OF vault_invD(3) [OF inv]] by metis
  show ?thesis
  proof (cases "v_active v")
    case True
    then have "(\<exists>msg. r = Inl (BadRequest msg)) \<and> w' = w" using Some run by (auto simp: cancel_upload_def)
    then show ?thesis using True v act by auto
  next
    case False
    then have r: "r = Inr ()" using Some run by (auto simp: cancel_upload_def Let_def)
    note R = cancel_upload_rows [OF inv run [unfolded r]]
    have keys: "c_key ` {c \<in> set (t_chunks w). c_version c = vid} = set (map c_key (filter (\<lambda>c. c_version c = vid) (t_chunks w)))" by simp
    have "f_current f \<noteq> Some vid" if "f \<in> set (t_files w)" "f_id f \<noteq> fid" for f
      using that v current_okD [OF vault_invD(12) [OF inv] that(1) v(1)] by auto
    then have "filter (\<lambda>f. f_id f \<noteq> fid) (t_files w') = filter (\<lambda>f. f_id f \<noteq> fid) (t_files w)"
      using R filter_map_other [of "t_files w" "\<lambda>f. f_id f \<noteq> fid" "\<lambda>f. if f_current f = Some vid then f\<lparr>f_current := None\<rparr> else f"] by auto
    moreover have "\<exists>v\<in>set (t_versions w). v_id v = vid \<and> v_file v = fid \<and> owner_file w u fid" using v by blast
    ultimately show ?thesis using False R r act unfolding keys by simp
  qed
qed

theorem cancel_upload_effect_witness:
  "\<exists>w'. cancel_upload sample_ext 9 2 32 43 sample_vault = (Inr (), w') \<and>
     t_versions w' = filter (\<lambda>v. v_id v \<noteq> 43) (t_versions sample_vault)"
proof -
  have ok: "fst (cancel_upload sample_ext 9 2 32 43 sample_vault) = Inr ()" by code_simp
  note eff = cancel_upload_effect [OF system_invD(1) [OF sample_system] run_ok [OF ok]]
  then show ?thesis using run_ok [OF ok] by (auto split: if_splits)
qed

end
