(* ===== verification/Upload_Download.thy ===== *)
theory Upload_Download
  imports Manage_Properties Completion_Properties
begin

text \<open>
  The life of an upload across the components: \<open>create_file\<close> hands out the URLs, the client
  uploads to them and acknowledges the chunks with \<open>complete_upload\<close>, and the download manifest
  then leads back to exactly the uploaded objects, with the key material of the request.
\<close>

lemma mark_row_rest [simp]: "c_segment (mark_row now etags r) = c_segment r" "c_size (mark_row now etags r) = c_size r"
  "c_key (mark_row now etags r) = c_key r"
  by (simp_all add: mark_row_def)

lemma download_urls_total:
  assumes "\<And>k. k \<in> set (map (\<lambda>(i, s, z, k). k) cs) \<Longrightarrow> \<not> isl (presign_get x k)"
  shows "\<exists>infos. download_urls x cs = Inr infos"
  using assms
proof (induction cs)
  case (Cons c cs)
  obtain i s z k where c: "c = (i, s, z, k)" by (cases c)
  have "\<not> isl (presign_get x k)" using Cons.prems c by auto
  moreover obtain infos where "download_urls x cs = Inr infos" using Cons by auto
  ultimately show ?case by (cases "presign_get x k") (auto simp: c)
qed simp

text \<open>What a completed new upload leaves in the tables.\<close>

lemma completed_upload_rows:
  assumes inv: "vault_inv w" and len: "length (cf_chunks req) < 2 ^ 31"
    and create: "create_file x t fid vid gen u d req w = (Inr r, w1)" and new: "\<not> cr_deduplicated r"
    and complete: "complete_upload t' u d' \<lparr>co_version = cr_version r, co_etags = etags\<rparr> w1 = (Inr (), w2)"
  obtains f v where "cr_file r = fid" "cr_version r = vid" "generate_upload_urls x u fid vid (plan_indices req) = Inr (cr_urls r)"
    "vault_inv w2" "f \<in> set (t_files w2)" "f_id f = fid" "f_user f = u" "f_current f = Some vid"
    "v \<in> set (t_versions w2)" "v_id v = vid" "v_size v = cf_total_size req" "v_total_chunks v = cf_total_chunks req"
    "decode_b64 x (cf_header req) = Inr (v_header v)"
    "\<exists>k. decode_b64 x (cf_key req) = Inr k \<and> v_key v = Some k"
    "\<exists>k. decode_b64 x (cf_key_nonce req) = Inr k \<and> v_key_nonce v = Some k"
    "manifest_chunks w2 vid =
       map (\<lambda>c. (cp_index c, cp_segment c, cp_size c, chunk_key x u fid vid (cp_segment c) (cp_index c))) (cf_chunks req)"
proof -
  from create new obtain dup urls where val: "validate_create_request x req = Inr ()"
    and tx: "create_file_tx x t fid vid gen u d req (case dup of Ghost g \<Rightarrow> delete_files (\<lambda>f. f_id f = g) w | _ \<Rightarrow> w) = Inr w1"
      (is "create_file_tx _ _ _ _ _ _ _ _ ?w0 = _")
    and urls: "generate_upload_urls x u fid vid (plan_indices req) = Inr urls"
    and r: "r = \<lparr>cr_file = fid, cr_version = vid, cr_deduplicated = False, cr_urls = urls\<rparr>"
    by (elim create_file_ok) auto
  have w0: "vault_inv ?w0" using inv by (rule ghost_free)
  have w1: "vault_inv w1" by (rule create_file_tx_step(1) [OF tx w0])
  let ?req = "\<lparr>co_version = vid, co_etags = etags\<rparr>"
  have run: "complete_upload t' u d' ?req w1 = (Inr (), w2)" using complete r by simp
  have w2: "vault_inv w2" by (rule complete_upload_inv [OF w1 run])
  from tx show ?thesis
  proof (rule create_file_tx_rows)
    fix f v rows
    assume R: "t_files w1 = t_files ?w0 @ [f]" "t_versions w1 = t_versions ?w0 @ [v]" "t_chunks w1 = t_chunks ?w0 @ rows"
      and f: "f_id f = fid" "f_user f = u"
      and v: "v_id v = vid" "v_file v = fid" "\<not> v_active v" "v_total_chunks v = cf_total_chunks req" "v_size v = cf_total_size req"
        "decode_b64 x (cf_header req) = Inr (v_header v)" "\<exists>k. decode_b64 x (cf_key req) = Inr k \<and> v_key v = Some k"
        "\<exists>k. decode_b64 x (cf_key_nonce req) = Inr k \<and> v_key_nonce v = Some k"
      and m: "map (\<lambda>c. (c_index c, c_segment c, c_size c, c_key c)) rows =
         map (\<lambda>c. (cp_index c, cp_segment c, cp_size c, chunk_key x u fid vid (cp_segment c) (cp_index c))) (cf_chunks req)"
      and rv: "\<And>c. c \<in> set rows \<Longrightarrow> c_version c = vid \<and> c_uploaded_at c = None"
      and fresh: "\<And>v. v \<in> set (t_versions ?w0) \<Longrightarrow> v_id v \<noteq> vid"
    have only: "a = v" if "a \<in> set (t_versions w1)" "v_id a = vid" for a
      using that v(1) by (intro ukeyD [OF vault_invD(3) [OF w1]]) (auto simp: R)
    obtain w3 ev meta ev' where act: "audit_log t' (Some u) (Some d') ev meta (activate_version t' vid fid (marked t' ?req w1)) = Inr w3"
      and w2': "w2 = file_broadcast u ev' w3"
      using run
    proof (cases rule: complete_upload_cases)
      case same
      then show thesis using only v(3) by auto
    next
      case (complete v' w2' ev meta ev')
      then show thesis using that only [of v'] v(2) by simp
    qed simp
    have rows2: "t_files w2 = t_files (activate_version t' vid fid w1)" "t_versions w2 = t_versions (activate_version t' vid fid w1)"
      "t_chunks w2 = t_chunks (marked t' ?req w1)"
      using same_tablesD [OF audit_log_frame [OF act]] w2' by (simp_all add: activate_version_def)
    have "sorted (map c_index rows)"
    proof -
      have "map c_index rows = map cp_index (cf_chunks req)" using arg_cong [OF m, of "map fst"] by (simp add: comp_def)
      also have "\<dots> = map int [0..<length (cf_chunks req)]" using iffD1 [OF validate_iff [OF len] val] by (simp add: plan_ok_def)
      also have "sorted \<dots>" by (simp add: sorted_map sorted_wrt_upt)
      finally show ?thesis .
    qed
    moreover have "filter (\<lambda>c. c_version c = vid) (t_chunks w1) = rows"
      using no_chunk_of_fresh_version [OF w0 fresh] rv by (simp add: R filter_id_conv)
    ultimately have "version_chunks w1 vid = rows" by (simp add: version_chunks_def sort_key_id_if_sorted)
    moreover have "version_chunks w2 vid = version_chunks (marked t' ?req w1) vid" by (simp add: version_chunks_def rows2)
    ultimately have mc: "manifest_chunks w2 vid = map (\<lambda>c. (c_index c, c_segment c, c_size c, c_key c)) rows"
      using version_chunks_marked [OF w1, of t' ?req] by (simp add: manifest_chunks_def)
    have "f\<lparr>f_current := Some vid, f_updated_at := t'\<rparr> \<in> set (t_files w2)" "v\<lparr>v_active := True\<rparr> \<in> set (t_versions w2)"
      using f v(1) by (auto simp: rows2 activate_version_def in_upd_iff R intro!: bexI [of _ v])
    with f v mc m r urls w2 show ?thesis
      by (intro that [of "f\<lparr>f_current := Some vid, f_updated_at := t'\<rparr>" "v\<lparr>v_active := True\<rparr>"]) simp_all
  qed
qed

text \<open>
  The two promises of code outside the repository: the base64 codec writes back the string it
  read (the standard alphabet has one encoding of each byte sequence), and presigning a download
  URL succeeds.
\<close>

definition canonical_codec :: "ext \<Rightarrow> bool" where
  "canonical_codec x \<longleftrightarrow> (\<forall>s b. b64_decode x s = Some b \<longrightarrow> b64_encode x b = s)"

definition presigns_downloads :: "ext \<Rightarrow> bool" where
  "presigns_downloads x \<longleftrightarrow> sdk_presign_config_ok x \<and> (\<forall>k. sdk_presign_get x k \<noteq> None)"

text \<open>
  C3: What is uploaded can be downloaded: after a new upload was created and completed, the
  manifest of the file lists the planned chunks in order, each with a download URL for the very
  object key its upload URL was made for, and returns the wrapped key, its nonce, the encryption
  header and the size of the request.
\<close>

theorem upload_download:
  assumes inv: "vault_inv w" and len: "length (cf_chunks req) < 2 ^ 31" and x: "canonical_codec x" "presigns_downloads x"
    and create: "create_file x t fid vid gen u d req w = (Inr r, w1)" and new: "\<not> cr_deduplicated r"
    and complete: "complete_upload t' u d' \<lparr>co_version = cr_version r, co_etags = etags\<rparr> w1 = (Inr (), w2)"
  shows "\<exists>m. get_download_manifest x u (cr_file r) None w2 = Inr m \<and>
     map (\<lambda>c. (dc_index c, dc_segment c, dc_size c)) (dm_chunks m) = map (\<lambda>c. (cp_index c, cp_segment c, cp_size c)) (cf_chunks req) \<and>
     list_all2 (\<lambda>down up. presign_get x (cu_key up) = Inr (dc_url down)) (dm_chunks m) (cr_urls r) \<and>
     dm_key m = cf_key req \<and> dm_key_nonce m = cf_key_nonce req \<and> dm_header m = cf_header req \<and> dm_total_size m = cf_total_size req"
  using completed_upload_rows [OF inv len create new complete]
proof (cases)
  case (1 f v)
  let ?chunks = "map (\<lambda>c. (cp_index c, cp_segment c, cp_size c, chunk_key x u fid vid (cp_segment c) (cp_index c))) (cf_chunks req)"
  have find_f: "find (\<lambda>f. f_id f = fid \<and> f_user f = u) (t_files w2) = Some f"
    using 1(4-8) by (intro find_unique [OF vault_invD(2) [OF 1(4), unfolded ukey_def]]) auto
  have find_v: "find (\<lambda>v. v_id v = vid) (t_versions w2) = Some v"
    using 1(4,9,10) by (intro find_unique [OF vault_invD(3) [OF 1(4), unfolded ukey_def]]) auto
  have r2: "require_r2 x = Inr ()" using 1(3) by (auto simp: generate_upload_urls_def split: sum.splits)
  have "\<not> isl (presign_get x k)" for k
    using x(2) by (auto simp: presign_get_def r2_presign_get_def r2 presigns_downloads_def split: option.splits)
  then obtain infos where infos: "download_urls x ?chunks = Inr infos" using download_urls_total by blast
  note D = download_urls_ok [OF infos]
  have keys: "map cu_key (cr_urls r) = map (\<lambda>(i, s, z, k). k) ?chunks"
    using arg_cong [OF upload_urls_rows [OF 1(3) [unfolded plan_indices_def]], of "map (snd \<circ> snd)"] by (simp add: comp_def)
  have "list_all2 (\<lambda>down k. presign_get x k = Inr (dc_url down)) infos (map (\<lambda>(i, s, z, k). k) ?chunks)"
    using D by (auto simp: list_all2_map2 elim!: list_all2_mono)
  then have "list_all2 (\<lambda>down up. presign_get x (cu_key up) = Inr (dc_url down)) infos (cr_urls r)"
    unfolding keys [symmetric] by (simp add: list_all2_map2)
  moreover have "map (\<lambda>c. (dc_index c, dc_segment c, dc_size c)) infos = map (\<lambda>c. (cp_index c, cp_segment c, cp_size c)) (cf_chunks req)"
    using D by (simp add: comp_def)
  moreover obtain key key_nonce where key: "decode_b64 x (cf_key req) = Inr key" "v_key v = Some key"
    "decode_b64 x (cf_key_nonce req) = Inr key_nonce" "v_key_nonce v = Some key_nonce"
    using 1(14,15) by blast
  have "b64_encode x key = cf_key req" "b64_encode x key_nonce = cf_key_nonce req" "b64_encode x (v_header v) = cf_header req"
    using x(1) key(1,3) 1(13) by (auto simp: decode_ok canonical_codec_def)
  moreover have "get_download_manifest x u (cr_file r) None w2 =
      Inr \<lparr>dm_file = fid, dm_version = vid, dm_header = encode_b64 x (v_header v), dm_total_size = v_size v,
           dm_total_chunks = v_total_chunks v, dm_chunks = infos, dm_key = encode_b64 x key, dm_key_nonce = encode_b64 x key_nonce\<rparr>"
    unfolding get_download_manifest_def 1(1) find_f
    by (simp add: 1(8,16) find_v key(2,4) generate_download_urls_def r2 infos)
  ultimately show ?thesis using 1(11) by (simp add: encode_b64_def)
qed

lemma sample_ext_promises: "canonical_codec sample_ext" "presigns_downloads sample_ext"
proof -
  have "map (\<lambda>b. if b = 0 then CHR ''0'' else CHR ''1'') (map (\<lambda>c. if c = CHR ''0'' then (0 :: 8 word) else 1) s) = s"
    if "list_all (\<lambda>c. c = CHR ''0'' \<or> c = CHR ''1'') s" for s
    using that by (induction s) auto
  then show "canonical_codec sample_ext" by (auto simp: canonical_codec_def sample_ext_def)
qed (simp add: presigns_downloads_def sample_ext_def)

theorem upload_download_witness:
  "\<exists>r w1 w2 m. create_file sample_ext 9 33 44 (\<lambda>i. 60 + i) 1 7 (sample_request (Some 11) 7 [20, 21]) sample_vault = (Inr r, w1) \<and>
     complete_upload 10 1 7 \<lparr>co_version = cr_version r, co_etags = [(0, ''a''), (1, ''b'')]\<rparr> w1 = (Inr (), w2) \<and>
     get_download_manifest sample_ext 1 (cr_file r) None w2 = Inr m \<and> dm_key m = ''101''"
proof (rule sample_create_file)
  let ?req = "sample_request (Some 11) 7 [20, 21]"
  fix r w1
  assume r: "create_file sample_ext 9 33 44 (\<lambda>i. 60 + i) 1 7 ?req sample_vault = (Inr r, w1)" "\<not> cr_deduplicated r" "cr_version r = 44"
    and w1: "w1 = projr (create_file_tx sample_ext 9 33 44 (\<lambda>i. 60 + i) 1 7 ?req sample_vault)"
  let ?done = "complete_upload 10 1 7 \<lparr>co_version = cr_version r, co_etags = [(0, ''a''), (1, ''b'')]\<rparr> w1"
  have "fst ?done = Inr ()" unfolding w1 r(3) by code_simp
  note fin = run_ok [OF this]
  have "length (cf_chunks ?req) < 2 ^ 31" by (simp add: sample_request_def)
  from upload_download [OF system_invD(1) [OF sample_system] this sample_ext_promises r(1,2) fin]
  obtain m where "get_download_manifest sample_ext 1 (cr_file r) None (snd ?done) = Inr m" "dm_key m = cf_key ?req" by blast
  with r(1) fin show ?thesis by (auto simp: sample_request_def)
qed

end
