(* ===== verification/Share_Properties.thy ===== *)
theory Share_Properties
  imports Shares Upload_Download
begin

text \<open>
  What a share promises: it serves nothing once it is revoked, expired or its file purged; it
  serves only what its row names; a folder share reaches exactly the live files below the
  folder; and what the owner put into a share comes back when it is opened.
\<close>

subsection \<open>Closed shares\<close>

definition share_closed :: "timestamp \<Rightarrow> uuid \<Rightarrow> vault \<Rightarrow> bool" where
  "share_closed t sid w \<longleftrightarrow> (\<forall>s\<in>set (t_shares w). sh_id s = sid \<longrightarrow> \<not> share_open t s)"

lemma find_share_closed: "share_closed t sid w \<longleftrightarrow> find_share t sid w = None"
  by (auto simp: share_closed_def find_share_def find_None_all)

lemma closed_share_refused:
  assumes "share_closed t sid w"
  shows "get_share x t sid auth w = (Inl NotFound, w)"
    and "get_shared_file_manifest x t sid fid auth w = Some (Inl NotFound)"
  using assms
  by (simp_all add: find_share_closed get_share_def get_shared_file_manifest_def verify_file_in_shared_folder_def)

lemma revoking_closes:
  assumes "t_shares w' = upd P (\<lambda>s. s\<lparr>sh_revoked_at := Some now\<rparr>) (t_shares w)"
    and "\<And>s. s \<in> set (t_shares w) \<Longrightarrow> sh_id s = sid \<Longrightarrow> P s \<or> sh_revoked_at s \<noteq> None"
  shows "share_closed t sid w'"
proof -
  have "\<not> share_open t (if P s then s\<lparr>sh_revoked_at := Some now\<rparr> else s)"
    if "s \<in> set (t_shares w)" "sh_id s = sid" for s
    using assms(2) [OF that] by (auto simp: share_open_def)
  moreover have "sh_id (if P s then s\<lparr>sh_revoked_at := Some now\<rparr> else s) = sh_id s" for s by simp
  ultimately show ?thesis unfolding share_closed_def assms(1) ball_upd by metis
qed

text \<open>
  C14: A revoked share is closed: after its owner revoked it, opening it and asking for the
  manifest of any file through it is \<open>NotFound\<close>, at any time, for every caller, and the request
  changes nothing. Share ids are the primary key of the table.
\<close>

theorem revoke_share_closes:
  assumes "ukey sh_id (t_shares w)" and "revoke_share now u sid w = (Inr (), w')"
  shows "get_share x t sid auth w' = (Inl NotFound, w') \<and>
    get_shared_file_manifest x t sid fid auth w' = Some (Inl NotFound)"
proof -
  note R = revoke_share_ok [OF assms(2)]
  have "sh_owner s = u" if "s \<in> set (t_shares w)" "sh_id s = sid" for s
  proof -
    obtain s' where "s' \<in> set (t_shares w)" "sh_id s' = sid" "sh_owner s' = u" using R(2) by blast
    then show ?thesis using ukeyD [OF assms(1)] that by metis
  qed
  then have "share_closed t sid w'"
    by (intro revoking_closes) (auto simp: R(1))
  then show ?thesis by (simp add: closed_share_refused)
qed

text \<open>
  C16: A share link of a file dies with the file: permanently deleting a file closes every
  share of it, for good.
\<close>

theorem purge_closes_shares:
  assumes "ukey sh_id (t_shares w)" and "permanently_delete_file x now u fid w = (Inr r, w')"
    and "s \<in> set (t_shares w)" and "sh_type s = ''file''" and "sh_item s = fid"
  shows "get_share x' t (sh_id s) auth w' = (Inl NotFound, w') \<and>
    get_shared_file_manifest x' t (sh_id s) fid' auth w' = Some (Inl NotFound)"
proof -
  have "share_closed t (sh_id s) w'" using assms(2)
  proof (rule permanently_delete_file_ok)
    fix n ks w1 w2 ev ev' meta
    assume h: "hard_delete_files now [fid] (Some u) w = ((n, ks), w1)" and log: "audit_log now (Some u) None ev meta w1 = Inr w2"
      and w': "w' = file_broadcast u ev' (delete_objects_best_effort x ks w2)"
    have "t_shares w' = upd (\<lambda>s. sh_type s = ''file'' \<and> sh_item s \<in> set [fid] \<and> sh_revoked_at s = None)
         (\<lambda>s. s\<lparr>sh_revoked_at := Some now\<rparr>) (t_shares w)"
      using audit_log_Inr [OF log] h w' by (auto simp: hard_delete_files_eq Let_def queue_deletions_def)
    moreover have "s' = s" if "s' \<in> set (t_shares w)" "sh_id s' = sh_id s" for s'
      using ukeyD [OF assms(1)] assms(3) that by metis
    ultimately show ?thesis
      using assms(4,5) by (intro revoking_closes) auto
  qed
  then show ?thesis by (simp add: closed_share_refused)
qed

subsection \<open>What a share serves\<close>

text \<open>The item of a share is there and not in the trash.\<close>

definition share_item_live :: "vault \<Rightarrow> share_row \<Rightarrow> bool" where
  "share_item_live w s \<longleftrightarrow>
     (if sh_type s = ''file''
      then \<exists>f\<in>set (t_files w). f_id f = sh_item s \<and> f_deleted_at f = None \<and> f_current f \<noteq> None
      else \<exists>fo\<in>set (t_folders w). fo_id fo = sh_item s \<and> fo_deleted_at fo = None)"

lemma shared_item_ok:
  assumes "shared_item s w = Inr ver"
  shows "share_item_live w s" and "ver = None \<longleftrightarrow> sh_type s \<noteq> ''file''"
    and "ver = Some vid \<Longrightarrow> \<exists>f\<in>set (t_files w). f_id f = sh_item s \<and> f_deleted_at f = None \<and> f_current f = Some vid"
proof -
  have "(sh_type s = ''file'' \<and> (\<exists>f\<in>set (t_files w). \<exists>v. f_id f = sh_item s \<and> f_deleted_at f = None \<and> f_current f = Some v \<and> ver = Some v)) \<or>
     (sh_type s \<noteq> ''file'' \<and> (\<exists>fo\<in>set (t_folders w). fo_id fo = sh_item s \<and> fo_deleted_at fo = None) \<and> ver = None)"
  proof (cases "find (\<lambda>f. f_id f = sh_item s) (t_files w)")
    case (Some f)
    then have "f \<in> set (t_files w)" "f_id f = sh_item s" by (auto dest!: find_Some_in)
    then show ?thesis
      using assms Some by (cases "f_current f"; cases "f_deleted_at f") (auto simp: shared_item_def split: if_splits intro!: bexI [of _ f] dest: sym)
  qed (use assms in \<open>auto simp: shared_item_def split: if_splits\<close>)
  then show "share_item_live w s" "ver = None \<longleftrightarrow> sh_type s \<noteq> ''file''"
    "ver = Some vid \<Longrightarrow> \<exists>f\<in>set (t_files w). f_id f = sh_item s \<and> f_deleted_at f = None \<and> f_current f = Some vid"
    by (auto simp: share_item_live_def)
qed

text \<open>
  C13: Opening a share succeeds only through the gate: the share is open at that time, a
  restricted one is opened by an authenticated caller only, and its item is live. The answer
  carries the stored payload, and for a file the chunks of the version that is current then;
  a folder share carries no chunks. The tables stay as they are.
\<close>

theorem get_share_gate:
  assumes "vault_inv w" and "get_share x t sid auth w = (Inr r, w')"
  shows "\<exists>s\<in>set (t_shares w). sh_id s = sid \<and> share_open t s \<and> (sh_access s = ''restricted'' \<longrightarrow> auth) \<and> share_item_live w s \<and>
     gs_payload r = encode_b64 x (sh_payload s) \<and> gs_nonce r = encode_b64 x (sh_nonce s) \<and>
     (if sh_type s = ''file''
      then \<exists>f\<in>set (t_files w). \<exists>v\<in>set (t_versions w). f_id f = sh_item s \<and> f_current f = Some (v_id v) \<and> v_file v = f_id f \<and>
             (\<exists>infos. gs_chunks r = Some infos \<and> generate_download_urls x (manifest_chunks w (v_id v)) = Inr infos)
      else gs_chunks r = None) \<and> same_tables w w'"
proof -
  from assms(2) obtain s where s: "find_share t sid w = Some s"
    by (auto simp: get_share_def split: option.splits)
  let ?w = "audit_log_ok t None None ''share_accessed''
      (JObj [(''share_id'', JStr (uuid_str x sid)), (''authenticated'', JBool auth), (''item_type'', JStr (sh_type s))]) w"
  from assms(2) obtain ver c where g: "\<not> (sh_access s = ''restricted'' \<and> \<not> auth)" "shared_item s w = Inr ver"
    "shared_content x ver ?w = Inr c" "gs_chunks r = fst c" "gs_payload r = encode_b64 x (sh_payload s)"
    "gs_nonce r = encode_b64 x (sh_nonce s)"
    unfolding get_share_def s option.case Let_def attempt_oks by (auto split: prod.splits)
  have s': "s \<in> set (t_shares w)" "sh_id s = sid" "share_open t s" using find_Some_in [OF s [unfolded find_share_def]] by auto
  note I = shared_item_ok [OF g(2)]
  have "if sh_type s = ''file''
      then \<exists>f\<in>set (t_files w). \<exists>v\<in>set (t_versions w). f_id f = sh_item s \<and> f_current f = Some (v_id v) \<and> v_file v = f_id f \<and>
             (\<exists>infos. gs_chunks r = Some infos \<and> generate_download_urls x (manifest_chunks w (v_id v)) = Inr infos)
      else gs_chunks r = None"
  proof (cases ver)
    case None
    then show ?thesis using I(2) g(3,4) by (auto simp: shared_content_def)
  next
    case (Some vid)
    obtain f where f: "f \<in> set (t_files w)" "f_id f = sh_item s" "f_current f = Some vid" using I(3) Some by blast
    obtain v where v: "find (\<lambda>v. v_id v = vid) (t_versions w) = Some v"
      using g(3) Some by (auto simp: shared_content_def split: option.splits)
    have v': "v \<in> set (t_versions w)" "v_id v = vid" using find_Some_in [OF v] by auto
    have "v_file v = f_id f" using current_okD [OF vault_invD(12) [OF assms(1)] f(1) v'(1)] f(3) v'(2) by simp
    moreover have "manifest_chunks ?w vid = manifest_chunks w vid" by (simp add: manifest_chunks_def version_chunks_def)
    then have "\<exists>infos. gs_chunks r = Some infos \<and> generate_download_urls x (manifest_chunks w vid) = Inr infos"
      using g(3,4) Some v by (auto simp: shared_content_def)
    ultimately have "\<exists>f\<in>set (t_files w). \<exists>v\<in>set (t_versions w). f_id f = sh_item s \<and> f_current f = Some (v_id v) \<and> v_file v = f_id f \<and>
             (\<exists>infos. gs_chunks r = Some infos \<and> generate_download_urls x (manifest_chunks w (v_id v)) = Inr infos)"
      using f v' by blast
    then show ?thesis using I(2) Some by simp
  qed
  with s' g I(1) get_share_same [OF assms(2)] show ?thesis by blast
qed

subsection \<open>Shared folders\<close>

lemma set_chain_edges:
  "set (chain_edges (t_folders w)) =
     {(fo_id c, p) |c p. c \<in> set (t_folders w) \<and> fo_parent c = Some p \<and> fo_deleted_at c = None \<and>
        (\<exists>fo\<in>set (t_folders w). fo_id fo = p \<and> fo_deleted_at fo = None)}"
  by (force simp: chain_edges_def split: option.splits if_splits)

lemma chain_sub: "set (chain_edges (t_folders w)) \<subseteq> (child_rel w)\<inverse>"
  by (auto simp: set_chain_edges child_rel_def)

text \<open>From a live folder the chain of live folders is the whole chain of ancestors.\<close>

lemma chain_path:
  assumes "vault_inv w" and "trash_ok w" and "(a, b) \<in> (child_rel w)\<^sup>*"
    and "fo \<in> set (t_folders w)" and "fo_id fo = b" and "fo_deleted_at fo = None"
  shows "(b, a) \<in> (set (chain_edges (t_folders w)))\<^sup>*"
  using assms(3-6)
proof (induction arbitrary: fo rule: rtrancl_induct)
  case (step y z)
  then obtain c where c: "c \<in> set (t_folders w)" "fo_parent c = Some y" "z = fo_id c" by (auto simp: child_rel_def)
  then have "c = fo" using step.prems ukeyD [OF vault_invD(1) [OF assms(1)]] by metis
  obtain p where p: "p \<in> set (t_folders w)" "fo_id p = y"
    using fkeyD [OF vault_invD(6) [OF assms(1)] c(1,2)] by blast
  have "(y, z) \<in> (child_rel w)\<^sup>*" using step.hyps(2) by blast
  then have live: "fo_deleted_at p = None"
    using live_path [OF assms(1,2) _ step.prems] p by blast
  then have "(z, y) \<in> set (chain_edges (t_folders w))"
    using c p \<open>c = fo\<close> step.prems by (auto simp: set_chain_edges)
  then show ?case using step.IH [OF p live] by (rule converse_rtrancl_into_rtrancl)
qed simp

lemma chain_query:
  assumes "system_inv now w" and "f \<in> set (t_files w)" and "f_folder f = Some d" and "f_deleted_at f = None"
  shows "rec_exists (chain_edges (t_folders w)) item (map fo_id (filter (\<lambda>fo. fo_id fo = d \<and> fo_deleted_at fo = None) (t_folders w)))
    = Some ((item, d) \<in> (child_rel w)\<^sup>*)"
proof -
  note I = system_invD [OF assms(1)]
  let ?E = "set (chain_edges (t_folders w))"
  obtain fo where fo: "fo \<in> set (t_folders w)" "fo_id fo = d" using fkeyD [OF vault_invD(7) [OF I(1)] assms(2,3)] by blast
  have "trash_le (fo_deleted_at fo) (f_deleted_at f)" using trash_okD(2) [OF I(5) fo(1) assms(2)] assms(3) fo(2) by simp
  then have live: "fo_deleted_at fo = None" using assms(4) by (cases "fo_deleted_at fo") auto
  have start: "set (map fo_id (filter (\<lambda>fo. fo_id fo = d \<and> fo_deleted_at fo = None) (t_folders w))) = {d}"
    using fo live by auto
  have "acyclic ?E" using I(6) chain_sub acyclic_subset by (metis acyclic_converse forest_def)
  then have "rec_exists (chain_edges (t_folders w)) item (map fo_id (filter (\<lambda>fo. fo_id fo = d \<and> fo_deleted_at fo = None) (t_folders w)))
      = Some (item \<in> ?E\<^sup>* `` {d})"
    unfolding start [symmetric] by (intro rec_exists_returns) (simp add: acyclic_def)
  moreover have "(d, item) \<in> ?E\<^sup>* \<longleftrightarrow> (item, d) \<in> (child_rel w)\<^sup>*"
    using chain_path [OF I(1,5) _ fo live] rtrancl_mono [OF chain_sub [of w]] by (auto simp: rtrancl_converse)
  ultimately show ?thesis by simp
qed

text \<open>
  C15: A folder share reaches exactly the live files below its folder: on a well-formed
  hierarchy the check always returns, and it lets a file of some folder pass if and only if the
  folder lies in the tree below the shared one; whatever passes belongs to the owner of the
  shared folder.
\<close>

theorem shared_folder_scope:
  assumes sys: "system_inv now w" and s: "find_share t sid w = Some s" "ukey sh_id (t_shares w)"
    and access: "sh_access s \<noteq> ''restricted'' \<or> auth" and folder: "sh_type s = ''folder''"
    and f: "f \<in> set (t_files w)" "f_folder f \<noteq> None"
  shows "verify_file_in_shared_folder t sid (f_id f) auth w =
     Some (if f_deleted_at f = None \<and> (\<exists>d. f_folder f = Some d \<and> (sh_item s, d) \<in> (child_rel w)\<^sup>*)
           then Inr (sh_item s) else Inl NotFound) \<and>
     (verify_file_in_shared_folder t sid (f_id f) auth w = Some (Inr (sh_item s)) \<longrightarrow>
        (\<forall>fo\<in>set (t_folders w). fo_id fo = sh_item s \<longrightarrow> f_user f = fo_user fo))"
proof -
  note I = system_invD [OF sys]
  obtain d where d: "f_folder f = Some d" using f(2) by blast
  have s': "s \<in> set (t_shares w)" "sh_id s = sid" using find_Some_in [OF s(1) [unfolded find_share_def]] by auto
  have row: "find (\<lambda>s. sh_id s = sid) (t_shares w) = Some s"
    using s' by (intro find_unique [OF s(2) [unfolded ukey_def]]) auto
  have only: "f' = f" if "f' \<in> set (t_files w)" "f_id f' = f_id f" for f'
    using ukeyD [OF vault_invD(2) [OF I(1)]] that f(1) by blast
  have sel: "find (\<lambda>f'. f_id f' = f_id f \<and> f_deleted_at f' = None) (t_files w) = (if f_deleted_at f = None then Some f else None)"
    using f(1) only by (auto simp: find_None_all intro!: find_unique [OF vault_invD(2) [OF I(1), unfolded ukey_def]])
  have eq: "verify_file_in_shared_folder t sid (f_id f) auth w =
     Some (if f_deleted_at f = None \<and> (\<exists>d. f_folder f = Some d \<and> (sh_item s, d) \<in> (child_rel w)\<^sup>*)
           then Inr (sh_item s) else Inl NotFound)"
    using access folder chain_query [OF sys f(1) d]
    by (auto simp: verify_file_in_shared_folder_def s(1) row sel d)
  have "f_user f = fo_user fo" if fo: "fo \<in> set (t_folders w)" "fo_id fo = sh_item s"
    and ok: "verify_file_in_shared_folder t sid (f_id f) auth w = Some (Inr (sh_item s))" for fo
  proof -
    have "(sh_item s, d) \<in> (child_rel w)\<^sup>*" using ok eq d by (simp split: if_splits)
    then have "d \<in> set (subtree w [fo_id fo] (fo_user fo))" using subtree_all [OF I(1,4) fo(1) refl] fo(2) by simp
    then show ?thesis using subtree_file [OF I(4) f(1) d] by blast
  qed
  with eq show ?thesis by blast
qed

subsection \<open>Creating and opening\<close>

lemma presigned_total:
  assumes "presigns_downloads x" and "r2_configured x"
  shows "\<exists>infos. generate_download_urls x cs = Inr infos"
proof -
  have "\<not> isl (presign_get x k)" for k
    using assms by (auto simp: presign_get_def require_r2_def r2_presign_get_def presigns_downloads_def split: option.splits)
  then show ?thesis using download_urls_total assms(2) by (auto simp: generate_download_urls_def require_r2_def)
qed

text \<open>
  C38: A share leads to what it was made for: when a share of a file was created, whoever meets
  its access rule opens it before it expires and gets back the encrypted payload and nonce of
  the request, and download URLs for the chunks of the file's current version, in order, with
  its size.
\<close>

theorem create_share_opens:
  assumes inv: "vault_inv w" and ids: "ukey sh_id (t_shares w)" and x: "canonical_codec x" "presigns_downloads x" "r2_configured x"
    and create: "create_share x now sid u (f_id f) req w = (Inr r, w1)" and type: "csr_item_type req = ''file''"
    and f: "f \<in> set (t_files w)" "f_current f = Some (v_id v)" and v: "v \<in> set (t_versions w)"
    and time: "\<And>e. csr_expires_at req = Some e \<Longrightarrow> t < e" and access: "csr_access_type req \<noteq> Some ''restricted'' \<or> auth"
  shows "\<exists>resp w2 infos. get_share x t r auth w1 = (Inr resp, w2) \<and> gs_payload resp = csr_payload req \<and> gs_nonce resp = csr_nonce req \<and>
     gs_total_size resp = Some (v_size v) \<and> gs_chunks resp = Some infos \<and>
     list_all2 (\<lambda>i c. dc_index i = c_index c \<and> presign_get x (c_key c) = Inr (dc_url i)) infos (version_chunks w (v_id v))"
  using create
proof (rule create_share_ok)
  fix payload nonce header w0
  let ?s = "new_share now sid u (f_id f) req payload nonce header"
  assume r: "r = sid" and live: "if csr_item_type req = ''file'' then has_row (live_file (f_id f) u) (t_files w)
         else has_row (live_folder (f_id f) u) (t_folders w)"
    and dec: "decode_b64 x (csr_payload req) = Inr payload" "decode_b64 x (csr_nonce req) = Inr nonce"
    and ins: "insert_share ?s w = Inr w0"
    and w1: "w1 = audit_log_ok now (Some u) None ''share_created''
                 (JObj [(''share_id'', JUuid sid), (''item_id'', JUuid (f_id f)),
                        (''item_type'', JStr (csr_item_type req))]) w0"
  note S = insert_share_Inr [OF ins]
  have rows: "t_shares w1 = t_shares w @ [?s]" "t_files w1 = t_files w" "t_versions w1 = t_versions w" "t_chunks w1 = t_chunks w"
    by (simp_all add: w1 S(1))
  have "share_open t ?s" using time by (auto simp: share_open_def new_share_def split: option.splits)
  then have "find_share t sid w1 = Some ?s"
    unfolding find_share_def rows using ids S(2)
    by (intro find_unique [where k = sh_id]) (auto simp: ukey_def new_share_def)
  moreover have "f_deleted_at f = None"
    using live type ukeyD [OF vault_invD(2) [OF inv] f(1)] by (force simp: live_file_def)
  then have "shared_item ?s w1 = Inr (Some (v_id v))"
    using f find_unique [OF vault_invD(2) [OF inv, unfolded ukey_def] f(1), of "\<lambda>g. f_id g = f_id f"]
    by (simp add: shared_item_def rows new_share_def type)
  moreover have "find (\<lambda>a. v_id a = v_id v) (t_versions w) = Some v"
    using v by (intro find_unique [OF vault_invD(3) [OF inv, unfolded ukey_def]]) auto
  moreover obtain infos where infos: "generate_download_urls x (manifest_chunks w (v_id v)) = Inr infos"
    using presigned_total [OF x(2,3)] by blast
  moreover have "manifest_chunks (audit_log_ok a b c d e w1) i = manifest_chunks w i" for a b c d e i
    by (simp add: manifest_chunks_def version_chunks_def rows)
  ultimately have "\<exists>resp w2. get_share x t r auth w1 = (Inr resp, w2) \<and> gs_payload resp = csr_payload req \<and>
      gs_nonce resp = csr_nonce req \<and> gs_total_size resp = Some (v_size v) \<and> gs_chunks resp = Some infos"
    using access dec x(1)
    by (auto simp: get_share_def r shared_content_def rows Let_def new_share_def check_that_def encode_b64_def decode_ok
        canonical_codec_def split: option.splits)
  moreover have "list_all2 (\<lambda>i c. dc_index i = c_index c \<and> presign_get x (c_key c) = Inr (dc_url i)) infos (version_chunks w (v_id v))"
    using infos download_urls_ok [of x "manifest_chunks w (v_id v)" infos]
    by (auto simp: generate_download_urls_def manifest_chunks_def list_all2_conv_all_nth list_eq_iff_nth_eq split: sum.splits)
  ultimately show ?thesis by blast
qed

text \<open>
  The two ways into a file share disagree about the trash: when the file of an open share is
  in the trash, opening the share is refused as \<open>SharedItemDeleted\<close>, but the manifest of the
  file through the same share is served.
\<close>

theorem trashed_file_share:
  assumes inv: "vault_inv w" and ids: "ukey sh_id (t_shares w)" and x: "presigns_downloads x" "r2_configured x"
    and s: "find_share t sid w = Some s" "sh_type s = ''file''" "sh_access s \<noteq> ''restricted'' \<or> auth"
    and f: "f \<in> set (t_files w)" "f_id f = sh_item s" "f_deleted_at f = Some d" "f_current f = Some vid"
  shows "get_share x t sid auth w = (Inl SharedItemDeleted, w) \<and>
    (\<exists>m. get_shared_file_manifest x t sid (f_id f) auth w = Some (Inr m) \<and> dm_version m = vid)"
proof -
  have s': "s \<in> set (t_shares w)" "sh_id s = sid" using find_Some_in [OF s(1) [unfolded find_share_def]] by auto
  have row: "find (\<lambda>s. sh_id s = sid) (t_shares w) = Some s"
    using s' by (intro find_unique [OF ids [unfolded ukey_def]]) auto
  have sel: "find (\<lambda>g. f_id g = sh_item s) (t_files w) = Some f"
    using f(1,2) by (intro find_unique [OF vault_invD(2) [OF inv, unfolded ukey_def]]) auto
  obtain v where "v \<in> set (t_versions w)" "v_id v = vid" using fkeyD [OF vault_invD(8) [OF inv] f(1,4)] by blast
  then have "find (\<lambda>v. v_id v = vid) (t_versions w) = Some v"
    by (intro find_unique [OF vault_invD(3) [OF inv, unfolded ukey_def]]) auto
  moreover obtain infos where "generate_download_urls x (manifest_chunks w vid) = Inr infos"
    using presigned_total [OF x] by blast
  ultimately show ?thesis
    using s f sel row
    by (auto simp: get_share_def shared_item_def check_that_def get_shared_file_manifest_def verify_file_in_shared_folder_def)
qed

subsection \<open>Applications\<close>

text \<open>
  The sample state with a public share of the folder 10 and a restricted one of the file 30 that
  expires at 50.
\<close>

definition shared_vault :: vault where
  "shared_vault = sample_vault\<lparr>t_shares :=
     [\<lparr>sh_id = 60, sh_owner = 1, sh_item = 10, sh_type = ''folder'', sh_payload = [1], sh_nonce = [0], sh_header = None,
       sh_created_at = 1, sh_expires_at = None, sh_revoked_at = None, sh_access = ''public''\<rparr>,
      \<lparr>sh_id = 61, sh_owner = 1, sh_item = 30, sh_type = ''file'', sh_payload = [1], sh_nonce = [0], sh_header = None,
       sh_created_at = 2, sh_expires_at = Some 50, sh_revoked_at = None, sh_access = ''restricted''\<rparr>]\<rparr>"

lemma shared_vault_system: "system_inv 3 shared_vault" "ukey sh_id (t_shares shared_vault)"
  using good_step_system [OF other_tables_good [OF sample_system, of shared_vault 1]]
  by (simp_all add: shared_vault_def ukey_def)

theorem revoke_share_closes_witness:
  "\<exists>w'. revoke_share 9 1 60 shared_vault = (Inr (), w') \<and> get_share sample_ext 9 60 True w' = (Inl NotFound, w') \<and>
     get_shared_file_manifest sample_ext 9 60 30 True w' = Some (Inl NotFound)"
proof -
  have "fst (revoke_share 9 1 60 shared_vault) = Inr ()" by code_simp
  note run = run_ok [OF this]
  show ?thesis using run revoke_share_closes [OF shared_vault_system(2) run] by blast
qed

theorem purge_closes_shares_witness:
  "\<exists>w'. permanently_delete_file sample_ext 9 1 30 shared_vault = (Inr (), w') \<and>
     get_share sample_ext 9 61 True w' = (Inl NotFound, w')"
proof -
  let ?s = "\<lparr>sh_id = 61, sh_owner = 1, sh_item = 30, sh_type = ''file'', sh_payload = [1], sh_nonce = [0], sh_header = None,
       sh_created_at = 2, sh_expires_at = Some 50, sh_revoked_at = None, sh_access = ''restricted''\<rparr>"
  have "fst (permanently_delete_file sample_ext 9 1 30 shared_vault) = Inr ()" by code_simp
  note run = run_ok [OF this]
  have "?s \<in> set (t_shares shared_vault)" by (simp add: shared_vault_def)
  from run purge_closes_shares [OF shared_vault_system(2) run this] show ?thesis by auto
qed

theorem get_share_gate_witness:
  "\<exists>r w'. get_share sample_ext 9 61 True shared_vault = (Inr r, w') \<and>
     (\<exists>s\<in>set (t_shares shared_vault). sh_id s = 61 \<and> share_open 9 s \<and> share_item_live shared_vault s)"
proof -
  have "\<not> isl (fst (get_share sample_ext 9 61 True shared_vault))" by code_simp
  then obtain r where "fst (get_share sample_ext 9 61 True shared_vault) = Inr r" by (metis sum.collapse(2))
  note run = run_ok [OF this]
  show ?thesis using run get_share_gate [OF system_invD(1) [OF shared_vault_system(1)] run] by blast
qed

theorem shared_folder_scope_witness:
  "verify_file_in_shared_folder 9 60 30 False shared_vault = Some (Inr 10)"
proof -
  let ?s = "\<lparr>sh_id = 60, sh_owner = 1, sh_item = 10, sh_type = ''folder'', sh_payload = [1], sh_nonce = [0], sh_header = None,
       sh_created_at = 1, sh_expires_at = None, sh_revoked_at = None, sh_access = ''public''\<rparr>"
  let ?f = "sample_file 30 1 (Some 11) (Some 40) None"
  have s: "find_share 9 60 shared_vault = Some ?s" by code_simp
  have f: "?f \<in> set (t_files shared_vault)" "f_folder ?f \<noteq> None" by (simp_all add: shared_vault_def sample_rows)
  have "(10, 11) \<in> child_rel shared_vault" by (force simp: child_rel_def shared_vault_def sample_rows)
  then show ?thesis
    using shared_folder_scope [OF shared_vault_system(1) s shared_vault_system(2), of False ?f] f by (auto simp: sample_rows)
qed

theorem create_share_opens_witness:
  "\<exists>r w1 resp w2. create_share sample_ext 9 62 1 30
       \<lparr>csr_item_type = ''file'', csr_payload = ''101'', csr_nonce = ''0'', csr_header = None, csr_item_id = 30,
        csr_expires_at = Some 20, csr_access_type = None\<rparr> shared_vault = (Inr r, w1) \<and>
     get_share sample_ext 12 r False w1 = (Inr resp, w2) \<and> gs_payload resp = ''101'' \<and> gs_total_size resp = Some 5"
proof -
  let ?req = "\<lparr>csr_item_type = ''file'', csr_payload = ''101'', csr_nonce = ''0'', csr_header = None, csr_item_id = 30,
        csr_expires_at = Some 20, csr_access_type = None\<rparr>"
  let ?f = "sample_file 30 1 (Some 11) (Some 40) None" and ?v = "sample_version 40 30 1 7 True"
  have "fst (create_share sample_ext 9 62 1 (f_id ?f) ?req shared_vault) = Inr 62" by code_simp
  note run = run_ok [OF this]
  have "?f \<in> set (t_files shared_vault)" "f_current ?f = Some (v_id ?v)" "?v \<in> set (t_versions shared_vault)"
    by (simp_all add: shared_vault_def sample_rows)
  from create_share_opens [OF system_invD(1) [OF shared_vault_system(1)] shared_vault_system(2) sample_ext_promises _ run _ this, of 12 False]
  obtain resp w2 where "get_share sample_ext 12 62 False (snd (create_share sample_ext 9 62 1 (f_id ?f) ?req shared_vault)) = (Inr resp, w2)"
    "gs_payload resp = ''101''" "gs_total_size resp = Some 5"
    by (auto simp: sample_ext_def sample_rows)
  with run show ?thesis by (auto simp: sample_rows)
qed

theorem trashed_file_share_witness:
  "\<exists>w. (\<exists>f\<in>set (t_files w). f_id f = 31 \<and> f_deleted_at f = Some 2) \<and> get_share sample_ext 9 63 True w = (Inl SharedItemDeleted, w) \<and>
     (\<exists>m. get_shared_file_manifest sample_ext 9 63 31 True w = Some (Inr m) \<and> dm_version m = 41)"
proof -
  let ?s = "\<lparr>sh_id = 63, sh_owner = 1, sh_item = 31, sh_type = ''file'', sh_payload = [1], sh_nonce = [0], sh_header = None,
       sh_created_at = 2, sh_expires_at = None, sh_revoked_at = None, sh_access = ''public''\<rparr>"
  let ?w = "sample_vault\<lparr>t_shares := [?s]\<rparr>" and ?f = "sample_file 31 1 (Some 12) (Some 41) (Some 2)"
  have inv: "vault_inv ?w" using system_invD(1) [OF sample_system] by simp
  have s: "find_share 9 63 ?w = Some ?s" by (simp add: find_share_def share_open_def)
  have f: "?f \<in> set (t_files ?w)" by (simp add: sample_rows)
  have "get_share sample_ext 9 63 True ?w = (Inl SharedItemDeleted, ?w) \<and>
      (\<exists>m. get_shared_file_manifest sample_ext 9 63 (f_id ?f) True ?w = Some (Inr m) \<and> dm_version m = 41)"
    by (rule trashed_file_share [OF inv _ sample_ext_promises(2) _ s _ _ f, of True 2])
      (simp_all add: ukey_def sample_ext_def sample_rows)
  then show ?thesis using f by (intro exI [of _ ?w]) (auto simp: sample_rows)
qed

end
