(* ===== verification/Chunks.thy ===== *)
theory Chunks
  imports Upload_Download
begin

text \<open>
  The chunk service of \<open>src/features/chunks/service.rs\<close>, by which a client resumes an interrupted
  upload: the chunks that are missing with fresh upload URLs, the verification of one chunk
  against the store, and the completeness of a version.
\<close>

subsection \<open>Definitions\<close>

record verify_chunk_request =
  vq_version :: uuid
  vq_index :: int
  vq_etag :: string

record chunk_status_response =
  st_chunk :: uuid
  st_version :: uuid
  st_index :: int
  st_segment :: int
  st_uploaded :: bool
  st_etag :: "string option"

record resume_info_response =
  ri_version :: uuid
  ri_total_chunks :: int
  ri_uploaded :: "int list"
  ri_missing :: "int list"
  ri_urls :: "chunk_upload_url list option"

record completeness_response =
  cc_version :: uuid
  cc_total_chunks :: int
  cc_uploaded :: int
  cc_missing :: int
  cc_complete :: bool

definition find_live_version :: "uuid \<Rightarrow> uuid \<Rightarrow> vault \<Rightarrow> version_row option" where
  "find_live_version u vid w =
     find (\<lambda>v. v_id v = vid \<and>
       has_row (\<lambda>f. f_id f = v_file v \<and> f_user f = u \<and> f_deleted_at f = None) (t_files w)) (t_versions w)"

text \<open>The loop over the missing indices; an index without a row is skipped.\<close>

fun resume_urls :: "ext \<Rightarrow> uuid \<Rightarrow> vault \<Rightarrow> int list \<Rightarrow> chunk_upload_url list result" where
  "resume_urls x vid w [] = Inr []"
| "resume_urls x vid w (i # is) =
     (case find (\<lambda>c. c_version c = vid \<and> c_index c = i) (t_chunks w) of
        None \<Rightarrow> resume_urls x vid w is
      | Some c \<Rightarrow>
          and_then (presign_put x (c_key c)) (\<lambda>url.
          and_then (resume_urls x vid w is) (\<lambda>rest.
          Inr (\<lparr>cu_index = i, cu_segment = c_segment c, cu_url = url, cu_key = c_key c, cu_already_uploaded = False\<rparr> # rest))))"

definition get_resume_info :: "ext \<Rightarrow> uuid \<Rightarrow> uuid \<Rightarrow> vault \<Rightarrow> resume_info_response result" where
  "get_resume_info x u vid w =
     (case find_live_version u vid w of
        None \<Rightarrow> Inl NotFound
      | Some v \<Rightarrow>
          let chunks = map (\<lambda>c. (c_index c, c_uploaded_at c \<noteq> None)) (version_chunks w vid);
              uploaded = map fst (filter snd chunks);
              missing = map fst (filter (\<lambda>p. \<not> snd p) chunks)
          in and_then (if r2_configured x then and_then (resume_urls x vid w missing) (\<lambda>urls. Inr (Some urls)) else Inr None) (\<lambda>urls.
             Inr \<lparr>ri_version = vid, ri_total_chunks = v_total_chunks v, ri_uploaded = uploaded, ri_missing = missing, ri_urls = urls\<rparr>))"

text \<open>
  A chunk whose stored etag is the given one is accepted at once. Otherwise the object must exist;
  a different etag of the store is written to the log and has no other effect.
\<close>

definition verify_chunk :: "ext \<Rightarrow> timestamp \<Rightarrow> uuid \<Rightarrow> verify_chunk_request \<Rightarrow> vault \<Rightarrow> chunk_status_response result \<times> vault" where
  "verify_chunk x now u req w =
     (case find (\<lambda>c. c_version c = vq_version req \<and> c_index c = vq_index req \<and>
             has_row (\<lambda>v. v_id v = c_version c \<and>
               has_row (\<lambda>f. f_id f = v_file v \<and> f_user f = u \<and> f_deleted_at f = None) (t_files w)) (t_versions w)) (t_chunks w) of
        None \<Rightarrow> (Inl NotFound, w)
      | Some c \<Rightarrow>
          let answer = \<lparr>st_chunk = c_id c, st_version = vq_version req, st_index = vq_index req, st_segment = c_segment c,
                        st_uploaded = True, st_etag = Some (vq_etag req)\<rparr>
          in if c_etag c = Some (vq_etag req) then (Inr answer, w)
             else
               attempt (if r2_configured x then and_then (head_object x (c_key c)) (\<lambda>head.
                          check_that (head \<noteq> None)
                            (BadRequest (''chunk not found in storage '' @ em_dash @ '' upload may have failed'')))
                        else Inr ()) w (\<lambda>_.
               (Inr answer, w\<lparr>t_chunks := upd (\<lambda>r. c_id r = c_id c)
                  (\<lambda>r. r\<lparr>c_uploaded_at := Some now, c_etag := Some (vq_etag req)\<rparr>) (t_chunks w)\<rparr>)))"

definition precheck_version_completeness :: "uuid \<Rightarrow> uuid \<Rightarrow> vault \<Rightarrow> completeness_response result" where
  "precheck_version_completeness u vid w =
     (case find_live_version u vid w of
        None \<Rightarrow> Inl NotFound
      | Some v \<Rightarrow>
          let missing = row_count (\<lambda>c. c_version c = vid \<and> c_uploaded_at c = None) (t_chunks w);
              uploaded = row_count (\<lambda>c. c_version c = vid \<and> c_uploaded_at c \<noteq> None) (t_chunks w)
          in Inr \<lparr>cc_version = vid, cc_total_chunks = v_total_chunks v, cc_uploaded = wrap_i32 (int uploaded),
                  cc_missing = wrap_i32 (int missing), cc_complete = (missing = 0)\<rparr>)"

subsection \<open>Contract\<close>

text \<open>Verifying a chunk changes the rows of one chunk of the caller, or nothing.\<close>

lemma verify_chunk_cases:
  assumes "verify_chunk x now u req w = (res, w')"
  obtains (same) "w' = w"
    | (marked) c where "c \<in> set (t_chunks w)" "c_version c = vq_version req" "c_index c = vq_index req" "owner_version w u (c_version c)"
        "w' = w\<lparr>t_chunks := upd (\<lambda>r. c_id r = c_id c)
           (\<lambda>r. r\<lparr>c_uploaded_at := Some now, c_etag := Some (vq_etag req)\<rparr>) (t_chunks w)\<rparr>"
proof (cases "w' = w")
  case True
  then show ?thesis by (rule same)
next
  case False
  then show ?thesis
    using assms
    by (auto simp: verify_chunk_def Let_def attempt_def owner_version_def owner_file_def
        split: option.splits if_splits sum.splits dest!: find_Some_in intro!: marked) blast+
qed

interpretation verify_chunk: safe_operation
  "\<lambda>w r w'. verify_chunk x t u req w = (r, w')" now u
proof -
  have inv: "vault_inv w'" if "vault_inv w" "verify_chunk x t u req w = (res, w')" for w w' res
    using that(2) by (cases rule: verify_chunk_cases) (use that(1) in \<open>auto intro: upd_chunks_inv\<close>)
  have good: "good_step now u w w'" if sys: "system_inv now w" and run: "verify_chunk x t u req w = (res, w')" for w w' res
    using run
  proof (cases rule: verify_chunk_cases)
    case (marked c)
    have "r = c" if "r \<in> set (t_chunks w)" "c_id r = c_id c" for r
      using vault_invD(4) [OF system_invD(1) [OF sys]] marked(1) that ukeyD by metis
    then show ?thesis using marked(1,4) unfolding marked(5) by (intro upd_chunks_good [OF sys]) auto
  qed (simp add: good_step_refl sys)
  show "safe_operation (\<lambda>w r w'. verify_chunk x t u req w = (r, w')) now u"
    by unfold_locales (use inv good in \<open>auto simp: good_step_def\<close>)
qed

subsection \<open>Completeness\<close>

text \<open>The live version of a pending upload.\<close>

lemma pending_live:
  assumes "vault_inv w" and "pending_upload w u d vid"
  obtains v where "find_live_version u vid w = Some v" "v \<in> set (t_versions w)" "v_id v = vid" "has_row (live_file (v_file v) u) (t_files w)"
proof -
  obtain v where v: "v \<in> set (t_versions w)" "v_id v = vid" "has_row (live_file (v_file v) u) (t_files w)"
    using assms(2) by (auto simp: pending_upload_def)
  have "find_live_version u vid w = Some v"
    unfolding find_live_version_def using v
    by (intro find_unique [OF vault_invD(3) [OF assms(1), unfolded ukey_def]]) (auto simp: live_file_def)
  then show ?thesis using v by (rule that)
qed

lemma resume_urls_ok:
  assumes inv: "vault_inv w" and rows: "\<And>i. i \<in> set is \<Longrightarrow> \<exists>c\<in>set (t_chunks w). c_version c = vid \<and> c_index c = i"
    and run: "resume_urls x vid w is = Inr urls"
  shows "map cu_index urls = is \<and>
     (\<forall>q\<in>set urls. \<exists>c\<in>set (t_chunks w). c_version c = vid \<and> c_index c = cu_index q \<and> cu_key q = c_key c \<and>
        cu_segment q = c_segment c \<and> presign_put x (c_key c) = Inr (cu_url q))"
  using rows run
proof (induction "is" arbitrary: urls)
  case (Cons i "is")
  obtain c where c: "c \<in> set (t_chunks w)" "c_version c = vid" "c_index c = i" using Cons.prems(1) [of i] by auto
  have "find (\<lambda>c. c_version c = vid \<and> c_index c = i) (t_chunks w) = Some c"
    using c by (intro find_unique [OF vault_invD(13) [OF inv, unfolded ukey_def]]) auto
  with Cons.prems(2) obtain url rest where "presign_put x (c_key c) = Inr url" "resume_urls x vid w is = Inr rest"
    "urls = \<lparr>cu_index = i, cu_segment = c_segment c, cu_url = url, cu_key = c_key c, cu_already_uploaded = False\<rparr> # rest"
    by (auto simp: and_then_ok)
  moreover from Cons.IH this(2) Cons.prems(1) have "map cu_index rest = is \<and>
     (\<forall>q\<in>set rest. \<exists>c\<in>set (t_chunks w). c_version c = vid \<and> c_index c = cu_index q \<and> cu_key q = c_key c \<and>
        cu_segment q = c_segment c \<and> presign_put x (c_key c) = Inr (cu_url q))" by simp
  ultimately show ?case using c by auto
qed simp

text \<open>Completing without new acknowledgements succeeds exactly when no chunk is missing.\<close>

lemma missing_after_none: "missing_after w \<lparr>co_version = vid, co_etags = []\<rparr> = missing_chunks w vid"
  by (simp add: missing_after_def missing_chunks_def)

lemma complete_without_etags:
  assumes "vault_inv w" and "pending_upload w u d vid"
  shows "fst (complete_upload t u d \<lparr>co_version = vid, co_etags = []\<rparr> w) = Inr () \<longleftrightarrow> missing_chunks w vid = []"
proof -
  have pend: "pending_upload w u d (co_version \<lparr>co_version = vid, co_etags = []\<rparr>)" using assms(2) by simp
  show ?thesis by (rule complete_upload_run [OF assms(1) pend, where t = t]) (simp_all add: missing_after_none)
qed

text \<open>
  C21: The three views of an upload agree. For a pending upload, the resume information lists the
  uploaded and the missing chunk indices in ascending order, disjointly and completely; it has an
  upload URL for exactly the missing ones, for the key the chunk was registered under; and the
  completeness check says yes exactly when nothing is missing, which is exactly when completing
  the upload without further acknowledgements succeeds.
\<close>

theorem upload_views_agree:
  assumes inv: "vault_inv w" and pend: "pending_upload w u d vid" and run: "get_resume_info x u vid w = Inr info"
  shows "set (ri_uploaded info) \<union> set (ri_missing info) = {c_index c |c. c \<in> set (t_chunks w) \<and> c_version c = vid} \<and>
    set (ri_uploaded info) \<inter> set (ri_missing info) = {} \<and> sorted (ri_uploaded info) \<and> sorted (ri_missing info) \<and>
    (case ri_urls info of None \<Rightarrow> \<not> r2_configured x | Some urls \<Rightarrow> map cu_index urls = ri_missing info \<and>
       (\<forall>q\<in>set urls. \<exists>c\<in>set (t_chunks w). c_version c = vid \<and> c_index c = cu_index q \<and> presign_put x (c_key c) = Inr (cu_url q))) \<and>
    (\<exists>p. precheck_version_completeness u vid w = Inr p \<and> (cc_complete p \<longleftrightarrow> ri_missing info = []) \<and>
       (cc_complete p \<longleftrightarrow> fst (complete_upload t u d \<lparr>co_version = vid, co_etags = []\<rparr> w) = Inr ()))"
proof -
  obtain v where v: "find_live_version u vid w = Some v" by (rule pending_live [OF inv pend])
  let ?cs = "version_chunks w vid"
  have info: "ri_uploaded info = map c_index (filter (\<lambda>c. c_uploaded_at c \<noteq> None) ?cs)" "ri_missing info = missing_chunks w vid"
    and urls: "if r2_configured x then \<exists>urls. ri_urls info = Some urls \<and> resume_urls x vid w (ri_missing info) = Inr urls else ri_urls info = None"
    using run by (auto simp: get_resume_info_def v Let_def and_then_ok filter_map comp_def missing_chunks_def split: if_splits)
  have "sorted (map c_index ?cs)" by (simp add: version_chunks_def)
  then have sorted: "sorted (ri_uploaded info)" "sorted (ri_missing info)" by (simp_all add: info missing_chunks_def sorted_filter)
  have all: "set (ri_uploaded info) \<union> set (ri_missing info) = {c_index c |c. c \<in> set (t_chunks w) \<and> c_version c = vid}"
    unfolding info missing_chunks_def set_map set_filter set_version_chunks by blast
  have one: "c = c'" if "c \<in> set (t_chunks w)" "c' \<in> set (t_chunks w)" "c_version c = vid" "c_version c' = vid" "c_index c = c_index c'" for c c'
    using that ukeyD [OF vault_invD(13) [OF inv] that(1,2)] by simp
  then have disj: "set (ri_uploaded info) \<inter> set (ri_missing info) = {}"
    by (auto simp: info missing_chunks_def set_version_chunks) (metis option.distinct(1))
  have "\<exists>c\<in>set (t_chunks w). c_version c = vid \<and> c_index c = i" if "i \<in> set (ri_missing info)" for i
    using that by (auto simp: info missing_chunks_def set_version_chunks)
  then have url: "case ri_urls info of None \<Rightarrow> \<not> r2_configured x | Some urls \<Rightarrow> map cu_index urls = ri_missing info \<and>
       (\<forall>q\<in>set urls. \<exists>c\<in>set (t_chunks w). c_version c = vid \<and> c_index c = cu_index q \<and> presign_put x (c_key c) = Inr (cu_url q))"
    using urls resume_urls_ok [OF inv, of "ri_missing info" vid x] by (fastforce split: if_splits option.splits)
  have "row_count (\<lambda>c. c_version c = vid \<and> c_uploaded_at c = None) (t_chunks w) = 0 \<longleftrightarrow> missing_chunks w vid = []"
    by (auto simp: row_count_0 missing_chunks_def filter_empty_conv set_version_chunks)
  then have "\<exists>p. precheck_version_completeness u vid w = Inr p \<and> (cc_complete p \<longleftrightarrow> missing_chunks w vid = [])"
    by (simp add: precheck_version_completeness_def v Let_def)
  then show ?thesis using all disj sorted url complete_without_etags [OF inv pend, of t] by (simp add: info(2))
qed

subsection \<open>Resuming\<close>

text \<open>A client that verifies chunks one after the other, until one is refused.\<close>

fun verify_all :: "ext \<Rightarrow> timestamp \<Rightarrow> uuid \<Rightarrow> uuid \<Rightarrow> (int \<times> string) list \<Rightarrow> vault \<Rightarrow> unit result \<times> vault" where
  "verify_all x t u vid [] w = (Inr (), w)"
| "verify_all x t u vid ((i, e) # es) w =
     (case verify_chunk x t u \<lparr>vq_version = vid, vq_index = i, vq_etag = e\<rparr> w of
        (Inl err, w') \<Rightarrow> (Inl err, w')
      | (Inr _, w') \<Rightarrow> verify_all x t u vid es w')"

text \<open>A chunk with an etag is an uploaded one.\<close>

definition etags_ok :: "vault \<Rightarrow> bool" where
  "etags_ok w \<longleftrightarrow> (\<forall>c\<in>set (t_chunks w). c_etag c \<noteq> None \<longrightarrow> c_uploaded_at c \<noteq> None)"

text \<open>The store has an object for every chunk of the version.\<close>

definition objects_present :: "ext \<Rightarrow> vault \<Rightarrow> uuid \<Rightarrow> bool" where
  "objects_present x w vid \<longleftrightarrow> (\<forall>c\<in>set (t_chunks w). c_version c = vid \<longrightarrow> (\<exists>tag. head_object x (c_key c) = Inr (Some tag)))"

definition chunk_indices :: "vault \<Rightarrow> uuid \<Rightarrow> int set" where
  "chunk_indices w vid = {c_index c |c. c \<in> set (t_chunks w) \<and> c_version c = vid}"

definition missing_set :: "vault \<Rightarrow> uuid \<Rightarrow> int set" where
  "missing_set w vid = {c_index c |c. c \<in> set (t_chunks w) \<and> c_version c = vid \<and> c_uploaded_at c = None}"

lemma verify_chunk_accepts:
  assumes inv: "vault_inv w" and pend: "pending_upload w u d vid" and obj: "objects_present x w vid"
    and c: "c \<in> set (t_chunks w)" "c_version c = vid" "c_index c = i"
  shows "\<exists>a. verify_chunk x t u \<lparr>vq_version = vid, vq_index = i, vq_etag = e\<rparr> w = (Inr a, if c_etag c = Some e then w
       else w\<lparr>t_chunks := upd (\<lambda>r. c_id r = c_id c) (\<lambda>r. r\<lparr>c_uploaded_at := Some t, c_etag := Some e\<rparr>) (t_chunks w)\<rparr>)"
proof -
  obtain v where v: "v \<in> set (t_versions w)" "v_id v = vid" "has_row (live_file (v_file v) u) (t_files w)" by (rule pending_live [OF inv pend])
  have "find (\<lambda>c. c_version c = vid \<and> c_index c = i \<and>
             has_row (\<lambda>v. v_id v = c_version c \<and>
               has_row (\<lambda>f. f_id f = v_file v \<and> f_user f = u \<and> f_deleted_at f = None) (t_files w)) (t_versions w)) (t_chunks w) = Some c"
    using c v by (intro find_unique [OF vault_invD(13) [OF inv, unfolded ukey_def]]) (auto simp: live_file_def)
  moreover obtain tag where "head_object x (c_key c) = Inr (Some tag)" using obj c by (auto simp: objects_present_def)
  ultimately show ?thesis unfolding verify_chunk_def verify_chunk_request.simps by (simp add: check_that_def Let_def)
qed

text \<open>One verification succeeds and takes its index off the missing ones.\<close>

lemma verify_chunk_marks:
  assumes inv: "vault_inv w" and pend: "pending_upload w u d vid" and ok: "etags_ok w" and obj: "objects_present x w vid"
    and i: "i \<in> chunk_indices w vid"
  shows "\<exists>a w'. verify_chunk x t u \<lparr>vq_version = vid, vq_index = i, vq_etag = e\<rparr> w = (Inr a, w') \<and>
     vault_inv w' \<and> pending_upload w' u d vid \<and> etags_ok w' \<and> objects_present x w' vid \<and>
     chunk_indices w' vid = chunk_indices w vid \<and> missing_set w' vid = missing_set w vid - {i}"
proof -
  obtain c where c: "c \<in> set (t_chunks w)" "c_version c = vid" "c_index c = i" using i by (auto simp: chunk_indices_def)
  have only: "r = c" if "r \<in> set (t_chunks w)" "c_version r = vid" "c_index r = i" for r
    using that c ukeyD [OF vault_invD(13) [OF inv] that(1) c(1)] by simp
  have same: "r = c" if "r \<in> set (t_chunks w)" "c_id r = c_id c" for r
    using that c ukeyD [OF vault_invD(4) [OF inv] that(1) c(1)] by simp
  obtain a w' where run: "verify_chunk x t u \<lparr>vq_version = vid, vq_index = i, vq_etag = e\<rparr> w = (Inr a, w')"
    and w': "w' = (if c_etag c = Some e then w
       else w\<lparr>t_chunks := upd (\<lambda>r. c_id r = c_id c) (\<lambda>r. r\<lparr>c_uploaded_at := Some t, c_etag := Some e\<rparr>) (t_chunks w)\<rparr>)"
    using verify_chunk_accepts [OF inv pend obj c] by blast
  show ?thesis
  proof (cases "c_etag c = Some e")
    case True
    then have "i \<notin> missing_set w vid" using ok c only by (fastforce simp: missing_set_def etags_ok_def)
    then show ?thesis using run w' True inv pend ok obj by auto
  next
    case False
    have "has_row (\<lambda>c. c_version c = vid) (t_chunks w')" using c False by (auto simp: w' bex_upd)
    then have "pending_upload w' u d vid" using pend False by (simp add: w' pending_upload_def user_exists_def device_exists_def)
    moreover have "etags_ok w'" "objects_present x w' vid" using ok obj False unfolding etags_ok_def objects_present_def w' by (auto simp: ball_upd)
    moreover have "chunk_indices w' vid = chunk_indices w vid" "missing_set w' vid = missing_set w vid - {i}"
    proof -
      let ?g = "\<lambda>r. if r = c then r\<lparr>c_uploaded_at := Some t, c_etag := Some e\<rparr> else r"
      have "(\<lambda>r. (c_version r, c_index r)) ` ?g ` set (t_chunks w) = (\<lambda>r. (c_version r, c_index r)) ` set (t_chunks w)"
        unfolding image_image by (rule image_cong) auto
      moreover have rows: "set (t_chunks w') = ?g ` set (t_chunks w)" using False same by (auto simp: w' set_upd)
      moreover have "chunk_indices w vid = {i. (vid, i) \<in> (\<lambda>r. (c_version r, c_index r)) ` set (t_chunks w)}" for w
        by (auto simp: chunk_indices_def)
      ultimately show "chunk_indices w' vid = chunk_indices w vid" by simp
      show "missing_set w' vid = missing_set w vid - {i}" using only c(3) by (auto simp: missing_set_def rows split: if_splits)
    qed
    ultimately show ?thesis using run verify_chunk.inv [OF inv run] by blast
  qed
qed

lemma verify_all_marks:
  assumes "vault_inv w" and "pending_upload w u d vid" and "etags_ok w" and "objects_present x w vid" and "fst ` set es \<subseteq> chunk_indices w vid"
  shows "\<exists>w'. verify_all x t u vid es w = (Inr (), w') \<and> vault_inv w' \<and> pending_upload w' u d vid \<and> missing_set w' vid = missing_set w vid - fst ` set es"
  using assms
proof (induction es arbitrary: w)
  case (Cons p es)
  obtain i e where p: "p = (i, e)" by (cases p)
  obtain a w1 where w1: "verify_chunk x t u \<lparr>vq_version = vid, vq_index = i, vq_etag = e\<rparr> w = (Inr a, w1)"
    "vault_inv w1" "pending_upload w1 u d vid" "etags_ok w1" "objects_present x w1 vid"
    "chunk_indices w1 vid = chunk_indices w vid" "missing_set w1 vid = missing_set w vid - {i}"
    using verify_chunk_marks [OF Cons.prems(1-4), of i t e] Cons.prems(5) p by auto
  have "fst ` set es \<subseteq> chunk_indices w1 vid" using Cons.prems(5) w1(6) by simp
  from Cons.IH [OF w1(2-5) this] obtain w' where w': "verify_all x t u vid es w1 = (Inr (), w')" "vault_inv w'" "pending_upload w' u d vid"
    "missing_set w' vid = missing_set w1 vid - fst ` set es" by blast
  then show ?case using w1(1,7) p by (intro exI [of _ w']) auto
qed simp

text \<open>
  C20: An interrupted upload can be finished: when the store holds the objects, verifying the chunks
  that the resume information lists as missing, one by one and with any etags, succeeds, and the
  upload can then be completed without sending anything else.
\<close>

theorem resume_completes:
  assumes inv: "vault_inv w" and pend: "pending_upload w u d vid" and ok: "etags_ok w" and obj: "objects_present x w vid"
    and run: "get_resume_info x u vid w = Inr info" and es: "map fst es = ri_missing info"
  shows "\<exists>w'. verify_all x t u vid es w = (Inr (), w') \<and> fst (complete_upload t' u d \<lparr>co_version = vid, co_etags = []\<rparr> w') = Inr ()"
proof -
  obtain v where v: "find_live_version u vid w = Some v" by (rule pending_live [OF inv pend])
  have "set (missing_chunks w vid) = missing_set w vid" for w
    by (auto simp: missing_chunks_def missing_set_def set_version_chunks)
  note missing = this
  have "ri_missing info = missing_chunks w vid"
    using run by (auto simp: get_resume_info_def v Let_def and_then_ok filter_map comp_def missing_chunks_def)
  then have fst: "fst ` set es = missing_set w vid" using es missing by (metis set_map)
  have "missing_set w vid \<subseteq> chunk_indices w vid" by (auto simp: missing_set_def chunk_indices_def)
  then obtain w' where w': "verify_all x t u vid es w = (Inr (), w')" "vault_inv w'" "pending_upload w' u d vid" "missing_set w' vid = {}"
    using verify_all_marks [OF inv pend ok obj, of es t] fst by auto
  then show ?thesis using complete_without_etags [OF w'(2,3), of t'] missing [of w'] by simp
qed

subsection \<open>At the sample state\<close>

lemma sample_resume: "\<exists>info. get_resume_info sample_ext 1 42 sample_vault = Inr info \<and> ri_missing info = [0]"
  by (simp add: get_resume_info_def find_live_version_def version_chunks_def sample_rows presign_put_def require_r2_def r2_presign_put_def
      sample_ext_def Let_def)

lemma sample_inv: "vault_inv sample_vault"
  using sample_system by (rule system_invD(1))

theorem upload_views_agree_witness:
  "\<exists>info p. get_resume_info sample_ext 1 42 sample_vault = Inr info \<and> ri_missing info = [0] \<and>
     precheck_version_completeness 1 42 sample_vault = Inr p \<and> \<not> cc_complete p"
proof -
  obtain info where info: "get_resume_info sample_ext 1 42 sample_vault = Inr info" "ri_missing info = [0]" using sample_resume by blast
  have "pending_upload sample_vault 1 7 42" using sample_pending by (simp add: sample_complete_def)
  from upload_views_agree [OF sample_inv this info(1)] info show ?thesis by auto
qed

theorem resume_completes_witness:
  "\<exists>w'. verify_all sample_ext 5 1 42 [(0, ''e'')] sample_vault = (Inr (), w') \<and>
     fst (complete_upload 6 1 7 \<lparr>co_version = 42, co_etags = []\<rparr> w') = Inr ()"
proof -
  obtain info where info: "get_resume_info sample_ext 1 42 sample_vault = Inr info" "ri_missing info = [0]" using sample_resume by blast
  have "pending_upload sample_vault 1 7 42" using sample_pending by (simp add: sample_complete_def)
  then show ?thesis
    by (rule resume_completes [OF sample_inv _ _ _ info(1)])
      (simp_all add: info etags_ok_def objects_present_def sample_rows head_object_def require_r2_def r2_head_object_def sample_ext_def)
qed

end
