(* ===== verification/Cleanup.thy ===== *)
theory Cleanup
  imports Manage_Properties
begin

text \<open>
  Cleaning up: \<open>FileService::cleanup_orphaned_versions\<close>, which a user starts, and the
  background worker of \<open>src/features/files/cleanup.rs\<close>, which removes abandoned versions and
  works off the queue of object keys to delete.
\<close>

subsection \<open>Orphaned versions\<close>

text \<open>\<open>Utc::now() - chrono::Duration::hours(h)\<close>, in microseconds; both callers pass 24 hours.\<close>

definition cutoff_of :: "timestamp \<Rightarrow> int \<Rightarrow> timestamp" where
  "cutoff_of now older_than_hours = now - older_than_hours * 3600000000"

text \<open>
  A version that is not active, older than the cutoff and not the current one of a file: unfinished
  uploads, and also completed versions that a newer one has superseded, of every user.
\<close>

definition orphaned :: "timestamp \<Rightarrow> vault \<Rightarrow> version_row \<Rightarrow> bool" where
  "orphaned cutoff w v \<longleftrightarrow>
     \<not> v_active v \<and> v_created_at v < cutoff \<and> \<not> has_row (\<lambda>f. f_current f = Some (v_id v)) (t_files w)"

definition orphan_keys :: "timestamp \<Rightarrow> vault \<Rightarrow> string list" where
  "orphan_keys cutoff w =
     map c_key (filter (\<lambda>c. has_row (\<lambda>v. v_id v = c_version c \<and> orphaned cutoff w v) (t_versions w)) (t_chunks w))"

subsection \<open>The clean-up a user starts\<close>

text \<open>\<open>deleted_at IS NOT NULL AND deleted_at < $2\<close>.\<close>

definition expired :: "timestamp \<Rightarrow> timestamp option \<Rightarrow> bool" where
  "expired cutoff deleted_at \<longleftrightarrow> (case deleted_at of None \<Rightarrow> False | Some t \<Rightarrow> t < cutoff)"

definition expired_roots :: "timestamp \<Rightarrow> uuid \<Rightarrow> vault \<Rightarrow> uuid list" where
  "expired_roots cutoff u w =
     map fo_id (filter (\<lambda>fo. fo_user fo = u \<and> expired cutoff (fo_deleted_at fo)) (t_folders w))"

definition expired_tree :: "timestamp \<Rightarrow> uuid \<Rightarrow> vault \<Rightarrow> uuid list" where
  "expired_tree cutoff u w =
     (let roots = expired_roots cutoff u w in if roots \<noteq> [] then subtree w roots u else [])"

text \<open>The files in the expired folders and the expired files themselves, sorted and without duplicates.\<close>

definition expired_files :: "timestamp \<Rightarrow> uuid \<Rightarrow> vault \<Rightarrow> uuid list" where
  "expired_files cutoff u w =
     (let in_tree = (if expired_roots cutoff u w \<noteq> []
            then map f_id (filter (\<lambda>f. opt_in (f_folder f) (expired_tree cutoff u w) \<and> f_user f = u) (t_files w)) else []);
          trashed = map f_id (filter (\<lambda>f. f_user f = u \<and> expired cutoff (f_deleted_at f)) (t_files w))
      in remdups_adj (sort (in_tree @ trashed)))"

definition user_cleanup_orphaned_versions :: "ext \<Rightarrow> timestamp \<Rightarrow> uuid \<Rightarrow> int \<Rightarrow> vault \<Rightarrow> nat result \<times> vault" where
  "user_cleanup_orphaned_versions x now u older_than_hours w =
     (let cutoff = cutoff_of now older_than_hours;
          tree = expired_tree cutoff u w
      in case hard_delete_files now (expired_files cutoff u w) (Some u) w of
           ((purged_files, keys), w1) \<Rightarrow>
             let w2 = (if tree \<noteq> [] then delete_folders (\<lambda>fo. fo_id fo \<in> set tree \<and> fo_user fo = u) w1 else w1);
                 orphan_keys = orphan_keys cutoff w2;
                 w3 = delete_versions (orphaned cutoff w2) w2;
                 all_keys = keys @ orphan_keys;
                 w4 = (if all_keys \<noteq> [] then queue_deletions now (Some u) all_keys w3 else w3)
             in (Inr (purged_files + length orphan_keys), delete_objects_best_effort x all_keys w4))"

subsection \<open>The background worker\<close>

text \<open>\<open>CleanupService::cleanup_orphaned_versions\<close> deletes the objects first, then the rows.\<close>

definition cleanup_orphaned_versions :: "ext \<Rightarrow> timestamp \<Rightarrow> int \<Rightarrow> vault \<Rightarrow> nat \<times> vault" where
  "cleanup_orphaned_versions x now older_than_hours w =
     (let cutoff = cutoff_of now older_than_hours;
          w1 = delete_objects_best_effort x (orphan_keys cutoff w) w
      in (row_count (orphaned cutoff w1) (t_versions w1), delete_versions (orphaned cutoff w1) w1))"

text \<open>\<open>attempts + 1\<close> on an \<open>INTEGER\<close> column: PostgreSQL reports an overflow as an error.\<close>

definition out_of_range :: sqlx_error where
  "out_of_range = Database (Some ''22003'') ''integer out of range''"

definition record_attempt :: "timestamp \<Rightarrow> string list \<Rightarrow> app_error \<Rightarrow> vault \<Rightarrow> sqlx_error + vault" where
  "record_attempt now keys e w =
     (if has_row (\<lambda>p. p_key p \<in> set keys \<and> p_attempts p + 1 \<ge> 2 ^ 31) (t_pending w) then Inl out_of_range
      else Inr (w\<lparr>t_pending := upd (\<lambda>p. p_key p \<in> set keys)
                   (\<lambda>p. p\<lparr>p_attempts := p_attempts p + 1, p_last_attempt_at := Some now,
                          p_last_error := Some (error_display e)\<rparr>) (t_pending w)\<rparr>))"

definition retry_batch :: "vault \<Rightarrow> string list" where
  "retry_batch w = map p_key (take 500 (sort_key p_created_at (t_pending w)))"

definition retry_pending_storage_deletions :: "ext \<Rightarrow> timestamp \<Rightarrow> vault \<Rightarrow> (sqlx_error + nat) \<times> vault" where
  "retry_pending_storage_deletions x now w =
     (if \<not> r2_configured x then (Inr 0, w)
      else
        let keys = retry_batch w
        in if keys = [] then (Inr 0, w)
           else case delete_objects x keys w of
                  (Inl e, w1) \<Rightarrow>
                    (case record_attempt now keys e w1 of Inl d \<Rightarrow> (Inl d, w1) | Inr w2 \<Rightarrow> (Inr 0, w2))
                | (Inr _, w1) \<Rightarrow>
                    let gone = filter (\<lambda>k. head_object x k = Inr None) keys
                    in if gone = [] then (Inr 0, w1)
                       else (Inr (row_count (\<lambda>p. p_key p \<in> set gone) (t_pending w1)),
                             w1\<lparr>t_pending := del (\<lambda>p. p_key p \<in> set gone) (t_pending w1)\<rparr>))"

text \<open>
  The endless loop of the worker, up to some tick: each tick has the time it fires at and the
  object store as it answers then. Errors are logged.
\<close>

definition cleanup_tick :: "int \<Rightarrow> ext \<times> timestamp \<Rightarrow> vault \<Rightarrow> vault" where
  "cleanup_tick older_than_hours tick w =
     (case tick of (x, now) \<Rightarrow>
        snd (retry_pending_storage_deletions x now (snd (cleanup_orphaned_versions x now older_than_hours w))))"

definition run_periodic_cleanup :: "int \<Rightarrow> (ext \<times> timestamp) list \<Rightarrow> vault \<Rightarrow> vault" where
  "run_periodic_cleanup older_than_hours ticks w = fold (cleanup_tick older_than_hours) ticks w"

subsection \<open>The queue\<close>

lemma retry_batch_queued: "set (retry_batch w) \<subseteq> queued_keys w"
  by (auto simp: retry_batch_def queued_keys_def dest!: in_set_takeD)

lemma delete_objects_frame:
  assumes "delete_objects x ks w = (r, w')"
  shows "\<exists>sent. w' = w\<lparr>r2_deletes := r2_deletes w @ sent\<rparr> \<and> set (concat sent) \<subseteq> set ks \<and>
    (r = Inr () \<longrightarrow> concat sent = ks \<and> (\<forall>b\<in>set sent. length b \<le> 1000 \<and> sdk_delete x b = DeleteDone 0))"
proof (cases "ks = [] \<or> require_r2 x \<noteq> Inr ()")
  case True
  then show ?thesis using assms by (intro exI [of _ "[]"]) (auto simp: delete_objects_def require_r2_def split: if_splits)
next
  case False
  let ?bs = "chunks_of 1000 ks"
  obtain q sent where d: "delete_batches x ?bs = (q, sent)" by fastforce
  have "prefix sent ?bs" using delete_batches_prefix [of x ?bs] by (simp add: d)
  then have "set (concat sent) \<subseteq> set (concat ?bs)" by (auto simp: prefix_def)
  moreover have "sent = ?bs \<and> (\<forall>b\<in>set ?bs. sdk_delete x b = DeleteDone 0)" if "q = Inr ()"
    using delete_batches_ok [of x ?bs] that d by simp
  ultimately show ?thesis
    using assms False d chunks_of_bound [of _ 1000 ks]
    by (auto simp: delete_objects_def r2_delete_objects_def chunks_of_concat intro!: exI [of _ sent])
qed

lemma record_attempt_frame:
  assumes "record_attempt now ks e w = Inr w'"
  shows "queued_keys w' = queued_keys w" "r2_deletes w' = r2_deletes w" "t_files w' = t_files w"
    "t_versions w' = t_versions w" "t_chunks w' = t_chunks w"
proof -
  have w': "w' = w\<lparr>t_pending := upd (\<lambda>p. p_key p \<in> set ks)
                   (\<lambda>p. p\<lparr>p_attempts := p_attempts p + 1, p_last_attempt_at := Some now,
                          p_last_error := Some (error_display e)\<rparr>) (t_pending w)\<rparr>"
    using assms by (simp add: record_attempt_def split: if_splits)
  have "p_key ` set (t_pending w') = p_key ` set (t_pending w)"
    by (simp add: w' image_upd_keep)
  then show "queued_keys w' = queued_keys w" "r2_deletes w' = r2_deletes w" "t_files w' = t_files w"
    "t_versions w' = t_versions w" "t_chunks w' = t_chunks w"
    by (simp_all add: queued_keys_def w')
qed

text \<open>
  C35: A key leaves the deletion queue only when its object is known to be gone: after a retry
  every queued key is still queued, except keys that were in delete requests the store accepted
  completely, and for which HEAD then reported no object. When a delete request fails, the whole
  queue is kept.
\<close>

theorem retry_keeps_unconfirmed:
  assumes run: "retry_pending_storage_deletions x now w = (r, w')"
  shows "\<exists>sent. r2_deletes w' = r2_deletes w @ sent \<and>
     queued_keys w' \<subseteq> queued_keys w \<and>
     (\<forall>k \<in> queued_keys w - queued_keys w'. head_object x k = Inr None \<and> k \<in> set (concat sent) \<and>
        (\<forall>b\<in>set sent. sdk_delete x b = DeleteDone 0)) \<and>
     t_files w' = t_files w \<and> t_versions w' = t_versions w \<and> t_chunks w' = t_chunks w"
proof (cases "r2_configured x \<and> retry_batch w \<noteq> []")
  case False
  then have "w' = w" using run by (auto simp: retry_pending_storage_deletions_def Let_def split: if_splits)
  then show ?thesis by (intro exI [of _ "[]"]) auto
next
  case True
  obtain q w1 where d: "delete_objects x (retry_batch w) w = (q, w1)" by fastforce
  obtain sent where sent: "w1 = w\<lparr>r2_deletes := r2_deletes w @ sent\<rparr>"
    "q = Inr () \<Longrightarrow> concat sent = retry_batch w" "q = Inr () \<Longrightarrow> \<forall>b\<in>set sent. sdk_delete x b = DeleteDone 0"
    using delete_objects_frame [OF d] by blast
  let ?gone = "filter (\<lambda>k. head_object x k = Inr None) (retry_batch w)"
  show ?thesis
  proof (cases q)
    case (Inl e)
    have "r2_deletes w' = r2_deletes w1 \<and> queued_keys w' = queued_keys w1 \<and>
        t_files w' = t_files w1 \<and> t_versions w' = t_versions w1 \<and> t_chunks w' = t_chunks w1"
      using run True Inl d
      by (auto simp: retry_pending_storage_deletions_def Let_def record_attempt_frame split: sum.splits if_splits)
    then show ?thesis using sent(1) by (intro exI [of _ sent]) (auto simp: queued_keys_def)
  next
    case (Inr ok)
    then have "w' = w1\<lparr>t_pending := del (\<lambda>p. p_key p \<in> set ?gone) (t_pending w1)\<rparr>"
      using run True d
      by (cases "?gone = []") (auto simp: retry_pending_storage_deletions_def Let_def del_none filter_empty_conv split: if_splits)
    then show ?thesis using sent Inr by (intro exI [of _ sent]) (auto simp: queued_keys_def)
  qed
qed

text \<open>Dropping the first \<open>n\<close> rows of an ordering by their keys leaves the rest.\<close>

lemma length_del_take:
  assumes "distinct (map k xs)" and "mset ys = mset xs"
  shows "length (del (\<lambda>r. k r \<in> set (map k (take n ys))) xs) = length xs - n"
proof -
  have d: "distinct (map k ys)" using assms by (metis mset_eq_imp_distinct_iff mset_map)
  have tk: "k r \<notin> set (map k (take n ys))" if "r \<in> set (drop n ys)" for r
  proof
    assume "k r \<in> set (map k (take n ys))"
    moreover have "k r \<in> set (map k (drop n ys))" using that by simp
    moreover have "set (map k (take n ys)) \<inter> set (map k (drop n ys)) = {}"
      using d by (metis append_take_drop_id distinct_append map_append)
    ultimately show False by blast
  qed
  let ?P = "\<lambda>r. k r \<notin> set (map k (take n ys))"
  have "filter ?P ys = filter ?P (take n ys) @ filter ?P (drop n ys)" by (metis append_take_drop_id filter_append)
  also have "\<dots> = drop n ys" using tk by (auto simp: filter_empty_conv filter_id_conv)
  finally have "length (filter ?P ys) = length ys - n" by simp
  moreover have "length (filter ?P ys) = length (filter ?P xs)" by (metis assms(2) mset_filter size_mset)
  moreover have "length ys = length xs" using assms(2) by (metis size_mset)
  ultimately show ?thesis by (simp add: del_def)
qed

text \<open>
  An object store that, for the keys \<open>K\<close>, accepts delete requests without errors and afterwards,
  which is when the code asks, has no object under them. Of other keys nothing is said.
\<close>

definition store_works :: "ext \<Rightarrow> string set \<Rightarrow> bool" where
  "store_works x K \<longleftrightarrow> r2_configured x \<and> (\<forall>ks. set ks \<subseteq> K \<longrightarrow> sdk_delete x ks = DeleteDone 0) \<and>
     (\<forall>k\<in>K. sdk_head x k = HeadServiceError 404)"

lemma store_works_mono: "store_works x K \<Longrightarrow> K' \<subseteq> K \<Longrightarrow> store_works x K'"
  by (auto simp: store_works_def)

lemma delete_objects_works:
  assumes "store_works x K" and "set ks \<subseteq> K"
  shows "\<exists>w'. delete_objects x ks w = (Inr (), w') \<and> t_pending w' = t_pending w"
proof -
  have "fst (delete_batches x bs) = Inr ()" if "\<forall>b\<in>set bs. set b \<subseteq> K" for bs
    using assms(1) that by (induction bs) (auto simp: store_works_def split: prod.splits)
  moreover have "set b \<subseteq> K" if "b \<in> set (chunks_of 1000 ks)" for b
  proof -
    have "set b \<subseteq> set (concat (chunks_of 1000 ks))" using that by auto
    then show ?thesis using assms(2) by (simp add: chunks_of_concat)
  qed
  moreover have "require_r2 x = Inr ()" using assms by (simp add: store_works_def require_r2_def)
  ultimately show ?thesis
    by (cases "delete_batches x (chunks_of 1000 ks)") (auto simp: delete_objects_def r2_delete_objects_def, metis fst_conv)
qed

lemma retry_drains:
  assumes x: "store_works x (queued_keys w)" and ids: "ukey p_key (t_pending w)"
  shows "length (t_pending (snd (retry_pending_storage_deletions x now w))) = length (t_pending w) - 500"
    and "ukey p_key (t_pending (snd (retry_pending_storage_deletions x now w)))"
    and "queued_keys (snd (retry_pending_storage_deletions x now w)) \<subseteq> queued_keys w"
proof -
  let ?ps = "t_pending w" and ?w' = "snd (retry_pending_storage_deletions x now w)"
  have batch: "set (retry_batch w) \<subseteq> queued_keys w"
    by (auto simp: retry_batch_def queued_keys_def dest: in_set_takeD)
  obtain w1 where d: "delete_objects x (retry_batch w) w = (Inr (), w1)" "t_pending w1 = ?ps"
    using delete_objects_works [OF x batch] by blast
  have "head_object x k = Inr None" if "k \<in> set (retry_batch w)" for k
    using x batch that by (auto simp: store_works_def head_object_def require_r2_def r2_head_object_def)
  then have "filter (\<lambda>k. head_object x k = Inr None) (retry_batch w) = retry_batch w" by (simp add: filter_id_conv)
  then have eq: "t_pending ?w' = del (\<lambda>p. p_key p \<in> set (retry_batch w)) ?ps"
    using x d by (auto simp: retry_pending_storage_deletions_def Let_def store_works_def del_none)
  then show "ukey p_key (t_pending ?w')" using ids by (simp add: ukey_del)
  show "queued_keys ?w' \<subseteq> queued_keys w" unfolding queued_keys_def eq by auto
  show "length (t_pending ?w') = length ?ps - 500"
    unfolding eq retry_batch_def using ids by (intro length_del_take) (simp_all add: ukey_def)
qed

lemma cleanup_pending: "t_pending (snd (cleanup_orphaned_versions x now h w)) = t_pending w"
  by (simp add: cleanup_orphaned_versions_def Let_def delete_versions_def)

text \<open>
  C34: The worker drains the queue: while the object store accepts the deletion of the queued keys
  and then has no object under them, every tick takes 500 entries off the queue, so after enough
  ticks nothing is left to delete. What the store holds under other keys does not matter.
\<close>

theorem periodic_cleanup_drains:
  assumes "\<And>x now. (x, now) \<in> set ticks \<Longrightarrow> store_works x (queued_keys w)" and "ukey p_key (t_pending w)"
  shows "length (t_pending (run_periodic_cleanup h ticks w)) = length (t_pending w) - 500 * length ticks"
  using assms
proof (induction ticks arbitrary: w)
  case Nil
  then show ?case by (simp add: run_periodic_cleanup_def)
next
  case (Cons tick ticks)
  obtain x now where t: "tick = (x, now)" by fastforce
  let ?w0 = "snd (cleanup_orphaned_versions x now h w)" and ?w1 = "cleanup_tick h tick w"
  have q: "queued_keys ?w0 = queued_keys w" "ukey p_key (t_pending ?w0)"
    using Cons.prems(2) by (simp_all add: queued_keys_def cleanup_pending)
  have "store_works x (queued_keys ?w0)" using Cons.prems(1) [of x now] t q(1) by simp
  note D = retry_drains [OF this q(2), of now]
  have "?w1 = snd (retry_pending_storage_deletions x now ?w0)" by (simp add: cleanup_tick_def t)
  with D q(1) have w1: "length (t_pending ?w1) = length (t_pending w) - 500" "ukey p_key (t_pending ?w1)" "queued_keys ?w1 \<subseteq> queued_keys w"
    by (simp_all add: cleanup_pending)
  have "store_works x' (queued_keys ?w1)" if "(x', now') \<in> set ticks" for x' now'
    using Cons.prems(1) [of x' now'] that w1(3) by (auto intro: store_works_mono)
  from Cons.IH [OF this w1(2)] w1(1) show ?case by (simp add: run_periodic_cleanup_def)
qed

subsection \<open>Expired trash\<close>

lemma expired_tree_subtree: "expired_tree c u w = subtree w (expired_roots c u w) u"
proof -
  have "rec_union E [] = []" for E :: "(uuid \<times> uuid) list" using set_rec_union [of E "[]"] by simp
  then show ?thesis by (simp add: expired_tree_def Let_def subtree_def)
qed

text \<open>
  What lies in a trashed folder was trashed no later, so the tree below the expired folders
  consists of expired folders, and the files in it are expired too.
\<close>

lemma expired_tree_stamp:
  assumes sys: "system_inv now w" and fo: "fo \<in> set (t_folders w)"
  shows "fo_id fo \<in> set (expired_tree c u w) \<longleftrightarrow> fo_user fo = u \<and> expired c (fo_deleted_at fo)"
proof
  note I = system_invD [OF sys]
  assume in_tree: "fo_id fo \<in> set (expired_tree c u w)"
  then have "fo_user fo = u" using subtree_owned [OF I(1) fo] by (simp add: expired_tree_subtree)
  obtain r where r: "r \<in> set (t_folders w)" "fo_user r = u" "fo_id r \<in> set (expired_roots c u w)" "(fo_id r, fo_id fo) \<in> (owned_rel w u)\<^sup>*"
    using in_tree by (auto simp: expired_tree_subtree set_subtree)
  then obtain r' t where "r' \<in> set (t_folders w)" "fo_id r' = fo_id r" "fo_deleted_at r' = Some t" "t < c"
    by (auto simp: expired_roots_def expired_def split: option.splits)
  then have t: "fo_deleted_at r = Some t" "t < c" using ukeyD [OF vault_invD(1) [OF I(1)] _ r(1)] by metis+
  have "trash_le (Some t) (fo_deleted_at fo)"
    using r by (intro subtree_stamp [OF I(1,5) r(1) t(1) fo]) (auto simp: set_subtree)
  then show "fo_user fo = u \<and> expired c (fo_deleted_at fo)"
    using t(2) \<open>fo_user fo = u\<close> by (cases "fo_deleted_at fo") (auto simp: expired_def)
next
  assume "fo_user fo = u \<and> expired c (fo_deleted_at fo)"
  then show "fo_id fo \<in> set (expired_tree c u w)"
    unfolding expired_tree_subtree using fo by (intro subtree_root) (auto simp: expired_roots_def)
qed

lemma expired_file_stamp:
  assumes sys: "system_inv now w" and f: "f \<in> set (t_files w)" and "opt_in (f_folder f) (expired_tree c u w)"
  shows "f_user f = u" "expired c (f_deleted_at f)"
proof -
  note I = system_invD [OF sys]
  from assms(3) obtain d where d: "d \<in> set (expired_tree c u w)" "f_folder f = Some d" by (auto simp: opt_in_iff)
  then show "f_user f = u" using subtree_file [OF I(4) f] by (simp add: expired_tree_subtree)
  obtain fo where fo: "fo \<in> set (t_folders w)" "fo_id fo = d" using fkeyD [OF vault_invD(7) [OF I(1)] f d(2)] by blast
  then obtain t where "fo_deleted_at fo = Some t" "t < c"
    using expired_tree_stamp [OF sys fo(1)] d(1) by (auto simp: expired_def split: option.splits)
  moreover have "trash_le (fo_deleted_at fo) (f_deleted_at f)" using trash_okD(2) [OF I(5) fo(1) f] d(2) fo(2) by simp
  ultimately show "expired c (f_deleted_at f)" by (cases "f_deleted_at f") (auto simp: expired_def)
qed

lemma expired_files_iff:
  assumes sys: "system_inv now w" and f: "f \<in> set (t_files w)"
  shows "f_id f \<in> set (expired_files c u w) \<longleftrightarrow> f_user f = u \<and> expired c (f_deleted_at f)"
proof -
  note U = ukeyD [OF vault_invD(2) [OF system_invD(1) [OF sys]]]
  have "i \<in> set (expired_files c u w) \<longleftrightarrow>
      (\<exists>g\<in>set (t_files w). f_id g = i \<and> f_user g = u \<and> (opt_in (f_folder g) (expired_tree c u w) \<or> expired c (f_deleted_at g)))" for i
    by (auto simp: expired_files_def Let_def expired_tree_def)
  also have "(\<exists>g\<in>set (t_files w). f_id g = f_id f \<and> f_user g = u \<and> (opt_in (f_folder g) (expired_tree c u w) \<or> expired c (f_deleted_at g)))
      \<longleftrightarrow> f_user f = u \<and> expired c (f_deleted_at f)"
    using expired_file_stamp [OF sys] U f by blast
  finally show ?thesis .
qed

text \<open>Dropping orphaned versions changes no file, and the keys of their chunks are the reported ones.\<close>

lemma drop_orphans_rows:
  "t_files (delete_versions (orphaned c w) w) = t_files w"
  "chunk_keys w \<subseteq> chunk_keys (delete_versions (orphaned c w) w) \<union> set (orphan_keys c w)"
  "t_pending (delete_versions P w) = t_pending w"
proof -
  show "t_files (delete_versions (orphaned c w) w) = t_files w"
    by (auto simp: delete_versions_def Let_def orphaned_def opt_in_iff intro!: upd_none)
  show "t_pending (delete_versions P w) = t_pending w" by (simp add: delete_versions_def Let_def)
  have "c_key r \<in> chunk_keys (delete_versions (orphaned c w) w) \<union> set (orphan_keys c w)" if "r \<in> set (t_chunks w)" for r
    using that
    by (cases "\<exists>v\<in>set (t_versions w). v_id v = c_version r \<and> orphaned c w v")
      (auto simp: delete_versions_def Let_def chunk_keys_def orphan_keys_def)
  then show "chunk_keys w \<subseteq> chunk_keys (delete_versions (orphaned c w) w) \<union> set (orphan_keys c w)"
    by (auto simp: chunk_keys_def)
qed

lemma drop_orphans_system:
  assumes "system_inv now w"
  shows "system_inv now (delete_versions (orphaned c w) w)"
proof -
  let ?w = "delete_versions (orphaned c w) w"
  note I = system_invD [OF assms]
  have "t_folders ?w = t_folders w" by simp
  then show ?thesis
    using delete_versions_inv [OF I(1)] I(2,3) tree_inv_cong [OF _ drop_orphans_rows(1)] clock_ok_cong [OF _ drop_orphans_rows(1)]
    by (simp add: system_inv_def)
qed

lemma user_cleanup_steps:
  assumes sys: "system_inv now w" and run: "user_cleanup_orphaned_versions x t u h w = (Inr n, w')"
  obtains m ks w1 w2 where "hard_delete_files t (expired_files (cutoff_of t h) u w) (Some u) w = ((m, ks), w1)"
    "w2 = w1\<lparr>t_folders := del (\<lambda>fo. fo_id fo \<in> set (expired_tree (cutoff_of t h) u w)) (t_folders w)\<rparr>"
    "good_step now u w w2" "n = m + length (orphan_keys (cutoff_of t h) w2)"
    "w' = delete_objects_best_effort x (ks @ orphan_keys (cutoff_of t h) w2)
       (queue_deletions t (Some u) (ks @ orphan_keys (cutoff_of t h) w2) (delete_versions (orphaned (cutoff_of t h) w2) w2))"
proof -
  let ?c = "cutoff_of t h" and ?P = "\<lambda>fo. fo_id fo \<in> set (expired_tree (cutoff_of t h) u w) \<and> fo_user fo = u"
  note I = system_invD [OF sys]
  obtain m ks w1 where h: "hard_delete_files t (expired_files ?c u w) (Some u) w = ((m, ks), w1)" by (rule split3)
  note R = hard_delete_rows [OF I(1) h]
  have clo: "set (folder_closure ?P (t_folders w)) = set (expired_tree ?c u w)"
    unfolding expired_tree_subtree by (rule subtree_closure [OF I(1,4)])
  have "delete_folders ?P w1 = w1\<lparr>t_folders := del (\<lambda>fo. fo_id fo \<in> set (folder_closure ?P (t_folders w1))) (t_folders w1)\<rparr>"
  proof (rule delete_folders_rows)
    fix f assume "f \<in> set (t_files w1)"
    then have "f \<in> set (t_files w)" "f_id f \<notin> set (expired_files ?c u w)" by (auto simp: R)
    then show "\<not> opt_in (f_folder f) (folder_closure ?P (t_folders w1))"
      using expired_file_stamp [OF sys] expired_files_iff [OF sys] clo by (simp add: R opt_in_iff) metis
  qed
  then have drop: "delete_folders ?P w1 = w1\<lparr>t_folders := del (\<lambda>fo. fo_id fo \<in> set (expired_tree ?c u w)) (t_folders w)\<rparr>"
    using clo by (simp add: R)
  have "good_step now u w (delete_folders ?P (w1\<lparr>t_shares := t_shares w1\<rparr>))"
    using expired_files_iff [OF sys] expired_file_stamp [OF sys]
    by (intro purge_subtree_good [OF sys h expired_tree_subtree]) auto
  then have good: "good_step now u w (delete_folders ?P w1)" by simp
  have if_drop: "(if expired_tree ?c u w \<noteq> [] then delete_folders ?P w1 else w1) = delete_folders ?P w1"
    unfolding drop using R by (auto simp: del_none)
  have if_queue: "(if ks \<noteq> [] then queue_deletions t (Some u) ks w else w) = queue_deletions t (Some u) ks w" for ks w
    by (simp add: queue_deletions_def)
  show ?thesis
    using that [OF h drop good] run unfolding user_cleanup_orphaned_versions_def Let_def h prod.case if_drop if_queue by blast
qed

lemma user_cleanup_safe:
  assumes sys: "system_inv now w" and run: "user_cleanup_orphaned_versions x t u h w = (Inr n, w')"
  shows "system_inv now w' \<and> keys_safe w w'"
  using user_cleanup_steps [OF sys run]
proof cases
  case (1 m ks w1 w2)
  let ?c = "cutoff_of t h"
  let ?w3 = "delete_versions (orphaned ?c w2) w2" and ?ks = "ks @ orphan_keys ?c w2"
  have sys3: "system_inv now ?w3" by (rule drop_orphans_system [OF good_step_system [OF 1(3)]])
  have rows: "t_folders w' = t_folders ?w3" "t_files w' = t_files ?w3" by (simp_all add: 1(5))
  have "vault_inv w'" unfolding 1(5) using system_invD(1) [OF sys3] by (auto intro!: inv_intro)
  then have sys': "system_inv now w'" using sys3 tree_inv_cong [OF rows] clock_ok_cong [OF rows] by (simp add: system_inv_def)
  have "chunk_keys (queue_deletions t o1 ks' w) = chunk_keys w" "queued_keys (delete_versions P w) = queued_keys w" for o1 ks' w P
    by (simp_all add: chunk_keys_def queued_keys_def)
  then have "keys_safe w2 (queue_deletions t (Some u) ?ks ?w3)"
    using drop_orphans_rows(2) [of w2 ?c] unfolding keys_safe_def queued_queue_deletions by auto
  then have "keys_safe w2 w'" unfolding 1(5) by (rule keys_safe_right_cong [THEN iffD2, rotated 2]) simp_all
  then have "keys_safe w w'" using 1(3) by (auto simp: good_step_def intro: keys_safe_trans)
  with sys' show ?thesis ..
qed

text \<open>
  What the clean-up of a user does to the tables. Of the versions it drops, whoever owns them, every
  inactive one that is older than the cutoff and not current.
\<close>

lemma user_cleanup_versions:
  assumes sys: "system_inv now w" and run: "user_cleanup_orphaned_versions x t u h w = (Inr n, w')"
  shows "set (t_versions w') \<subseteq> set (t_versions w)"
  using user_cleanup_steps [OF sys run]
proof cases
  case (1 m ks w1 w2)
  have "t_versions w1 = del (\<lambda>v. v_file v \<in> set (expired_files (cutoff_of t h) u w)) (t_versions w)"
    using 1(1) hard_delete_gone(2) [OF 1(1)] by (cases "expired_files (cutoff_of t h) u w = []") (auto simp: hard_delete_files_def del_none)
  moreover have "t_versions w' = del (orphaned (cutoff_of t h) w2) (t_versions w1)"
    unfolding 1(5) using 1(2) by (simp add: queue_deletions_def delete_versions_def Let_def)
  ultimately show ?thesis by auto
qed

lemma user_cleanup_rows:
  assumes sys: "system_inv now w" and run: "user_cleanup_orphaned_versions x t u h w = (Inr n, w')" and c: "c = cutoff_of t h"
  shows "t_folders w' = filter (\<lambda>fo. \<not> (fo_user fo = u \<and> expired c (fo_deleted_at fo))) (t_folders w) \<and>
    t_files w' = filter (\<lambda>f. \<not> (f_user f = u \<and> expired c (f_deleted_at f))) (t_files w) \<and>
    (\<forall>v\<in>set (t_versions w). v \<in> set (t_versions w') \<longleftrightarrow>
       \<not> orphaned c w v \<and> \<not> (\<exists>f\<in>set (t_files w). f_id f = v_file v \<and> f_user f = u \<and> expired c (f_deleted_at f))) \<and>
    system_inv now w' \<and> keys_safe w w'"
  using user_cleanup_steps [OF sys run]
proof cases
  case (1 m ks w1 w2)
  note I = system_invD [OF sys] and R = hard_delete_rows [OF system_invD(1) [OF sys] 1(1)]
  let ?ids = "expired_files c u w"
  have rows: "t_folders w' = t_folders w2" "t_files w' = t_files w2" "t_versions w' = del (orphaned c w2) (t_versions w2)"
    "t_files w2 = t_files w1" "t_versions w2 = t_versions w1"
    unfolding 1(5) c [symmetric] using 1(2)
    by (simp_all add: queue_deletions_def drop_orphans_rows) (simp add: delete_versions_def Let_def)
  have "t_folders w' = filter (\<lambda>fo. \<not> (fo_user fo = u \<and> expired c (fo_deleted_at fo))) (t_folders w)"
    unfolding rows 1(2) using expired_tree_stamp [OF sys] by (auto simp: del_def c intro: filter_cong)
  moreover have fs: "t_files w' = filter (\<lambda>f. \<not> (f_user f = u \<and> expired c (f_deleted_at f))) (t_files w)"
    unfolding rows R using expired_files_iff [OF sys] by (auto simp: del_def c intro: filter_cong)
  moreover have "v \<in> set (t_versions w') \<longleftrightarrow>
       \<not> orphaned c w v \<and> \<not> (\<exists>f\<in>set (t_files w). f_id f = v_file v \<and> f_user f = u \<and> expired c (f_deleted_at f))"
    if v: "v \<in> set (t_versions w)" for v
  proof -
    have vs: "t_versions w1 = del (\<lambda>v. v_file v \<in> set ?ids) (t_versions w)"
      using 1(1) hard_delete_gone(2) [OF 1(1)] c by (cases "?ids = []") (auto simp: hard_delete_files_def del_none)
    obtain f where f: "f \<in> set (t_files w)" "f_id f = v_file v" using fkeyD [OF vault_invD(9) [OF I(1)] v] by blast
    have own: "g = f" if "g \<in> set (t_files w)" "f_id g = v_file v" for g
      using ukeyD [OF vault_invD(2) [OF I(1)] that(1) f(1)] that(2) f(2) by simp
    have "(\<exists>g\<in>set (t_files w2). f_current g = Some (v_id v)) \<longleftrightarrow> (\<exists>g\<in>set (t_files w). f_current g = Some (v_id v))"
      if "v_file v \<notin> set ?ids"
      using that current_okD [OF vault_invD(12) [OF I(1)] _ v] by (auto simp: rows R c [symmetric])
    then have "v_file v \<notin> set ?ids \<Longrightarrow> orphaned c w2 v = orphaned c w v" by (simp add: orphaned_def)
    moreover have "v_file v \<in> set ?ids \<longleftrightarrow> (\<exists>f\<in>set (t_files w). f_id f = v_file v \<and> f_user f = u \<and> expired c (f_deleted_at f))"
      using expired_files_iff [OF sys f(1), of c u] f own by metis
    ultimately show ?thesis using v by (auto simp: rows vs)
  qed
  ultimately show ?thesis using user_cleanup_safe [OF sys run] by blast
qed

text \<open>
  C36: The clean-up a user starts removes exactly the folders and files of the user that have been
  in the trash since before the cutoff, with all versions of those files, and keeps every other
  folder and file of anyone. Of the other files every version that is active, current, or younger than the
  cutoff stays, no version is added or changed, the invariants hold afterwards, and no object key is
  lost. (Inactive versions from before the cutoff are dropped: \<open>user_cleanup_rows\<close>.)
\<close>

theorem user_cleanup_effect:
  fixes u :: uuid
  assumes sys: "system_inv now w" and run: "user_cleanup_orphaned_versions x t u h w = (Inr n, w')" and c: "c = cutoff_of t h"
  defines "old \<equiv> \<lambda>f. f_user f = u \<and> expired c (f_deleted_at f)"
  shows "t_folders w' = filter (\<lambda>fo. \<not> (fo_user fo = u \<and> expired c (fo_deleted_at fo))) (t_folders w) \<and>
    t_files w' = filter (\<lambda>f. \<not> old f) (t_files w) \<and>
    set (t_versions w') \<subseteq> set (t_versions w) \<and>
    (\<forall>v\<in>set (t_versions w). \<forall>f\<in>set (t_files w). f_id f = v_file v \<longrightarrow>
       (old f \<longrightarrow> v \<notin> set (t_versions w')) \<and>
       (\<not> old f \<and> (v_active v \<or> f_current f = Some (v_id v) \<or> c \<le> v_created_at v) \<longrightarrow> v \<in> set (t_versions w'))) \<and>
    system_inv now w' \<and> chunk_keys w \<subseteq> chunk_keys w' \<union> queued_keys w' \<and> queued_keys w \<subseteq> queued_keys w'"
proof -
  note R = user_cleanup_rows [OF sys run c]
  have same: "g = f" if "f \<in> set (t_files w)" "g \<in> set (t_files w)" "f_id g = f_id f" for f g
    using ukeyD [OF vault_invD(2) [OF system_invD(1) [OF sys]]] that by blast
  have "set (t_versions w') \<subseteq> set (t_versions w)" by (rule user_cleanup_versions [OF sys run])
  moreover have "(old f \<longrightarrow> v \<notin> set (t_versions w')) \<and>
       (\<not> old f \<and> (v_active v \<or> f_current f = Some (v_id v) \<or> c \<le> v_created_at v) \<longrightarrow> v \<in> set (t_versions w'))"
    if "v \<in> set (t_versions w)" "f \<in> set (t_files w)" "f_id f = v_file v" for v f
  proof -
    have "v \<in> set (t_versions w') \<longleftrightarrow> \<not> orphaned c w v \<and> \<not> (\<exists>f\<in>set (t_files w). f_id f = v_file v \<and> old f)"
      using R that(1) unfolding old_def by blast
    moreover have "(\<exists>f\<in>set (t_files w). f_id f = v_file v \<and> old f) \<longleftrightarrow> old f" using that(2,3) same [OF that(2)] by metis
    moreover have "\<not> orphaned c w v" if "v_active v \<or> f_current f = Some (v_id v) \<or> c \<le> v_created_at v"
      using that \<open>f \<in> set (t_files w)\<close> by (auto simp: orphaned_def)
    ultimately show ?thesis by blast
  qed
  ultimately show ?thesis using R unfolding old_def keys_safe_def by blast
qed

subsection \<open>The worker and the vault\<close>

lemma retry_frame:
  assumes sys: "system_inv now w"
  shows "t_folders (snd (retry_pending_storage_deletions x t w)) = t_folders w \<and>
    t_files (snd (retry_pending_storage_deletions x t w)) = t_files w \<and>
    t_versions (snd (retry_pending_storage_deletions x t w)) = t_versions w \<and>
    system_inv now (snd (retry_pending_storage_deletions x t w))"
proof -
  let ?w' = "snd (retry_pending_storage_deletions x t w)"
  have ids: "ukey p_key (t_pending w)" by (rule vault_invD(5) [OF system_invD(1) [OF sys]])
  obtain q w1 where d: "delete_objects x (retry_batch w) w = (q, w1)" by fastforce
  obtain sent where w1: "w1 = w\<lparr>r2_deletes := r2_deletes w @ sent\<rparr>" using delete_objects_frame [OF d] by blast
  have rows: "ukey p_key (t_pending ?w') \<and> t_folders ?w' = t_folders w \<and> t_files ?w' = t_files w \<and>
      t_versions ?w' = t_versions w \<and> t_chunks ?w' = t_chunks w"
    using ids w1 d
    by (cases q) (auto simp: retry_pending_storage_deletions_def Let_def record_attempt_def ukey_del ukey_upd)
  then have "vault_inv ?w'" using system_invD(1) [OF sys] by (simp add: vault_inv_defs)
  then show ?thesis
    using sys tree_inv_cong [of ?w' w] clock_ok_cong [of ?w' w] by (simp add: rows system_inv_def)
qed

lemma retry_chunks: "t_chunks (snd (retry_pending_storage_deletions x t w)) = t_chunks w"
proof -
  obtain q w1 where d: "delete_objects x (retry_batch w) w = (q, w1)" by fastforce
  then obtain sent where "w1 = w\<lparr>r2_deletes := r2_deletes w @ sent\<rparr>" using delete_objects_frame by blast
  then show ?thesis
    using d by (cases q) (auto simp: retry_pending_storage_deletions_def Let_def record_attempt_def)
qed

text \<open>
  C37: What the background clean-up keeps: after any number of ticks the
  folders and files are the same, every version that is active, current, or younger than the
  cutoff of every tick is still there, and the invariants hold.
\<close>

theorem periodic_cleanup_keeps:
  assumes "system_inv now w"
  shows "t_folders (run_periodic_cleanup h ticks w) = t_folders w \<and> t_files (run_periodic_cleanup h ticks w) = t_files w \<and>
    (\<forall>v\<in>set (t_versions w). v_active v \<or> (\<exists>f\<in>set (t_files w). f_current f = Some (v_id v)) \<or>
       (\<forall>(x, t)\<in>set ticks. cutoff_of t h \<le> v_created_at v) \<longrightarrow> v \<in> set (t_versions (run_periodic_cleanup h ticks w))) \<and>
    system_inv now (run_periodic_cleanup h ticks w)"
  using assms
proof (induction ticks arbitrary: w)
  case Nil
  then show ?case by (simp add: run_periodic_cleanup_def)
next
  case (Cons tick ticks)
  obtain x t where t: "tick = (x, t)" by fastforce
  let ?b = "delete_objects_best_effort x (orphan_keys (cutoff_of t h) w) w" and ?w1 = "snd (cleanup_orphaned_versions x t h w)"
    and ?w2 = "cleanup_tick h tick w"
  have o: "orphaned (cutoff_of t h) ?b = orphaned (cutoff_of t h) w" by (rule ext) (simp add: orphaned_def)
  have w1: "?w1 = delete_versions (orphaned (cutoff_of t h) ?b) ?b" by (simp add: cleanup_orphaned_versions_def Let_def)
  then have r1: "t_folders ?w1 = t_folders w" "t_files ?w1 = t_files w" "t_versions ?w1 = del (orphaned (cutoff_of t h) w) (t_versions w)"
    using drop_orphans_rows(1) [of "cutoff_of t h" ?b] by (simp_all add: o) (simp add: delete_versions_def Let_def o)
  have s1: "system_inv now ?w1" unfolding w1 by (rule drop_orphans_system) (simp add: best_effort.system Cons.prems)
  have w2: "?w2 = snd (retry_pending_storage_deletions x t ?w1)" by (simp add: cleanup_tick_def t)
  have r2: "t_folders ?w2 = t_folders ?w1 \<and> t_files ?w2 = t_files ?w1 \<and> t_versions ?w2 = t_versions ?w1 \<and> system_inv now ?w2"
    unfolding w2 by (rule retry_frame [OF s1])
  from Cons.IH [of ?w2] r1 r2 show ?case
    by (auto simp: run_periodic_cleanup_def t orphaned_def)
qed

text \<open>
  The background clean-up does not queue the keys of the versions it drops: when the object
  store refuses its one delete request, the chunk rows are gone all the same, and no table names
  the object any more.
\<close>

theorem worker_loses_keys:
  "let x = sample_ext\<lparr>sdk_delete := (\<lambda>_. DeleteSendError)\<rparr>;
       w' = run_periodic_cleanup 24 [(x, 86400000010)] sample_vault
   in ''k42'' \<in> chunk_keys sample_vault \<and> ''k42'' \<notin> chunk_keys w' \<and> queued_keys w' = {}"
  by code_simp

subsection \<open>Applications\<close>

text \<open>
  A store without objects; one that has deleted two queued keys and holds the chunks of the sample
  state; and that state with these keys in its queue.
\<close>

definition empty_store :: ext where
  "empty_store = sample_ext\<lparr>sdk_head := (\<lambda>_. HeadServiceError 404)\<rparr>"

definition live_store :: ext where
  "live_store = sample_ext\<lparr>sdk_head := (\<lambda>k. if k \<in> {''a'', ''b''} then HeadServiceError 404 else HeadOk (Some ''e''))\<rparr>"

definition queued_vault :: vault where
  "queued_vault = sample_vault\<lparr>t_pending :=
     [\<lparr>p_key = ''a'', p_user = Some 1, p_created_at = 2, p_attempts = 0, p_last_attempt_at = None, p_last_error = None\<rparr>,
      \<lparr>p_key = ''b'', p_user = None, p_created_at = 1, p_attempts = 3, p_last_attempt_at = None, p_last_error = None\<rparr>]\<rparr>"

theorem retry_keeps_unconfirmed_witness:
  "\<exists>w'. retry_pending_storage_deletions empty_store 9 queued_vault = (Inr 2, w') \<and> queued_keys w' = {} \<and>
     (\<forall>k\<in>{''a'', ''b''}. head_object empty_store k = Inr None)"
proof -
  let ?p = "retry_pending_storage_deletions empty_store 9 queued_vault"
  have r: "fst ?p = Inr 2" "queued_keys (snd ?p) = {}" "queued_keys queued_vault = {''a'', ''b''}"
    by (code_simp, code_simp, simp add: queued_keys_def queued_vault_def)
  from retry_keeps_unconfirmed [OF prod.collapse [symmetric], of empty_store 9 queued_vault]
  have "\<forall>k \<in> queued_keys queued_vault - queued_keys (snd ?p). head_object empty_store k = Inr None" by blast
  then have "\<forall>k\<in>{''a'', ''b''}. head_object empty_store k = Inr None" unfolding r(2,3) by simp
  moreover have "?p = (Inr 2, snd ?p)" by (rule prod_eqI) (simp_all only: r(1) fst_conv snd_conv)
  ultimately show ?thesis using r(2) by (intro exI [of _ "snd ?p"] conjI)
qed

lemma live_store_works: "store_works live_store (queued_keys queued_vault)"
  by (simp add: store_works_def live_store_def sample_ext_def queued_keys_def queued_vault_def)

theorem periodic_cleanup_drains_witness:
  "t_pending (run_periodic_cleanup 24 [(live_store, 9)] queued_vault) = []"
  using periodic_cleanup_drains [of "[(live_store, 9)]" queued_vault 24]
  by (simp add: live_store_works) (simp add: queued_vault_def ukey_def)

lemma user_cleanup_total: "\<exists>n w'. user_cleanup_orphaned_versions x t u h w = (Inr n, w')"
proof -
  obtain m ks w1 where "hard_delete_files t (expired_files (cutoff_of t h) u w) (Some u) w = ((m, ks), w1)" by (rule split3)
  then show ?thesis unfolding user_cleanup_orphaned_versions_def Let_def by simp
qed

theorem user_cleanup_effect_witness:
  "\<exists>n w'. user_cleanup_orphaned_versions sample_ext 86400000010 1 24 sample_vault = (Inr n, w') \<and>
     map f_id (t_files w') = [30, 32] \<and> map fo_id (t_folders w') = [10, 11, 20] \<and> chunk_keys sample_vault \<subseteq> chunk_keys w' \<union> queued_keys w'"
proof -
  obtain n w' where run: "user_cleanup_orphaned_versions sample_ext 86400000010 1 24 sample_vault = (Inr n, w')"
    using user_cleanup_total by blast
  have c: "(10::int) = cutoff_of 86400000010 24" by (simp add: cutoff_of_def)
  from user_cleanup_effect [OF sample_system run c] run show ?thesis
    by (auto simp: expired_def sample_rows)
qed

theorem periodic_cleanup_keeps_witness:
  "\<exists>v\<in>set (t_versions (run_periodic_cleanup 24 [(sample_ext, 86400000010)] sample_vault)). v_id v = 43"
proof -
  let ?v = "sample_version 43 32 1 8 False" and ?f = "sample_file 32 2 (Some 20) (Some 43) None"
  have "?v \<in> set (t_versions sample_vault)" "?f \<in> set (t_files sample_vault)" "f_current ?f = Some (v_id ?v)"
    by (simp_all add: sample_rows)
  then have "?v \<in> set (t_versions (run_periodic_cleanup 24 [(sample_ext, 86400000010)] sample_vault))"
    using periodic_cleanup_keeps [OF sample_system, of 24 "[(sample_ext, 86400000010)]"] by blast
  then show ?thesis by (rule bexI [rotated]) (simp add: sample_version_def)
qed

end
