(* ===== verification/Config.thy ===== *)
theory Config
  imports Vault_Prelude
begin

text \<open>
  The settings of \<open>src/config.rs\<close> with the overrides from the environment, and the string
  functions of the standard library that the services use. On ASCII strings those are written
  out; the case and white space tables of Unicode are the fields of \<open>unicode\<close>.
\<close>

subsection \<open>Strings\<close>

record unicode =
  unicode_lowercase :: "string \<Rightarrow> string"
  unicode_trim :: "string \<Rightarrow> string"

definition is_ascii :: "string \<Rightarrow> bool" where
  "is_ascii s = list_all (\<lambda>c. (of_char c :: nat) < 128) s"

definition ascii_lower :: "char \<Rightarrow> char" where
  "ascii_lower c = (let n = (of_char c :: nat) in if 65 \<le> n \<and> n \<le> 90 then char_of (n + 32) else c)"

definition ascii_space :: "char \<Rightarrow> bool" where
  "ascii_space c = (let n = (of_char c :: nat) in 9 \<le> n \<and> n \<le> 13 \<or> n = 32)"

text \<open>\<open>str::to_lowercase\<close> and \<open>str::trim\<close>.\<close>

definition to_lowercase :: "unicode \<Rightarrow> string \<Rightarrow> string" where
  "to_lowercase uc s = (if is_ascii s then map ascii_lower s else unicode_lowercase uc s)"

definition trim :: "unicode \<Rightarrow> string \<Rightarrow> string" where
  "trim uc s =
     (if is_ascii s then rev (dropWhile ascii_space (rev (dropWhile ascii_space s))) else unicode_trim uc s)"

text \<open>\<open>str::split\<close> with a character: the pieces between its occurrences.\<close>

fun split_on :: "char \<Rightarrow> string \<Rightarrow> string list" where
  "split_on d [] = ['''']"
| "split_on d (c # s) =
     (if c = d then '''' # split_on d s
      else case split_on d s of [] \<Rightarrow> [[c]] | p # ps \<Rightarrow> (c # p) # ps)"

definition as_bytes :: "string \<Rightarrow> bytes" where
  "as_bytes s = map (\<lambda>c. of_nat (of_char c)) s"

subsection \<open>Settings\<close>

record server_config =
  host :: string
  port :: nat

record database_config =
  db_url :: string
  max_connections :: nat
  min_connections :: nat
  acquire_timeout_seconds :: nat
  idle_timeout_seconds :: nat
  max_lifetime_seconds :: nat

record jwt_config =
  issuer :: string
  access_ttl_seconds :: nat
  refresh_ttl_seconds :: nat

record argon2_config =
  m_cost :: nat
  t_cost :: nat
  p_cost :: nat
  output_len :: nat

record rate_limit_config =
  auth_per_minute :: nat
  api_per_minute :: nat

record r2_config =
  account_id :: string
  access_key_id :: string
  secret_access_key :: string
  bucket :: string
  endpoint :: string
  presign_ttl_seconds :: nat

record settings =
  environment :: string
  server :: server_config
  database :: database_config
  jwt :: jwt_config
  argon2 :: argon2_config
  bcrypt_cost :: nat
  allowed_origins :: "string list"
  rate_limit :: rate_limit_config
  r2 :: r2_config
  prelogin_pepper :: string
  jwt_private_key_pem :: string

definition is_configured :: "r2_config \<Rightarrow> bool" where
  "is_configured c \<longleftrightarrow> access_key_id c \<noteq> '''' \<and> secret_access_key c \<noteq> '''' \<and> bucket c \<noteq> ''''"

definition full_endpoint :: "r2_config \<Rightarrow> string" where
  "full_endpoint c =
     (if endpoint c \<noteq> '''' then endpoint c
      else ''https://'' @ account_id c @ ''.r2.cloudflarestorage.com'')"

text \<open>
  \<open>Settings::load\<close>: what figment extracts from the file and the prefixed variables (or its
  error), then the standard variables on top.
\<close>

definition override :: "string option \<Rightarrow> (string \<Rightarrow> settings \<Rightarrow> settings) \<Rightarrow> settings \<Rightarrow> settings" where
  "override v set_it s = (case v of None \<Rightarrow> s | Some a \<Rightarrow> set_it a s)"

definition load :: "unicode \<Rightarrow> 'e + settings \<Rightarrow> (string \<Rightarrow> string option) \<Rightarrow> 'e + settings" where
  "load uc extracted env =
     (case extracted of
        Inl e \<Rightarrow> Inl e
      | Inr s \<Rightarrow> Inr (
          override (env ''R2_ENDPOINT'') (\<lambda>v s. s\<lparr>r2 := (r2 s)\<lparr>endpoint := v\<rparr>\<rparr>) (
          override (env ''R2_BUCKET'') (\<lambda>v s. s\<lparr>r2 := (r2 s)\<lparr>bucket := v\<rparr>\<rparr>) (
          override (env ''R2_SECRET_ACCESS_KEY'') (\<lambda>v s. s\<lparr>r2 := (r2 s)\<lparr>secret_access_key := v\<rparr>\<rparr>) (
          override (env ''R2_ACCESS_KEY_ID'') (\<lambda>v s. s\<lparr>r2 := (r2 s)\<lparr>access_key_id := v\<rparr>\<rparr>) (
          override (env ''R2_ACCOUNT_ID'') (\<lambda>v s. s\<lparr>r2 := (r2 s)\<lparr>account_id := v\<rparr>\<rparr>) (
          override (env ''JWT_PRIVATE_KEY_PEM'') (\<lambda>v s. s\<lparr>jwt_private_key_pem := v\<rparr>) (
          override (env ''PRELOGIN_PEPPER'') (\<lambda>v s. s\<lparr>prelogin_pepper := v\<rparr>) (
          override (env ''CORS_ALLOWED_ORIGINS'')
            (\<lambda>v s. s\<lparr>allowed_origins := map (trim uc) (split_on CHR '','' v)\<rparr>) (
          override (env ''DATABASE_URL'') (\<lambda>v s. s\<lparr>database := (database s)\<lparr>db_url := v\<rparr>\<rparr>) s))))))))))"

subsection \<open>Properties\<close>

lemma split_on_nonempty [simp]: "split_on d s \<noteq> []"
  by (induction s) (auto split: list.splits)

lemma split_on_join: "concat (map (\<lambda>p. p @ [d]) (split_on d s)) = s @ [d]"
  by (induction s) (auto split: list.splits)

lemma split_on_free: "p \<in> set (split_on d s) \<Longrightarrow> d \<notin> set p"
  by (induction s arbitrary: p) (auto split: if_splits list.splits)

lemma ascii_lower_ascii: "(of_char c :: nat) < 128 \<Longrightarrow> (of_char (ascii_lower c) :: nat) < 128"
  by (simp add: ascii_lower_def Let_def of_char_of)

lemma ascii_lower_idem: "(of_char c :: nat) < 128 \<Longrightarrow> ascii_lower (ascii_lower c) = ascii_lower c"
  by (auto simp: ascii_lower_def Let_def of_char_of)

lemma ascii_space_lower: "(of_char c :: nat) < 128 \<Longrightarrow> ascii_space (ascii_lower c) = ascii_space c"
  by (auto simp: ascii_lower_def ascii_space_def Let_def of_char_of)

end
