(* ===== verification/Auth.thy ===== *)
theory Auth
  imports Config Contract
begin

text \<open>
  Accounts and sessions: \<open>src/core/crypto.rs\<close> and \<open>src/features/auth/service.rs\<close>. bcrypt,
  SHA-256, BLAKE3 and the signature code of the token library are the fields of \<open>auth_ext\<close>;
  the claims, their checks and every statement on the tables are written out.
\<close>

subsection \<open>Code outside the repository\<close>

record access_claims =
  ac_sub :: uuid
  ac_sid :: uuid
  ac_did :: uuid
  ac_exp :: nat
  ac_iat :: nat
  ac_iss :: string
  ac_typ :: string

record refresh_claims =
  rc_sub :: uuid
  rc_sid :: uuid
  rc_did :: uuid
  rc_jti :: uuid
  rc_exp :: nat
  rc_iat :: nat
  rc_iss :: string
  rc_typ :: string

datatype jwt_error = ExpiredSignature | OtherJwtError

text \<open>
  bcrypt draws a random salt, which is an argument. Decoding a token takes the issuer and the
  leeway of the validation and the time of the check; it returns the claims of a token that is
  signed by this server, issued by that issuer and not expired.
\<close>

record auth_ext =
  bcrypt_hash :: "nat \<Rightarrow> string \<Rightarrow> nat \<Rightarrow> string option"
  bcrypt_verify :: "string \<Rightarrow> string \<Rightarrow> bool option"
  sha256_hex :: "string \<Rightarrow> string"
  blake3 :: "bytes \<Rightarrow> bytes"
  jwt_encode_access :: "access_claims \<Rightarrow> string option"
  jwt_encode_refresh :: "refresh_claims \<Rightarrow> string option"
  jwt_decode_access :: "string \<Rightarrow> nat \<Rightarrow> timestamp \<Rightarrow> string \<Rightarrow> jwt_error + access_claims"
  jwt_decode_refresh :: "string \<Rightarrow> nat \<Rightarrow> timestamp \<Rightarrow> string \<Rightarrow> jwt_error + refresh_claims"
  tables :: unicode

subsection \<open>Server-side cryptography\<close>

definition deterministic_fake_salt :: "auth_ext \<Rightarrow> string \<Rightarrow> bytes \<Rightarrow> bytes" where
  "deterministic_fake_salt y email pepper =
     take 16 (blake3 y (pepper @ as_bytes (to_lowercase (tables y) email)))"

definition argon2_params_json :: "argon2_config \<Rightarrow> json" where
  "argon2_params_json c =
     JObj [(''m_cost'', JInt (int (m_cost c))), (''t_cost'', JInt (int (t_cost c))), (''p_cost'', JInt (int (p_cost c))),
           (''output_len'', JInt (int (output_len c))), (''algorithm'', JStr ''argon2id'')]"

definition hash_auth_key :: "auth_ext \<Rightarrow> nat \<Rightarrow> string \<Rightarrow> nat \<Rightarrow> string result" where
  "hash_auth_key y salt auth_key_b64 cost =
     (case bcrypt_hash y salt auth_key_b64 cost of None \<Rightarrow> Inl (Internal ''key hashing failed'') | Some h \<Rightarrow> Inr h)"

definition verify_auth_key :: "auth_ext \<Rightarrow> string \<Rightarrow> string \<Rightarrow> bool" where
  "verify_auth_key y auth_key_b64 h = (case bcrypt_verify y auth_key_b64 h of None \<Rightarrow> False | Some ok \<Rightarrow> ok)"

definition hash_refresh_token :: "auth_ext \<Rightarrow> string \<Rightarrow> string" where
  "hash_refresh_token y token = sha256_hex y token"

text \<open>\<open>Utc::now().timestamp() as usize\<close>: seconds since the epoch.\<close>

definition unix_secs :: "timestamp \<Rightarrow> nat" where
  "unix_secs now = nat ((now div 1000000) mod 2 ^ 64)"

definition sign_access_token :: "auth_ext \<Rightarrow> timestamp \<Rightarrow> uuid \<Rightarrow> uuid \<Rightarrow> uuid \<Rightarrow> jwt_config \<Rightarrow> string result" where
  "sign_access_token y now user_id session_id device_id c =
     (case jwt_encode_access y
        \<lparr>ac_sub = user_id, ac_sid = session_id, ac_did = device_id,
         ac_exp = (unix_secs now + access_ttl_seconds c) mod 2 ^ 64, ac_iat = unix_secs now,
         ac_iss = issuer c, ac_typ = ''access''\<rparr> of
        None \<Rightarrow> Inl (Internal ''token signing failed'') | Some t \<Rightarrow> Inr t)"

definition sign_refresh_token ::
  "auth_ext \<Rightarrow> timestamp \<Rightarrow> uuid \<Rightarrow> uuid \<Rightarrow> uuid \<Rightarrow> uuid \<Rightarrow> jwt_config \<Rightarrow> string result" where
  "sign_refresh_token y now user_id session_id device_id jti c =
     (case jwt_encode_refresh y
        \<lparr>rc_sub = user_id, rc_sid = session_id, rc_did = device_id, rc_jti = jti,
         rc_exp = (unix_secs now + refresh_ttl_seconds c) mod 2 ^ 64, rc_iat = unix_secs now,
         rc_iss = issuer c, rc_typ = ''refresh''\<rparr> of
        None \<Rightarrow> Inl (Internal ''token signing failed'') | Some t \<Rightarrow> Inr t)"

definition verify_access_token :: "auth_ext \<Rightarrow> timestamp \<Rightarrow> string \<Rightarrow> access_claims result" where
  "verify_access_token y now token =
     (case jwt_decode_access y ''uoozer-vault'' 5 now token of
        Inl ExpiredSignature \<Rightarrow> Inl TokenExpired
      | Inl OtherJwtError \<Rightarrow> Inl Unauthorized
      | Inr claims \<Rightarrow> if ac_typ claims \<noteq> ''access'' then Inl Unauthorized else Inr claims)"

definition verify_refresh_token :: "auth_ext \<Rightarrow> timestamp \<Rightarrow> string \<Rightarrow> refresh_claims result" where
  "verify_refresh_token y now token =
     (case jwt_decode_refresh y ''uoozer-vault'' 5 now token of
        Inl ExpiredSignature \<Rightarrow> Inl TokenExpired
      | Inl OtherJwtError \<Rightarrow> Inl InvalidRefreshToken
      | Inr claims \<Rightarrow> if rc_typ claims \<noteq> ''refresh'' then Inl InvalidRefreshToken else Inr claims)"

definition verify_blake3 :: "auth_ext \<Rightarrow> bytes \<Rightarrow> bytes \<Rightarrow> bool" where
  "verify_blake3 y data expected_hash \<longleftrightarrow> blake3 y data = expected_hash"

subsection \<open>The account tables\<close>

definition insert_user :: "user_row \<Rightarrow> vault \<Rightarrow> sqlx_error + vault" where
  "insert_user r w =
     (if length (u_salt r) \<noteq> 16 \<or> length (u_identity_pubkey r) \<noteq> 32 then Inl check_violation
      else if has_row (\<lambda>x. u_id x = u_id r \<or> u_email x = u_email r \<or> u_email_normalized x = u_email_normalized r) (t_users w)
        then Inl unique_violation
      else Inr (w\<lparr>t_users := t_users w @ [r]\<rparr>))"

definition insert_device :: "device_row \<Rightarrow> vault \<Rightarrow> sqlx_error + vault" where
  "insert_device r w =
     (if length (d_pubkey r) \<noteq> 32 then Inl check_violation
      else if has_row (\<lambda>x. d_id x = d_id r) (t_devices w) then Inl unique_violation
      else if \<not> user_exists w (d_user r) then Inl fk_violation
      else Inr (w\<lparr>t_devices := t_devices w @ [r]\<rparr>))"

definition insert_session :: "session_row \<Rightarrow> vault \<Rightarrow> sqlx_error + vault" where
  "insert_session r w =
     (if has_row (\<lambda>x. s_id x = s_id r \<or> s_token_hash x = s_token_hash r \<or> s_jti x = s_jti r) (t_sessions w)
        then Inl unique_violation
      else if \<not> user_exists w (s_user r) \<or> \<not> device_exists w (s_device r) then Inl fk_violation
      else Inr (w\<lparr>t_sessions := t_sessions w @ [r]\<rparr>))"

definition new_device :: "timestamp \<Rightarrow> uuid \<Rightarrow> uuid \<Rightarrow> string \<Rightarrow> bytes \<Rightarrow> device_row" where
  "new_device now did u name pubkey =
     \<lparr>d_id = did, d_user = u, d_name = name, d_pubkey = pubkey, d_created_at = now, d_last_seen_at = now,
      d_revoked_at = None\<rparr>"

text \<open>A new session; it expires \<open>chrono::Duration::seconds(ttl as i64)\<close> after its creation.\<close>

definition new_session ::
  "timestamp \<Rightarrow> jwt_config \<Rightarrow> uuid \<Rightarrow> uuid \<Rightarrow> uuid \<Rightarrow> string \<Rightarrow> uuid \<Rightarrow> string option \<Rightarrow> string option \<Rightarrow> session_row" where
  "new_session now c sid u did hash jti user_agent ip =
     \<lparr>s_id = sid, s_user = u, s_device = did, s_token_hash = hash, s_jti = jti, s_issued_at = now,
      s_expires_at = now + wrap_i64 (int (refresh_ttl_seconds c)) * 1000000, s_revoked_at = None,
      s_revoked_reason = None, s_rotated_to = None, s_user_agent = user_agent, s_ip = ip\<rparr>"

text \<open>\<open>UPDATE sessions SET revoked_at = now(), revoked_reason = ... WHERE ...\<close>.\<close>

definition revoke_sessions :: "timestamp \<Rightarrow> string \<Rightarrow> (session_row \<Rightarrow> bool) \<Rightarrow> vault \<Rightarrow> vault" where
  "revoke_sessions now reason P w =
     w\<lparr>t_sessions := upd P (\<lambda>s. s\<lparr>s_revoked_at := Some now, s_revoked_reason := Some reason\<rparr>) (t_sessions w)\<rparr>"

subsection \<open>Requests and responses\<close>

record prelogin_response =
  pr_salt :: string
  pr_argon2_params :: json

record signup_init_response =
  si_token :: string
  si_salt :: string
  si_argon2_params :: json

record signup_complete_request =
  sc_token :: string
  sc_full_name :: string
  sc_auth_key :: string
  sc_recovery_auth_key :: string
  sc_wrapped_dek :: string
  sc_wrapped_dek_nonce :: string
  sc_recovery_wrapped_dek :: string
  sc_recovery_wrapped_dek_nonce :: string
  sc_identity_pubkey :: string
  sc_device_pubkey :: string
  sc_device_name :: string

record auth_response =
  ar_access_token :: string
  ar_refresh_token :: string
  ar_token_type :: string
  ar_expires_in :: nat
  ar_full_name :: string

record login_request =
  lr_email :: string
  lr_auth_key :: string
  lr_device_pubkey :: string
  lr_device_name :: string
  lr_device_id :: "uuid option"

record password_change_request =
  pc_auth_key :: string
  pc_wrapped_dek :: string
  pc_wrapped_dek_nonce :: string

record key_bundle =
  kb_wrapped_dek :: string
  kb_wrapped_dek_nonce :: string
  kb_recovery_wrapped_dek :: string
  kb_recovery_wrapped_dek_nonce :: string

record update_profile_request =
  up_full_name :: "string option"
  up_avatar_url :: "string option"

record user_profile =
  prof_id :: uuid
  prof_email :: string
  prof_full_name :: string
  prof_avatar_url :: "string option"

definition mk_auth_response :: "jwt_config \<Rightarrow> string \<Rightarrow> string \<Rightarrow> string \<Rightarrow> auth_response" where
  "mk_auth_response c access refresh full_name =
     \<lparr>ar_access_token = access, ar_refresh_token = refresh, ar_token_type = ''Bearer'',
      ar_expires_in = access_ttl_seconds c, ar_full_name = full_name\<rparr>"

definition normalized_email :: "auth_ext \<Rightarrow> string \<Rightarrow> string" where
  "normalized_email y email = trim (tables y) (to_lowercase (tables y) email)"

subsection \<open>Signing up\<close>

definition prelogin :: "ext \<Rightarrow> auth_ext \<Rightarrow> settings \<Rightarrow> string \<Rightarrow> vault \<Rightarrow> prelogin_response" where
  "prelogin x y cfg email w =
     (let normalized = normalized_email y email
      in case find (\<lambda>u. u_email_normalized u = normalized \<and> u_disabled_at u = None) (t_users w) of
           Some u \<Rightarrow> \<lparr>pr_salt = encode_b64 x (u_salt u), pr_argon2_params = u_argon2_params u\<rparr>
         | None \<Rightarrow>
             \<lparr>pr_salt = encode_b64 x (deterministic_fake_salt y normalized (as_bytes (prelogin_pepper cfg))),
              pr_argon2_params = argon2_params_json (argon2 cfg)\<rparr>)"

text \<open>\<open>DashMap::insert\<close> replaces the entry of the key. The salt and the token are drawn at random.\<close>

definition signup_init ::
  "ext \<Rightarrow> auth_ext \<Rightarrow> settings \<Rightarrow> timestamp \<Rightarrow> bytes \<Rightarrow> uuid \<Rightarrow> string \<Rightarrow> vault \<Rightarrow> signup_init_response result \<times> vault" where
  "signup_init x y cfg now salt token_id email w =
     (let normalized = normalized_email y email
      in attempt (check_that (\<not> has_row (\<lambda>u. u_email_normalized u = normalized) (t_users w))
                    (Conflict ''email already registered'')) w (\<lambda>_.
         let params = argon2_params_json (argon2 cfg);
             token = uuid_str x token_id;
             entry = \<lparr>ps_email = email, ps_email_normalized = normalized, ps_salt = salt, ps_argon2_params = params,
                      ps_expires_at = now + 600000000\<rparr>
         in (Inr \<lparr>si_token = token, si_salt = encode_b64 x salt, si_argon2_params = params\<rparr>,
             w\<lparr>pending_signups := del (\<lambda>e. fst e = token) (pending_signups w) @ [(token, entry)]\<rparr>)))"

definition drop_signup :: "string \<Rightarrow> vault \<Rightarrow> vault" where
  "drop_signup token w = w\<lparr>pending_signups := del (\<lambda>e. fst e = token) (pending_signups w)\<rparr>"

text \<open>The decoded key material of a sign-up: two public keys and two wrapped keys with nonces.\<close>

definition signup_keys :: "ext \<Rightarrow> signup_complete_request \<Rightarrow> (bytes \<times> bytes \<times> bytes \<times> bytes \<times> bytes \<times> bytes) result" where
  "signup_keys x req =
     and_then (decode_b64 x (sc_identity_pubkey req)) (\<lambda>identity_pubkey.
     and_then (decode_b64 x (sc_device_pubkey req)) (\<lambda>device_pubkey.
     and_then (decode_b64 x (sc_wrapped_dek req)) (\<lambda>wrapped_dek.
     and_then (decode_b64 x (sc_wrapped_dek_nonce req)) (\<lambda>wrapped_dek_nonce.
     and_then (decode_b64 x (sc_recovery_wrapped_dek req)) (\<lambda>recovery_wrapped_dek.
     and_then (decode_b64 x (sc_recovery_wrapped_dek_nonce req)) (\<lambda>recovery_wrapped_dek_nonce.
     and_then (check_that (length identity_pubkey = 32)
                (BadRequest ''identity public key must be 32 bytes (Ed25519)'')) (\<lambda>_.
     and_then (check_that (length device_pubkey = 32)
                (BadRequest ''device public key must be 32 bytes (Ed25519)'')) (\<lambda>_.
     and_then (check_that (length wrapped_dek_nonce = 24 \<and> length recovery_wrapped_dek_nonce = 24)
                (BadRequest ''nonce must be 24 bytes (XChaCha20-Poly1305)'')) (\<lambda>_.
     Inr (identity_pubkey, device_pubkey, wrapped_dek, wrapped_dek_nonce, recovery_wrapped_dek,
          recovery_wrapped_dek_nonce))))))))))"

definition new_user ::
  "timestamp \<Rightarrow> uuid \<Rightarrow> pending_signup \<Rightarrow> string \<Rightarrow> string \<Rightarrow> string \<Rightarrow> bytes \<times> bytes \<times> bytes \<times> bytes \<times> bytes \<times> bytes \<Rightarrow> user_row" where
  "new_user now uid pending full_name auth_hash recovery_hash keys =
     (case keys of (identity_pubkey, _, wrapped_dek, wrapped_dek_nonce, recovery_wrapped_dek, recovery_wrapped_dek_nonce) \<Rightarrow>
        \<lparr>u_id = uid, u_email = ps_email pending, u_email_normalized = ps_email_normalized pending,
         u_full_name = full_name, u_salt = ps_salt pending, u_argon2_params = ps_argon2_params pending,
         u_auth_key_hash = auth_hash, u_recovery_auth_key_hash = recovery_hash,
         u_wrapped_dek = wrapped_dek, u_wrapped_dek_nonce = wrapped_dek_nonce,
         u_recovery_wrapped_dek = recovery_wrapped_dek, u_recovery_wrapped_dek_nonce = recovery_wrapped_dek_nonce,
         u_identity_pubkey = identity_pubkey, u_avatar_url = None, u_created_at = now, u_updated_at = now,
         u_disabled_at = None\<rparr>)"

text \<open>
  The token is used up before the request is checked, so every later error leaves it used up;
  the transaction is rolled back. The draws are the two bcrypt salts and the ids of the user,
  the device, the session and the refresh token.
\<close>

definition signup_complete ::
  "ext \<Rightarrow> auth_ext \<Rightarrow> settings \<Rightarrow> timestamp \<Rightarrow> nat \<times> nat \<Rightarrow> uuid \<Rightarrow> uuid \<Rightarrow> uuid \<Rightarrow> uuid \<Rightarrow> signup_complete_request \<Rightarrow>
    vault \<Rightarrow> auth_response result \<times> vault" where
  "signup_complete x y cfg now salts uid did sid jti req w =
     (case map_of (pending_signups w) (sc_token req) of
        None \<Rightarrow> (Inl (BadRequest ''invalid or expired signup token''), w)
      | Some pending \<Rightarrow>
     let w0 = drop_signup (sc_token req) w
     in if ps_expires_at pending < now then (Inl (BadRequest ''signup token expired''), w0)
        else
     attempt (signup_keys x req) w0 (\<lambda>keys.
     attempt (hash_auth_key y (fst salts) (sc_auth_key req) (bcrypt_cost cfg)) w0 (\<lambda>auth_hash.
     attempt (hash_auth_key y (snd salts) (sc_recovery_auth_key req) (bcrypt_cost cfg)) w0 (\<lambda>recovery_hash.
     attempt_sql (insert_user (new_user now uid pending (sc_full_name req) auth_hash recovery_hash keys) w0) w0 (\<lambda>w1.
     attempt_sql (insert_device (new_device now did uid (sc_device_name req) (fst (snd keys))) w1) w0 (\<lambda>w2.
     attempt (sign_refresh_token y now uid sid did jti (jwt cfg)) w0 (\<lambda>token.
     attempt_sql (insert_session (new_session now (jwt cfg) sid uid did (hash_refresh_token y token) jti None None) w2) w0 (\<lambda>w3.
     attempt_sql (audit_log now (Some uid) (Some did) ''signup_complete'' (JObj []) w3) w0 (\<lambda>w4.
     attempt (sign_access_token y now uid sid did (jwt cfg)) w4 (\<lambda>access.
     (Inr (mk_auth_response (jwt cfg) access token (sc_full_name req)), w4)))))))))))"

subsection \<open>Logging in\<close>

text \<open>The device row of the login: a known one of the user with the same key, or a new one.\<close>

definition login_device ::
  "timestamp \<Rightarrow> uuid \<Rightarrow> uuid \<Rightarrow> login_request \<Rightarrow> bytes \<Rightarrow> vault \<Rightarrow> sqlx_error + (uuid \<times> vault)" where
  "login_device now new_id u req pubkey w =
     (let fresh = (case insert_device (new_device now new_id u (lr_device_name req) pubkey) w of
                     Inl d \<Rightarrow> Inl d | Inr w' \<Rightarrow> Inr (new_id, w'))
      in case lr_device_id req of
           None \<Rightarrow> fresh
         | Some existing_id \<Rightarrow>
             (case find (\<lambda>d. d_id d = existing_id \<and> d_user d = u \<and> d_revoked_at d = None) (t_devices w) of
                None \<Rightarrow> fresh
              | Some d \<Rightarrow>
                  if d_pubkey d \<noteq> pubkey then fresh
                  else Inr (d_id d, w\<lparr>t_devices := upd (\<lambda>r. d_id r = d_id d) (\<lambda>r. r\<lparr>d_last_seen_at := now\<rparr>) (t_devices w)\<rparr>)))"

definition login ::
  "ext \<Rightarrow> auth_ext \<Rightarrow> settings \<Rightarrow> timestamp \<Rightarrow> uuid \<Rightarrow> uuid \<Rightarrow> uuid \<Rightarrow> login_request \<Rightarrow> string option \<Rightarrow> string option \<Rightarrow>
    vault \<Rightarrow> auth_response result \<times> vault" where
  "login x y cfg now new_did sid jti req ip user_agent w =
     (let normalized = normalized_email y (lr_email req)
      in if isl (decode_b64 x (lr_auth_key req)) then (Inl (BadRequest ''invalid base64 encoding''), w)
         else if isl (decode_b64 x (lr_device_pubkey req)) then (Inl (BadRequest ''invalid base64 encoding''), w)
         else
     (case find (\<lambda>u. u_email_normalized u = normalized) (t_users w) of
        None \<Rightarrow> (Inl InvalidCredentials, w)
      | Some user \<Rightarrow>
     if u_disabled_at user \<noteq> None then (Inl Forbidden, w)
     else if \<not> verify_auth_key y (lr_auth_key req) (u_auth_key_hash user) \<and>
             \<not> verify_auth_key y (lr_auth_key req) (u_recovery_auth_key_hash user)
       then (Inl InvalidCredentials,
             audit_log_ok now (Some (u_id user)) None ''login_failed'' (JObj [(''reason'', JStr ''invalid_credentials'')]) w)
     else
     attempt (decode_b64 x (lr_device_pubkey req)) w (\<lambda>pubkey.
     attempt (check_that (length pubkey = 32) (BadRequest ''device public key must be 32 bytes'')) w (\<lambda>_.
     attempt_sql (login_device now new_did (u_id user) req pubkey w) w (\<lambda>(did, w1).
     attempt (sign_refresh_token y now (u_id user) sid did jti (jwt cfg)) w (\<lambda>token.
     attempt_sql (insert_session (new_session now (jwt cfg) sid (u_id user) did (hash_refresh_token y token) jti user_agent ip) w1) w (\<lambda>w2.
     attempt_sql (audit_log now (Some (u_id user)) (Some did) ''login_success'' (JObj []) w2) w (\<lambda>w3.
     attempt (sign_access_token y now (u_id user) sid did (jwt cfg)) w3 (\<lambda>access.
     (Inr (mk_auth_response (jwt cfg) access token (u_full_name user)), w3))))))))))"

subsection \<open>Refreshing and logging out\<close>

text \<open>
  A reused token: both sessions are revoked and the event is logged in one transaction, which
  is committed although the answer is an error. A failed insert of the audit row aborts the
  transaction in PostgreSQL, so that the commit rolls it back.
\<close>

definition revoke_reused :: "ext \<Rightarrow> timestamp \<Rightarrow> refresh_claims \<Rightarrow> uuid \<Rightarrow> vault \<Rightarrow> vault" where
  "revoke_reused x now claims next w =
     (let w1 = revoke_sessions now ''reuse_detected'' (\<lambda>s. s_id s = rc_sid claims \<or> s_id s = next) w
      in case audit_log now (Some (rc_sub claims)) (Some (rc_did claims)) ''refresh_token_reuse''
                (JObj [(''session_id'', JStr (uuid_str x (rc_sid claims)))]) w1 of
           Inl _ \<Rightarrow> w
         | Inr w2 \<Rightarrow> w2)"

definition refresh ::
  "ext \<Rightarrow> auth_ext \<Rightarrow> settings \<Rightarrow> timestamp \<Rightarrow> uuid \<Rightarrow> uuid \<Rightarrow> string \<Rightarrow> vault \<Rightarrow> auth_response result \<times> vault" where
  "refresh x y cfg now new_sid new_jti refresh_token w =
     attempt (verify_refresh_token y now refresh_token) w (\<lambda>claims.
     case find (\<lambda>s. s_jti s = rc_jti claims) (t_sessions w) of
       None \<Rightarrow> (Inl InvalidRefreshToken, w)
     | Some s \<Rightarrow>
     (case find (\<lambda>u. u_id u = s_user s) (t_users w) of
       None \<Rightarrow> (Inl InvalidRefreshToken, w)
     | Some user \<Rightarrow>
     if s_revoked_reason s \<noteq> None then (Inl InvalidRefreshToken, w)
     else
     (case s_rotated_to s of
       Some next \<Rightarrow> (Inl RefreshTokenReuse, revoke_reused x now claims next w)
     | None \<Rightarrow>
     if s_token_hash s \<noteq> hash_refresh_token y refresh_token then (Inl InvalidRefreshToken, w)
     else
     attempt (sign_refresh_token y now (s_user s) new_sid (s_device s) new_jti (jwt cfg)) w (\<lambda>token.
     attempt_sql (insert_session (new_session now (jwt cfg) new_sid (s_user s) (s_device s) (hash_refresh_token y token) new_jti None None) w) w (\<lambda>w1.
     let w2 = w1\<lparr>t_sessions := upd (\<lambda>r. s_id r = s_id s) (\<lambda>r. r\<lparr>s_rotated_to := Some new_sid\<rparr>) (t_sessions w1)\<rparr>
     in attempt (sign_access_token y now (s_user s) new_sid (s_device s) (jwt cfg)) w2 (\<lambda>access.
        (Inr (mk_auth_response (jwt cfg) access token (u_full_name user)), w2)))))))"

definition revoke_device_rows :: "timestamp \<Rightarrow> uuid \<Rightarrow> uuid \<Rightarrow> vault \<Rightarrow> vault" where
  "revoke_device_rows now did u w =
     w\<lparr>t_devices := upd (\<lambda>d. d_id d = did \<and> d_user d = u) (\<lambda>d. d\<lparr>d_revoked_at := Some now\<rparr>) (t_devices w)\<rparr>"

definition logout ::
  "auth_ext \<Rightarrow> timestamp \<Rightarrow> uuid \<Rightarrow> uuid \<Rightarrow> uuid \<Rightarrow> bool \<Rightarrow> string option \<Rightarrow> vault \<Rightarrow> unit result \<times> vault" where
  "logout y now u sid did revoke_device refresh_token w =
     (if revoke_device then
        attempt_sql (audit_log now (Some u) (Some did) ''device_revoked'' (JObj [])
                       (revoke_sessions now ''device_revoked'' (\<lambda>s. s_device s = did) (revoke_device_rows now did u w))) w
          (\<lambda>w1. (Inr (), w1))
      else
        let w1 = revoke_sessions now ''logged_out'' (\<lambda>s. s_id s = sid) w
        in (Inr (), case refresh_token of
                      None \<Rightarrow> w1
                    | Some rt \<Rightarrow>
                        (case verify_refresh_token y now rt of
                           Inl _ \<Rightarrow> w1
                         | Inr claims \<Rightarrow> revoke_sessions now ''logged_out'' (\<lambda>s. s_jti s = rc_jti claims) w1)))"

subsection \<open>Password, keys and profile\<close>

definition change_password ::
  "ext \<Rightarrow> auth_ext \<Rightarrow> settings \<Rightarrow> timestamp \<Rightarrow> nat \<Rightarrow> uuid \<Rightarrow> uuid \<Rightarrow> password_change_request \<Rightarrow> vault \<Rightarrow> unit result \<times> vault" where
  "change_password x y cfg now salt u did req w =
     attempt (decode_b64 x (pc_wrapped_dek_nonce req)) w (\<lambda>nonce.
     attempt (check_that (length nonce = 24) (BadRequest ''nonce must be 24 bytes'')) w (\<lambda>_.
     attempt (decode_b64 x (pc_wrapped_dek req)) w (\<lambda>dek.
     attempt (hash_auth_key y salt (pc_auth_key req) (bcrypt_cost cfg)) w (\<lambda>h.
     attempt_sql (audit_log now (Some u) (Some did) ''password_changed'' (JObj [])
        (w\<lparr>t_users := upd (\<lambda>r. u_id r = u)
             (\<lambda>r. r\<lparr>u_auth_key_hash := h, u_wrapped_dek := dek, u_wrapped_dek_nonce := nonce, u_updated_at := now\<rparr>) (t_users w)\<rparr>)) w
        (\<lambda>w1. (Inr (), w1))))))"

definition get_keys :: "ext \<Rightarrow> uuid \<Rightarrow> vault \<Rightarrow> key_bundle result" where
  "get_keys x u w =
     (case find (\<lambda>r. u_id r = u) (t_users w) of
        None \<Rightarrow> Inl NotFound
      | Some r \<Rightarrow> Inr \<lparr>kb_wrapped_dek = encode_b64 x (u_wrapped_dek r),
                       kb_wrapped_dek_nonce = encode_b64 x (u_wrapped_dek_nonce r),
                       kb_recovery_wrapped_dek = encode_b64 x (u_recovery_wrapped_dek r),
                       kb_recovery_wrapped_dek_nonce = encode_b64 x (u_recovery_wrapped_dek_nonce r)\<rparr>)"

definition en_dash :: string where
  "en_dash = [CHR 0xE2, CHR 0x80, CHR 0x93]"

definition update_profile ::
  "auth_ext \<Rightarrow> timestamp \<Rightarrow> uuid \<Rightarrow> update_profile_request \<Rightarrow> vault \<Rightarrow> unit result \<times> vault" where
  "update_profile y now u req w =
     attempt (for_option (up_full_name req) (\<lambda>name.
        check_that (\<not> (trim (tables y) name = '''' \<or> length name > 100))
          (Validation (''full_name must be 1'' @ en_dash @ ''100 chars'')))) w (\<lambda>_.
     attempt (for_option (up_avatar_url req) (\<lambda>url.
        check_that (\<not> (length url > 2048 \<or> \<not> prefix ''https://'' url))
          (Validation ''avatar_url must be a valid HTTPS URL''))) w (\<lambda>_.
     let P = (\<lambda>r. u_id r = u \<and> u_disabled_at r = None)
     in attempt (check_that (row_count P (t_users w) \<noteq> 0) NotFound) w (\<lambda>_.
        (Inr (), w\<lparr>t_users := upd P (\<lambda>r. r\<lparr>u_full_name := (case up_full_name req of None \<Rightarrow> u_full_name r | Some n \<Rightarrow> n),
                                         u_avatar_url := (case up_avatar_url req of None \<Rightarrow> u_avatar_url r | Some a \<Rightarrow> Some a),
                                         u_updated_at := now\<rparr>) (t_users w)\<rparr>))))"

definition get_user_profile :: "uuid \<Rightarrow> vault \<Rightarrow> user_profile result" where
  "get_user_profile u w =
     (case find (\<lambda>r. u_id r = u) (t_users w) of
        None \<Rightarrow> Inl NotFound
      | Some r \<Rightarrow> Inr \<lparr>prof_id = u_id r, prof_email = u_email r, prof_full_name = u_full_name r,
                       prof_avatar_url = u_avatar_url r\<rparr>)"

definition update_avatar_url :: "timestamp \<Rightarrow> uuid \<Rightarrow> string \<Rightarrow> vault \<Rightarrow> vault" where
  "update_avatar_url now u url w =
     w\<lparr>t_users := upd (\<lambda>r. u_id r = u) (\<lambda>r. r\<lparr>u_avatar_url := Some url, u_updated_at := now\<rparr>) (t_users w)\<rparr>"

definition avatar_key :: "ext \<Rightarrow> uuid \<Rightarrow> string" where
  "avatar_key x u = ''avatars/'' @ uuid_str x u"

definition delete_avatar :: "ext \<Rightarrow> timestamp \<Rightarrow> uuid \<Rightarrow> vault \<Rightarrow> unit result \<times> vault" where
  "delete_avatar x now u w =
     attempt (r2_delete_object x (avatar_key x u)) w (\<lambda>_.
     (Inr (), w\<lparr>t_users := upd (\<lambda>r. u_id r = u) (\<lambda>r. r\<lparr>u_avatar_url := None, u_updated_at := now\<rparr>) (t_users w)\<rparr>))"

subsection \<open>Avatar handlers\<close>

text \<open>A field of a multipart body: its name, its content type and its bytes.\<close>

record form_field =
  ff_name :: "string option"
  ff_content_type :: "string option"
  ff_data :: bytes

text \<open>\<open>handlers::upload_avatar\<close>: the first field named \<open>file\<close> decides.\<close>

definition upload_avatar ::
  "ext \<Rightarrow> timestamp \<Rightarrow> uuid \<Rightarrow> form_field list \<Rightarrow> vault \<Rightarrow> string result \<times> vault" where
  "upload_avatar x now u body w =
     (case find (\<lambda>f. ff_name f = Some ''file'') body of
        None \<Rightarrow> (Inl (BadRequest ''no 'file' field uploaded''), w)
      | Some f \<Rightarrow>
     (let content_type = (case ff_content_type f of None \<Rightarrow> '''' | Some c \<Rightarrow> c)
      in attempt (check_that (content_type \<in> {''image/png'', ''image/jpeg'', ''image/webp'', ''image/gif''})
                    (Validation ''avatar must be a PNG/JPEG/WebP/GIF'')) w (\<lambda>_.
         attempt (check_that (length (ff_data f) \<le> 2 * 1024 * 1024) (Validation ''avatar must be under 2 MB'')) w (\<lambda>_.
         attempt (check_that (r2_configured x) (ServiceUnavailable ''Storage not configured'')) w (\<lambda>_.
         attempt (r2_upload_object x (avatar_key x u) (ff_data f)) w (\<lambda>_.
         attempt (r2_presign_get x (avatar_key x u)) w (\<lambda>url.
         (Inr url, update_avatar_url now u url w))))))))"

definition delete_avatar_handler :: "ext \<Rightarrow> timestamp \<Rightarrow> uuid \<Rightarrow> vault \<Rightarrow> unit result \<times> vault" where
  "delete_avatar_handler x now u w =
     (if r2_configured x then delete_avatar x now u w
      else (Inl (ServiceUnavailable ''Storage not configured''), w))"

end
