(* ===== verification/Devices.thy ===== *)
theory Devices
  imports Auth
begin

text \<open>
  The device service of \<open>src/features/devices/service.rs\<close>: the devices and sessions of a user,
  revoking and renaming a device.
\<close>

subsection \<open>Operations\<close>

record device_response =
  dr_id :: uuid
  dr_name :: string
  dr_pubkey :: string
  dr_created_at :: timestamp
  dr_last_seen_at :: timestamp
  dr_is_revoked :: bool
  dr_is_current :: bool

record session_response =
  sr_id :: uuid
  sr_device_id :: uuid
  sr_device_name :: string
  sr_issued_at :: timestamp
  sr_expires_at :: timestamp
  sr_ip :: "string option"
  sr_user_agent :: "string option"
  sr_is_current :: bool
  sr_is_revoked :: bool

definition list_devices :: "ext \<Rightarrow> uuid \<Rightarrow> uuid \<Rightarrow> vault \<Rightarrow> device_response list" where
  "list_devices x u current w =
     map (\<lambda>d. \<lparr>dr_id = d_id d, dr_name = d_name d, dr_pubkey = encode_b64 x (d_pubkey d),
               dr_created_at = d_created_at d, dr_last_seen_at = d_last_seen_at d,
               dr_is_revoked = (d_revoked_at d \<noteq> None), dr_is_current = (d_id d = current)\<rparr>)
       (sort_desc d_created_at (filter (\<lambda>d. d_user d = u) (t_devices w)))"

text \<open>The join with the devices drops a session without a device row.\<close>

definition list_sessions :: "uuid \<Rightarrow> uuid \<Rightarrow> vault \<Rightarrow> session_response list" where
  "list_sessions u current w =
     concat (map (\<lambda>s. map (\<lambda>d.
         \<lparr>sr_id = s_id s, sr_device_id = s_device s, sr_device_name = d_name d, sr_issued_at = s_issued_at s,
          sr_expires_at = s_expires_at s, sr_ip = s_ip s, sr_user_agent = s_user_agent s,
          sr_is_current = (s_id s = current), sr_is_revoked = (s_revoked_at s \<noteq> None)\<rparr>)
         (filter (\<lambda>d. d_id d = s_device s) (t_devices w)))
       (sort_desc s_issued_at (filter (\<lambda>s. s_user s = u) (t_sessions w))))"

definition revoke_device :: "timestamp \<Rightarrow> uuid \<Rightarrow> uuid \<Rightarrow> uuid \<Rightarrow> vault \<Rightarrow> unit result \<times> vault" where
  "revoke_device now u did current w =
     attempt (check_that (did \<noteq> current)
        (BadRequest (''cannot revoke the current device '' @ em_dash @ '' use logout instead''))) w (\<lambda>_.
     let P = (\<lambda>d. d_id d = did \<and> d_user d = u \<and> d_revoked_at d = None)
     in attempt (check_that (row_count P (t_devices w) \<noteq> 0) NotFound) w (\<lambda>_.
        attempt_sql (audit_log now (Some u) (Some did) ''device_revoked'' (JObj [(''revoked_from_device'', JUuid current)])
          (revoke_sessions now ''device_revoked'' (\<lambda>s. s_device s = did \<and> s_user s = u \<and> s_revoked_at s = None)
             (w\<lparr>t_devices := upd P (\<lambda>d. d\<lparr>d_revoked_at := Some now\<rparr>) (t_devices w)\<rparr>))) w
          (\<lambda>w1. (Inr (), w1))))"

definition update_device_name :: "timestamp \<Rightarrow> uuid \<Rightarrow> uuid \<Rightarrow> string \<Rightarrow> vault \<Rightarrow> unit result \<times> vault" where
  "update_device_name now u did new_name w =
     (let P = (\<lambda>d. d_id d = did \<and> d_user d = u \<and> d_revoked_at d = None)
      in if row_count P (t_devices w) = 0 then
           (Inl (case find (\<lambda>d. d_id d = did \<and> d_user d = u) (t_devices w) of
                   None \<Rightarrow> NotFound
                 | Some d \<Rightarrow> (case d_revoked_at d of
                               Some _ \<Rightarrow> DeviceRevoked
                             | None \<Rightarrow> Internal ''update affected 0 rows but device exists'')), w)
         else
           attempt_sql (audit_log now (Some u) (Some did) ''device_renamed'' (JObj [(''new_name'', JStr new_name)])
             (w\<lparr>t_devices := upd P (\<lambda>d. d\<lparr>d_name := new_name, d_last_seen_at := now\<rparr>) (t_devices w)\<rparr>)) w
             (\<lambda>w1. (Inr (), w1)))"

end
