(* ===== verification/Middleware.thy ===== *)
theory Middleware
  imports Devices
begin

text \<open>
  The authentication of requests in \<open>src/core/middleware.rs\<close>, and the weaker check by which the
  public share routes of \<open>src/features/files/handlers.rs\<close> recognise a signed-in caller.
\<close>

subsection \<open>Definitions\<close>

record authenticated_user =
  au_user :: uuid
  au_device :: uuid
  au_session :: uuid

text \<open>\<open>str::strip_prefix\<close>.\<close>

definition strip_prefix :: "string \<Rightarrow> string \<Rightarrow> string option" where
  "strip_prefix p s = (if prefix p s then Some (drop (length p) s) else None)"

definition bearer_token :: "string option \<Rightarrow> string option" where
  "bearer_token header = Option.bind header (strip_prefix ''Bearer '')"

text \<open>
  \<open>middleware::require_auth\<close>: the rate limiter, a third-party crate, is its answer for the user.
\<close>

definition require_auth ::
  "auth_ext \<Rightarrow> (uuid \<Rightarrow> bool) \<Rightarrow> timestamp \<Rightarrow> string option \<Rightarrow> vault \<Rightarrow> authenticated_user result" where
  "require_auth y within_rate now header w =
     (case bearer_token header of
        None \<Rightarrow> Inl Unauthorized
      | Some token \<Rightarrow>
     and_then (verify_access_token y now token) (\<lambda>claims.
     and_then (check_that (within_rate (ac_sub claims)) RateLimited) (\<lambda>_.
     and_then (check_that (has_row (\<lambda>d. d_id d = ac_did claims \<and> d_user d = ac_sub claims \<and> d_revoked_at d = None \<and>
                  has_row (\<lambda>u. u_id u = d_user d \<and> u_disabled_at u = None) (t_users w)) (t_devices w)) Unauthorized) (\<lambda>_.
     and_then (check_that (has_row (\<lambda>s. s_id s = ac_sid claims \<and> s_user s = ac_sub claims \<and> s_revoked_at s = None)
                  (t_sessions w)) Unauthorized) (\<lambda>_.
     Inr \<lparr>au_user = ac_sub claims, au_device = ac_did claims, au_session = ac_sid claims\<rparr>)))))"

text \<open>How the share handlers decide whether the caller is authenticated: by the token alone.\<close>

definition share_caller_authenticated :: "auth_ext \<Rightarrow> timestamp \<Rightarrow> string option \<Rightarrow> bool" where
  "share_caller_authenticated y now header =
     (case bearer_token header of None \<Rightarrow> False | Some token \<Rightarrow> \<not> isl (verify_access_token y now token))"

end
