(* ===== verification/Account_Contract.thy ===== *)
theory Account_Contract
  imports Middleware
begin

text \<open>
  The invariant of the account tables and the contract of the account operations: each keeps the
  invariant and leaves the folders, files, versions, chunks and the deletion queue alone.
\<close>

subsection \<open>The invariant\<close>

text \<open>
  The keys of the account tables; a device belongs to a user; a session belongs to a device of its
  user; a rotated session points to a session of the same user and device; a revoked session has a
  reason, which is what \<open>refresh\<close> looks at.
\<close>

definition auth_inv :: "vault \<Rightarrow> bool" where
  "auth_inv w \<longleftrightarrow>
     ukey u_id (t_users w) \<and> ukey u_email_normalized (t_users w) \<and> ukey d_id (t_devices w) \<and>
     ukey s_id (t_sessions w) \<and> ukey s_jti (t_sessions w) \<and> ukey s_token_hash (t_sessions w) \<and>
     fkey (\<lambda>d. Some (d_user d)) u_id (t_devices w) (t_users w) \<and>
     fkey (\<lambda>s. Some (s_device s, s_user s)) (\<lambda>d. (d_id d, d_user d)) (t_sessions w) (t_devices w) \<and>
     fkey (\<lambda>s. map_option (\<lambda>n. (n, s_device s, s_user s)) (s_rotated_to s)) (\<lambda>s. (s_id s, s_device s, s_user s))
       (t_sessions w) (t_sessions w) \<and>
     (\<forall>s\<in>set (t_sessions w). s_revoked_at s \<noteq> None \<longrightarrow> s_revoked_reason s \<noteq> None)"

lemma auth_invD:
  assumes "auth_inv w"
  shows "ukey u_id (t_users w)" "ukey u_email_normalized (t_users w)" "ukey d_id (t_devices w)"
    "ukey s_id (t_sessions w)" "ukey s_jti (t_sessions w)" "ukey s_token_hash (t_sessions w)"
    "fkey (\<lambda>d. Some (d_user d)) u_id (t_devices w) (t_users w)"
    "fkey (\<lambda>s. Some (s_device s, s_user s)) (\<lambda>d. (d_id d, d_user d)) (t_sessions w) (t_devices w)"
    "fkey (\<lambda>s. map_option (\<lambda>n. (n, s_device s, s_user s)) (s_rotated_to s)) (\<lambda>s. (s_id s, s_device s, s_user s))
       (t_sessions w) (t_sessions w)"
    "\<And>s. s \<in> set (t_sessions w) \<Longrightarrow> s_revoked_at s \<noteq> None \<Longrightarrow> s_revoked_reason s \<noteq> None"
  using assms by (auto simp: auth_inv_def)

lemma session_device:
  assumes "auth_inv w" and "s \<in> set (t_sessions w)"
  obtains d where "d \<in> set (t_devices w)" "d_id d = s_device s" "d_user d = s_user s"
  using fkeyD [OF auth_invD(8) [OF assms(1)] assms(2)] by auto

named_theorems account_intro \<open>statements that keep the account invariant\<close>

lemma auth_inv_cong:
  "t_users w' = t_users w \<Longrightarrow> t_devices w' = t_devices w \<Longrightarrow> t_sessions w' = t_sessions w \<Longrightarrow> auth_inv w' = auth_inv w"
  by (simp add: auth_inv_def)

lemma auth_inv_audit_ok [simp]: "auth_inv (audit_log_ok now u d ev meta w) = auth_inv w"
  by (rule auth_inv_cong) simp_all

lemma auth_inv_signups [simp]: "auth_inv (w\<lparr>pending_signups := ps\<rparr>) = auth_inv w"
  by (rule auth_inv_cong) simp_all

lemma auth_inv_audit: "audit_log now u d ev meta w = Inr w' \<Longrightarrow> auth_inv w' = auth_inv w"
  by (rule auth_inv_cong) (auto dest: audit_log_Inr)

lemma insert_user_Inr:
  assumes "insert_user r w = Inr w'"
  shows "w' = w\<lparr>t_users := t_users w @ [r]\<rparr>"
    "\<And>x. x \<in> set (t_users w) \<Longrightarrow> u_id x \<noteq> u_id r \<and> u_email_normalized x \<noteq> u_email_normalized r"
  using assms by (auto simp: insert_user_def split: if_splits)

lemma insert_device_Inr:
  assumes "insert_device r w = Inr w'"
  shows "w' = w\<lparr>t_devices := t_devices w @ [r]\<rparr>" "\<And>x. x \<in> set (t_devices w) \<Longrightarrow> d_id x \<noteq> d_id r" "user_exists w (d_user r)"
  using assms by (auto simp: insert_device_def split: if_splits)

lemma insert_session_Inr:
  assumes "insert_session r w = Inr w'"
  shows "w' = w\<lparr>t_sessions := t_sessions w @ [r]\<rparr>"
    "\<And>x. x \<in> set (t_sessions w) \<Longrightarrow> s_id x \<noteq> s_id r \<and> s_token_hash x \<noteq> s_token_hash r \<and> s_jti x \<noteq> s_jti r"
  using assms by (auto simp: insert_session_def split: if_splits)

lemma insert_user_auth [account_intro]:
  assumes "insert_user r w = Inr w'" and "auth_inv w"
  shows "auth_inv w'"
  using insert_user_Inr [OF assms(1)] auth_invD [OF assms(2)] unfolding auth_inv_def by (auto intro!: key_intro)

lemma insert_device_auth [account_intro]:
  assumes "insert_device r w = Inr w'" and "auth_inv w"
  shows "auth_inv w'"
  using assms insert_device_Inr [OF assms(1)]
  unfolding auth_inv_def user_exists_def by (auto intro!: key_intro)

lemma insert_session_auth:
  assumes ins: "insert_session r w = Inr w'" and inv: "auth_inv w"
    and dev: "\<exists>d\<in>set (t_devices w). d_id d = s_device r \<and> d_user d = s_user r"
    and new: "s_rotated_to r = None" "s_revoked_at r = None"
  shows "auth_inv w'"
  using insert_session_Inr [OF ins] auth_invD [OF inv] dev new
  unfolding auth_inv_def by (auto intro!: key_intro)

lemma revoke_sessions_auth [account_intro]: "auth_inv w \<Longrightarrow> auth_inv (revoke_sessions now reason P w)"
  unfolding auth_inv_def revoke_sessions_def by (auto intro!: key_intro simp: ball_upd)

lemma rotate_auth:
  assumes inv: "auth_inv w" and s: "s \<in> set (t_sessions w)"
    and n: "n \<in> set (t_sessions w)" "s_device n = s_device s" "s_user n = s_user s"
  shows "auth_inv (w\<lparr>t_sessions := upd (\<lambda>r. s_id r = s_id s) (\<lambda>r. r\<lparr>s_rotated_to := Some (s_id n)\<rparr>) (t_sessions w)\<rparr>)"
proof -
  have only: "r = s" if "r \<in> set (t_sessions w)" "s_id r = s_id s" for r
    using ukeyD [OF auth_invD(4) [OF inv]] that s by blast
  have "fkey (\<lambda>s. map_option (\<lambda>n. (n, s_device s, s_user s)) (s_rotated_to s)) (\<lambda>s. (s_id s, s_device s, s_user s))
      (upd (\<lambda>r. s_id r = s_id s) (\<lambda>r. r\<lparr>s_rotated_to := Some (s_id n)\<rparr>) (t_sessions w)) (t_sessions w)"
    using auth_invD(9) [OF inv] n only by (intro fkey_upd_src) force+
  then show ?thesis
    using auth_invD [OF inv] unfolding auth_inv_def by (auto intro!: key_intro simp: ball_upd)
qed

lemma upd_devices_auth [account_intro]:
  "auth_inv w \<Longrightarrow> (\<And>d. d_id (g d) = d_id d \<and> d_user (g d) = d_user d) \<Longrightarrow> auth_inv (w\<lparr>t_devices := upd P g (t_devices w)\<rparr>)"
  unfolding auth_inv_def by (auto intro!: key_intro)

lemma upd_users_auth [account_intro]:
  "auth_inv w \<Longrightarrow> (\<And>r. u_id (g r) = u_id r \<and> u_email_normalized (g r) = u_email_normalized r) \<Longrightarrow>
     auth_inv (w\<lparr>t_users := upd P g (t_users w)\<rparr>)"
  unfolding auth_inv_def by (auto intro!: key_intro)

subsection \<open>The contract\<close>

definition same_vault :: "vault \<Rightarrow> vault \<Rightarrow> bool" where
  "same_vault w w' \<longleftrightarrow> t_folders w' = t_folders w \<and> t_files w' = t_files w \<and> t_versions w' = t_versions w \<and>
     t_chunks w' = t_chunks w \<and> t_shares w' = t_shares w \<and> t_pending w' = t_pending w"

locale account_operation =
  fixes run :: "vault \<Rightarrow> 'r result \<Rightarrow> vault \<Rightarrow> bool"
  assumes accounts: "auth_inv w \<Longrightarrow> run w res w' \<Longrightarrow> auth_inv w'"
    and vault_kept: "run w res w' \<Longrightarrow> same_vault w w'"
begin

lemma good: "system_inv now w \<Longrightarrow> run w res w' \<Longrightarrow> good_step now u w w'"
  using vault_kept by (intro other_tables_good) (auto simp: same_vault_def)

text \<open>Nobody's rows change, the caller's included.\<close>

lemma rows_kept: "run w res w' \<Longrightarrow> user_rows w' = user_rows w"
  using vault_kept by (intro user_rows_cong) (auto simp: same_vault_def)

end

lemmas account_steps =
  attempt_snd [where P = auth_inv] attempt_sql_snd [where P = auth_inv]

lemma same_vault_refl [simp]: "same_vault w w"
  by (simp add: same_vault_def)

lemma same_vault_trans: "same_vault w w' \<Longrightarrow> same_vault w' w'' \<Longrightarrow> same_vault w w''"
  by (simp add: same_vault_def)

lemma same_vault_rows [simp]:
  "same_vault w (w'\<lparr>t_users := us\<rparr>) = same_vault w w'" "same_vault w (w'\<lparr>t_devices := ds\<rparr>) = same_vault w w'"
  "same_vault w (w'\<lparr>t_sessions := ss\<rparr>) = same_vault w w'" "same_vault w (w'\<lparr>pending_signups := ps\<rparr>) = same_vault w w'"
  "same_vault w (audit_log_ok now u d ev meta w') = same_vault w w'"
  "same_vault w (revoke_sessions now reason P w') = same_vault w w'"
  by (simp_all add: same_vault_def revoke_sessions_def)

lemma same_vault_inserts:
  "insert_user a w' = Inr w1 \<Longrightarrow> same_vault w w1 = same_vault w w'"
  "insert_device b w' = Inr w1 \<Longrightarrow> same_vault w w1 = same_vault w w'"
  "insert_session c w' = Inr w1 \<Longrightarrow> same_vault w w1 = same_vault w w'"
  "audit_log now u d ev meta w' = Inr w1 \<Longrightarrow> same_vault w w1 = same_vault w w'"
  by (auto dest!: insert_user_Inr(1) insert_device_Inr(1) insert_session_Inr(1) audit_log_Inr simp: same_vault_def)

lemmas vault_steps =
  attempt_snd [where P = "same_vault w" for w] attempt_sql_snd [where P = "same_vault w" for w]

subsection \<open>The operations\<close>

lemma drop_signup_simps [simp]:
  "auth_inv (drop_signup token w) = auth_inv w" "same_vault w0 (drop_signup token w) = same_vault w0 w"
  "t_users (drop_signup token w) = t_users w" "t_devices (drop_signup token w) = t_devices w"
  "t_sessions (drop_signup token w) = t_sessions w"
  by (simp_all add: drop_signup_def)

lemma signup_init_auth: "auth_inv w \<Longrightarrow> auth_inv (snd (signup_init x y cfg now salt tid email w))"
  by (simp add: signup_init_def Let_def attempt_def split: sum.splits)

lemma signup_init_vault: "same_vault w (snd (signup_init x y cfg now salt tid email w))"
  by (simp add: signup_init_def Let_def attempt_def split: sum.splits)

lemma signup_complete_auth:
  assumes "auth_inv w"
  shows "auth_inv (snd (signup_complete x y cfg now salts uid did sid jti req w))"
proof (cases "map_of (pending_signups w) (sc_token req)")
  case None
  then show ?thesis using assms by (simp add: signup_complete_def)
next
  case (Some pending)
  let ?w0 = "drop_signup (sc_token req) w"
  have w0: "auth_inv ?w0" using assms by simp
  have w3: "auth_inv w3" if "insert_user (new_user now uid pending n a r keys) ?w0 = Inr w1"
    "insert_device (new_device now did uid dn pk) w1 = Inr w2"
    "insert_session (new_session now c sid uid did h jti None None) w2 = Inr w3" for n a r keys w1 w2 w3 dn pk c h
  proof -
    have w2: "auth_inv w2" using w0 that(1,2) by (blast intro: account_intro)
    have "\<exists>d\<in>set (t_devices w2). d_id d = did \<and> d_user d = uid"
      using insert_device_Inr(1) [OF that(2)] by (auto simp: new_device_def)
    then show ?thesis by (intro insert_session_auth [OF that(3) w2]) (auto simp: new_session_def)
  qed
  show ?thesis
  proof (cases "ps_expires_at pending < now")
    case True
    then show ?thesis using w0 Some by (simp add: signup_complete_def)
  next
    case False
    show ?thesis
      unfolding signup_complete_def Some option.case Let_def if_not_P [OF False]
    proof (intro account_steps w0, goal_cases)
      case (1 keys auth_hash recovery_hash w1 w2 token w3 w4)
      then show ?case using w3 auth_inv_audit by blast
    next
      case (2 keys auth_hash recovery_hash w1 w2 token w3 w4 access)
      then show ?case using w3 auth_inv_audit by simp
    qed
  qed
qed

lemma signup_complete_vault: "same_vault w (snd (signup_complete x y cfg now salts uid did sid jti req w))"
proof (cases "map_of (pending_signups w) (sc_token req)")
  case None
  then show ?thesis by (simp add: signup_complete_def)
next
  case (Some pending)
  have w0: "same_vault w (drop_signup (sc_token req) w)" by simp
  show ?thesis
  proof (cases "ps_expires_at pending < now")
    case False
    show ?thesis
      unfolding signup_complete_def Some option.case Let_def if_not_P [OF False]
      by (intro vault_steps w0) (simp_all add: same_vault_inserts)
  qed (simp add: signup_complete_def Some)
qed

interpretation signup_init: account_operation "\<lambda>w r w'. signup_init x y cfg now salt tid email w = (r, w')"
  by unfold_locales (metis signup_init_auth snd_conv, metis signup_init_vault snd_conv)

interpretation signup_complete: account_operation
  "\<lambda>w r w'. signup_complete x y cfg now salts uid did sid jti req w = (r, w')"
  by unfold_locales (metis signup_complete_auth snd_conv, metis signup_complete_vault snd_conv)

text \<open>The device of a login is an unrevoked device of the user.\<close>

lemma login_device_ok:
  assumes run: "login_device now new_id u req pubkey w = Inr (did, w')"
  shows "auth_inv w \<Longrightarrow> auth_inv w'" and "same_vault w0 w' = same_vault w0 w" and "t_sessions w' = t_sessions w" and "t_users w' = t_users w"
    and "\<exists>d\<in>set (t_devices w'). d_id d = did \<and> d_user d = u \<and> d_revoked_at d = None \<and> d_pubkey d = pubkey"
proof -
  let ?r = "new_device now new_id u (lr_device_name req) pubkey"
  have C: "(\<exists>w1. insert_device ?r w = Inr w1 \<and> did = new_id \<and> w' = w1) \<or>
      (\<exists>d\<in>set (t_devices w). d_user d = u \<and> d_revoked_at d = None \<and> d_pubkey d = pubkey \<and> did = d_id d \<and>
         w' = w\<lparr>t_devices := upd (\<lambda>r. d_id r = d_id d) (\<lambda>r. r\<lparr>d_last_seen_at := now\<rparr>) (t_devices w)\<rparr>)"
    using run by (auto simp: login_device_def Let_def split: option.splits sum.splits if_splits dest!: find_Some_in)
  from C show "auth_inv w \<Longrightarrow> auth_inv w'" "same_vault w0 w' = same_vault w0 w" "t_sessions w' = t_sessions w" "t_users w' = t_users w"
    by (auto simp: same_vault_inserts dest: insert_device_Inr(1) intro: account_intro)
  from C show "\<exists>d\<in>set (t_devices w'). d_id d = did \<and> d_user d = u \<and> d_revoked_at d = None \<and> d_pubkey d = pubkey"
  proof (elim disjE exE bexE conjE)
    fix d
    assume "d \<in> set (t_devices w)" "d_user d = u" "d_revoked_at d = None" "d_pubkey d = pubkey" "did = d_id d"
      "w' = w\<lparr>t_devices := upd (\<lambda>r. d_id r = d_id d) (\<lambda>r. r\<lparr>d_last_seen_at := now\<rparr>) (t_devices w)\<rparr>"
    then show ?thesis by (auto simp: bex_upd intro!: bexI [of _ d])
  qed (auto simp: new_device_def dest: insert_device_Inr(1))
qed

text \<open>A login that gets past the credentials, step by step.\<close>

lemma login_cases [consumes 1, case_names same failed signed]:
  assumes "login x y cfg now new_did sid jti req ip ua w = (res, w')"
  obtains (same) e where "res = Inl e" "w' = w"
  | (failed) user :: user_row and meta where "res = Inl InvalidCredentials" "w' = audit_log_ok now (Some (u_id user)) None ''login_failed'' meta w"
  | (signed) user pubkey did w1 token w2 w3 where
      "user \<in> set (t_users w)" "u_email_normalized user = normalized_email y (lr_email req)" "u_disabled_at user = None"
      "verify_auth_key y (lr_auth_key req) (u_auth_key_hash user) \<or> verify_auth_key y (lr_auth_key req) (u_recovery_auth_key_hash user)"
      "decode_b64 x (lr_device_pubkey req) = Inr pubkey" "login_device now new_did (u_id user) req pubkey w = Inr (did, w1)"
      "sign_refresh_token y now (u_id user) sid did jti (jwt cfg) = Inr token"
      "insert_session (new_session now (jwt cfg) sid (u_id user) did (hash_refresh_token y token) jti ua ip) w1 = Inr w2"
      "audit_log now (Some (u_id user)) (Some did) ''login_success'' (JObj []) w2 = Inr w3"
      "w' = w3" "res = (case sign_access_token y now (u_id user) sid did (jwt cfg) of
         Inl e \<Rightarrow> Inl e | Inr access \<Rightarrow> Inr (mk_auth_response (jwt cfg) access token (u_full_name user)))"
proof (cases "find (\<lambda>u. u_email_normalized u = normalized_email y (lr_email req)) (t_users w)")
  case None
  then show ?thesis using assms same by (auto simp: login_def Let_def split: if_splits)
next
  case (Some user)
  have u: "user \<in> set (t_users w)" "u_email_normalized user = normalized_email y (lr_email req)"
    using find_Some_in [OF Some] by auto
  note run = assms [unfolded login_def Let_def Some option.case]
  consider (err) e where "res = Inl e" "w' = w"
    | (bad) "res = Inl InvalidCredentials" "w' = audit_log_ok now (Some (u_id user)) None ''login_failed'' (JObj [(''reason'', JStr ''invalid_credentials'')]) w"
    | (ok) "u_disabled_at user = None"
        "verify_auth_key y (lr_auth_key req) (u_auth_key_hash user) \<or> verify_auth_key y (lr_auth_key req) (u_recovery_auth_key_hash user)"
        "attempt (decode_b64 x (lr_device_pubkey req)) w (\<lambda>pubkey.
     attempt (check_that (length pubkey = 32) (BadRequest ''device public key must be 32 bytes'')) w (\<lambda>_.
     attempt_sql (login_device now new_did (u_id user) req pubkey w) w (\<lambda>(did, w1).
     attempt (sign_refresh_token y now (u_id user) sid did jti (jwt cfg)) w (\<lambda>token.
     attempt_sql (insert_session (new_session now (jwt cfg) sid (u_id user) did (hash_refresh_token y token) jti ua ip) w1) w (\<lambda>w2.
     attempt_sql (audit_log now (Some (u_id user)) (Some did) ''login_success'' (JObj []) w2) w (\<lambda>w3.
     attempt (sign_access_token y now (u_id user) sid did (jwt cfg)) w3 (\<lambda>access.
     (Inr (mk_auth_response (jwt cfg) access token (u_full_name user)), w3)))))))) = (res, w')"
    using run by (auto split: if_splits)
  then show ?thesis
  proof cases
    case err
    then show ?thesis by (rule same)
  next
    case bad
    then show ?thesis by (rule failed)
  next
    case ok
    from ok(3) show ?thesis
      by (auto simp: attempt_def attempt_sql_def split: sum.splits prod.splits
          intro: same signed [OF u ok(1,2)])
  qed
qed

interpretation login: account_operation "\<lambda>w r w'. login x y cfg now new_did sid jti req ip ua w = (r, w')"
proof (unfold_locales, goal_cases)
  case (1 w res w')
  from 1(2) show ?case
  proof (cases rule: login_cases)
    case (signed user pubkey did w1 token w2 w3)
    note D = login_device_ok [OF signed(6)]
    have "auth_inv w2"
      using D(5) by (intro insert_session_auth [OF signed(8) D(1) [OF 1(1)]]) (auto simp: new_session_def)
    then show ?thesis using auth_inv_audit [OF signed(9)] signed(10) by simp
  qed (use 1(1) in simp_all)
next
  case (2 w res w')
  then show ?case
    by (cases rule: login_cases) (simp_all add: same_vault_inserts login_device_ok(2))
qed

text \<open>The outcomes of a refresh.\<close>

lemma refresh_cases [consumes 1, case_names same reuse rotated]:
  assumes "refresh x y cfg now new_sid new_jti tok w = (res, w')"
  obtains (same) e where "res = Inl e" "w' = w"
  | (reuse) claims s nxt where "verify_refresh_token y now tok = Inr claims" "s \<in> set (t_sessions w)" "s_jti s = rc_jti claims"
      "s_revoked_reason s = None" "s_rotated_to s = Some nxt" "res = Inl RefreshTokenReuse" "w' = revoke_reused x now claims nxt w"
  | (rotated) claims s user token w1 where "verify_refresh_token y now tok = Inr claims"
      "find (\<lambda>s. s_jti s = rc_jti claims) (t_sessions w) = Some s" "find (\<lambda>u. u_id u = s_user s) (t_users w) = Some user"
      "s_revoked_reason s = None" "s_rotated_to s = None" "s_token_hash s = hash_refresh_token y tok"
      "sign_refresh_token y now (s_user s) new_sid (s_device s) new_jti (jwt cfg) = Inr token"
      "insert_session (new_session now (jwt cfg) new_sid (s_user s) (s_device s) (hash_refresh_token y token) new_jti None None) w = Inr w1"
      "w' = w1\<lparr>t_sessions := upd (\<lambda>r. s_id r = s_id s) (\<lambda>r. r\<lparr>s_rotated_to := Some new_sid\<rparr>) (t_sessions w1)\<rparr>"
      "res = (case sign_access_token y now (s_user s) new_sid (s_device s) (jwt cfg) of
         Inl e \<Rightarrow> Inl e | Inr access \<Rightarrow> Inr (mk_auth_response (jwt cfg) access token (u_full_name user)))"
proof (cases "verify_refresh_token y now tok")
  case (Inl e)
  then show ?thesis using assms by (intro same [of e]) (simp_all add: refresh_def)
next
  case v: (Inr claims)
  note run = assms [unfolded refresh_def v attempt_simps]
  show ?thesis
  proof (cases "find (\<lambda>s. s_jti s = rc_jti claims) (t_sessions w)")
    case None
    then show ?thesis using run by (intro same [of InvalidRefreshToken]) simp_all
  next
    case s: (Some s)
    have s': "s \<in> set (t_sessions w)" "s_jti s = rc_jti claims" using find_Some_in [OF s] by auto
    show ?thesis
    proof (cases "find (\<lambda>u. u_id u = s_user s) (t_users w)")
      case None
      then show ?thesis using run s by (intro same [of InvalidRefreshToken]) simp_all
    next
      case u: (Some user)
      consider (err) e where "res = Inl e" "w' = w"
        | (re) nxt where "s_revoked_reason s = None" "s_rotated_to s = Some nxt" "res = Inl RefreshTokenReuse" "w' = revoke_reused x now claims nxt w"
        | (rot) "s_revoked_reason s = None" "s_rotated_to s = None" "s_token_hash s = hash_refresh_token y tok"
           "attempt (sign_refresh_token y now (s_user s) new_sid (s_device s) new_jti (jwt cfg)) w (\<lambda>token.
     attempt_sql (insert_session (new_session now (jwt cfg) new_sid (s_user s) (s_device s) (hash_refresh_token y token) new_jti None None) w) w (\<lambda>w1.
     let w2 = w1\<lparr>t_sessions := upd (\<lambda>r. s_id r = s_id s) (\<lambda>r. r\<lparr>s_rotated_to := Some new_sid\<rparr>) (t_sessions w1)\<rparr>
     in attempt (sign_access_token y now (s_user s) new_sid (s_device s) (jwt cfg)) w2 (\<lambda>access.
        (Inr (mk_auth_response (jwt cfg) access token (u_full_name user)), w2)))) = (res, w')"
        using run by (auto simp: s u split: if_splits option.splits)
      then show ?thesis
      proof cases
        case err
        then show ?thesis by (rule same)
      next
        case (re nxt)
        then show ?thesis by (intro reuse [OF v s'])
      next
        case rot
        from rot(4) show ?thesis
          by (auto simp: attempt_def attempt_sql_def Let_def split: sum.splits intro: same rotated [OF v s u rot(1-3)])
      qed
    qed
  qed
qed

lemma revoke_reused_auth: "auth_inv w \<Longrightarrow> auth_inv (revoke_reused x now claims nxt w)"
  by (auto simp: revoke_reused_def Let_def auth_inv_audit intro: account_intro split: sum.splits)

lemma revoke_reused_vault: "same_vault w0 (revoke_reused x now claims nxt w) = same_vault w0 w"
  by (auto simp: revoke_reused_def Let_def same_vault_inserts split: sum.splits)

lemma new_session_simps [simp]:
  "s_id (new_session now c sid u did h jti ua ip) = sid" "s_user (new_session now c sid u did h jti ua ip) = u"
  "s_device (new_session now c sid u did h jti ua ip) = did" "s_jti (new_session now c sid u did h jti ua ip) = jti"
  "s_token_hash (new_session now c sid u did h jti ua ip) = h" "s_rotated_to (new_session now c sid u did h jti ua ip) = None"
  "s_revoked_at (new_session now c sid u did h jti ua ip) = None" "s_revoked_reason (new_session now c sid u did h jti ua ip) = None"
  by (simp_all add: new_session_def)

interpretation refresh: account_operation "\<lambda>w r w'. refresh x y cfg now new_sid new_jti tok w = (r, w')"
proof (unfold_locales, goal_cases)
  case (1 w res w')
  from 1(2) show ?case
  proof (cases rule: refresh_cases)
    case (rotated claims s user token w1)
    let ?n = "new_session now (jwt cfg) new_sid (s_user s) (s_device s) (hash_refresh_token y token) new_jti None None"
    have s: "s \<in> set (t_sessions w)" using find_Some_in [OF rotated(2)] by simp
    note I = insert_session_Inr [OF rotated(8)]
    obtain d where "d \<in> set (t_devices w)" "d_id d = s_device s" "d_user d = s_user s" by (rule session_device [OF 1(1) s])
    then have "auth_inv w1" by (intro insert_session_auth [OF rotated(8) 1(1)]) auto
    then have "auth_inv (w1\<lparr>t_sessions := upd (\<lambda>r. s_id r = s_id s) (\<lambda>r. r\<lparr>s_rotated_to := Some (s_id ?n)\<rparr>) (t_sessions w1)\<rparr>)"
      using s by (intro rotate_auth) (auto simp: I(1))
    then show ?thesis using rotated(9) by simp
  qed (use 1(1) revoke_reused_auth in simp_all)
next
  case (2 w res w')
  then show ?case
    by (cases rule: refresh_cases) (simp_all add: same_vault_inserts revoke_reused_vault)
qed

lemma logout_auth: "auth_inv w \<Longrightarrow> auth_inv (snd (logout y now u sid did kill rt w))"
  by (auto simp: logout_def Let_def attempt_sql_def revoke_device_rows_def auth_inv_audit
      intro!: account_intro split: sum.splits option.splits)

lemma logout_vault: "same_vault w (snd (logout y now u sid did kill rt w))"
  by (auto simp: logout_def Let_def attempt_sql_def revoke_device_rows_def same_vault_inserts split: sum.splits option.splits)

interpretation logout: account_operation "\<lambda>w r w'. logout y now u sid did kill rt w = (r, w')"
  by unfold_locales (metis logout_auth snd_conv, metis logout_vault snd_conv)

lemma change_password_auth: "auth_inv w \<Longrightarrow> auth_inv (snd (change_password x y cfg now salt u did req w))"
  by (auto simp: change_password_def attempt_def attempt_sql_def auth_inv_audit intro!: account_intro split: sum.splits)

lemma change_password_vault: "same_vault w (snd (change_password x y cfg now salt u did req w))"
  by (auto simp: change_password_def attempt_def attempt_sql_def same_vault_inserts split: sum.splits)

interpretation change_password: account_operation "\<lambda>w r w'. change_password x y cfg now salt u did req w = (r, w')"
  by unfold_locales (metis change_password_auth snd_conv, metis change_password_vault snd_conv)

lemma update_profile_auth: "auth_inv w \<Longrightarrow> auth_inv (snd (update_profile y now u req w))"
  by (auto simp: update_profile_def attempt_def Let_def intro!: account_intro split: sum.splits)

lemma update_profile_vault: "same_vault w (snd (update_profile y now u req w))"
  by (auto simp: update_profile_def attempt_def Let_def split: sum.splits)

interpretation update_profile: account_operation "\<lambda>w r w'. update_profile y now u req w = (r, w')"
  by unfold_locales (metis update_profile_auth snd_conv, metis update_profile_vault snd_conv)

lemma update_avatar_url_frame: "auth_inv w \<Longrightarrow> auth_inv (update_avatar_url now u url w)" "same_vault w (update_avatar_url now u url w)"
  by (auto simp: update_avatar_url_def intro!: account_intro)

interpretation upload_avatar: account_operation "\<lambda>w r w'. upload_avatar x now u body w = (r, w')"
  by unfold_locales
    (auto simp: upload_avatar_def Let_def attempt_def update_avatar_url_frame split: option.splits sum.splits)

interpretation delete_avatar: account_operation "\<lambda>w r w'. delete_avatar_handler x now u w = (r, w')"
  by unfold_locales
    (auto simp: delete_avatar_handler_def delete_avatar_def attempt_def intro!: account_intro split: if_splits sum.splits)

lemma revoke_device_auth: "auth_inv w \<Longrightarrow> auth_inv (snd (revoke_device now u did current w))"
  by (auto simp: revoke_device_def attempt_def attempt_sql_def Let_def auth_inv_audit intro!: account_intro split: sum.splits)

lemma revoke_device_vault: "same_vault w (snd (revoke_device now u did current w))"
  by (auto simp: revoke_device_def attempt_def attempt_sql_def Let_def same_vault_inserts split: sum.splits)

interpretation revoke_device: account_operation "\<lambda>w r w'. revoke_device now u did current w = (r, w')"
  by unfold_locales (metis revoke_device_auth snd_conv, metis revoke_device_vault snd_conv)

lemma update_device_name_auth: "auth_inv w \<Longrightarrow> auth_inv (snd (update_device_name now u did name w))"
  by (auto simp: update_device_name_def attempt_sql_def Let_def auth_inv_audit intro!: account_intro split: sum.splits)

lemma update_device_name_vault: "same_vault w (snd (update_device_name now u did name w))"
  by (auto simp: update_device_name_def attempt_sql_def Let_def same_vault_inserts split: sum.splits)

interpretation update_device_name: account_operation "\<lambda>w r w'. update_device_name now u did name w = (r, w')"
  by unfold_locales (metis update_device_name_auth snd_conv, metis update_device_name_vault snd_conv)

end
