(* ===== verification/Handlers.thy ===== *)
theory Handlers
  imports Chunks Shares Cleanup Account_Contract
begin

text \<open>
  The HTTP handlers of \<open>src/features/*/handlers.rs\<close> and the extractors of
  \<open>src/core/extractors.rs\<close>: the validation of a request, the call of the service as the
  authenticated user and device, and the status and body of the answer. A request body that does
  not parse is refused by the framework before a handler runs.
\<close>

subsection \<open>Answers\<close>

datatype body =
    NoBody | JsonBody json | TextBody string
  | CreatedFileBody create_file_response | CreatedFilesBody "create_file_response list"
  | FileBody file_response | FilesBody "file_response list" int | VersionsBody "file_version_response list"
  | ManifestBody download_manifest | BulkCompleteBody bulk_complete_response
  | CreateShareBody uuid | ShareBody get_share_response | SharesBody "share_list_item list"
  | FolderBody folder_response | FoldersBody "folder_response list" | TreeBody "flat_tree_node list"
  | DevicesBody "device_response list" | SessionsBody "session_response list"
  | ResumeBody resume_info_response | ChunkStatusBody chunk_status_response
  | PreloginBody prelogin_response | SignupInitBody signup_init_response | AuthBody auth_response
  | KeysBody key_bundle | ProfileBody user_profile
  | EventStream

record api_response =
  rs_status :: nat
  rs_body :: body

text \<open>The answer of a handler whose service call returned \<open>r\<close>: an error is passed on by \<open>?\<close>.\<close>

definition respond :: "nat \<Rightarrow> ('a \<Rightarrow> body) \<Rightarrow> 'a result \<times> vault \<Rightarrow> api_response result \<times> vault" where
  "respond st f r = (case r of (Inl e, w) \<Rightarrow> (Inl e, w) | (Inr a, w) \<Rightarrow> (Inr \<lparr>rs_status = st, rs_body = f a\<rparr>, w))"

lemma respond_snd [simp]: "snd (respond st f r) = snd r"
  by (cases r; cases "fst r") (auto simp: respond_def)

lemma respond_eq: "respond st f r = (res, w') \<Longrightarrow> \<exists>q. r = (q, w')"
  by (cases r; cases "fst r") (auto simp: respond_def)

subsection \<open>Requests\<close>

text \<open>
  What the framework and the \<open>validator\<close> crate decide: whether a string is an email address, the
  text of the error for a rejected field, and the parsing of an address.
\<close>

record http_ext =
  valid_email :: "string \<Rightarrow> bool"
  validation_text :: "string \<Rightarrow> string"
  parse_ip :: "string \<Rightarrow> string option"

text \<open>The identifiers and salts that a request draws at random, by their position.\<close>

record draws =
  drawn_ids :: "nat \<Rightarrow> uuid"
  drawn_chunks :: "nat \<Rightarrow> nat \<Rightarrow> uuid"
  drawn_salt :: bytes
  drawn_hash_salts :: "nat \<times> nat"

text \<open>\<open>#[validate(length(min, max))]\<close>; a string counts its characters, not its bytes.\<close>

definition valid_length :: "http_ext \<Rightarrow> string \<Rightarrow> nat \<Rightarrow> nat option \<Rightarrow> nat \<Rightarrow> unit result" where
  "valid_length h field lo hi n =
     check_that (lo \<le> n \<and> (case hi of None \<Rightarrow> True | Some m \<Rightarrow> n \<le> m)) (Validation (validation_text h field))"

definition char_count :: "string \<Rightarrow> nat" where
  "char_count s = length (filter (\<lambda>c. let n = (of_char c :: nat) in n < 128 \<or> 192 \<le> n) s)"

definition check_email :: "http_ext \<Rightarrow> string \<Rightarrow> unit result" where
  "check_email h email = check_that (valid_email h email) (Validation (validation_text h ''email''))"

text \<open>The headers of a request by their lower-case names; a value that is not text is absent.\<close>

type_synonym header_map = "(string \<times> string) list"

definition extract_client_ip :: "http_ext \<Rightarrow> auth_ext \<Rightarrow> header_map \<Rightarrow> string option" where
  "extract_client_ip h y headers =
     (case Option.bind (map_of headers ''x-forwarded-for'') (\<lambda>v. parse_ip h (trim (tables y) (hd (split_on CHR '','' v)))) of
        Some ip \<Rightarrow> Some ip
      | None \<Rightarrow> Option.bind (map_of headers ''x-appengine-user-ip'') (\<lambda>v. parse_ip h (trim (tables y) v)))"

definition extract_user_agent :: "header_map \<Rightarrow> string option" where
  "extract_user_agent headers = map_of headers ''user-agent''"

record list_files_query =
  lq_folder :: "uuid option"
  lq_limit :: "int option"
  lq_offset :: "int option"
  lq_trashed :: "bool option"

definition default_limit :: int where
  "default_limit = 100"

record list_folders_query =
  lfq_parent :: "uuid option"
  lfq_trashed :: "bool option"

definition or_default :: "'a \<Rightarrow> 'a option \<Rightarrow> 'a" where
  "or_default a v = (case v of None \<Rightarrow> a | Some b \<Rightarrow> b)"

subsection \<open>Files\<close>

definition create_file_handler :: "ext \<Rightarrow> http_ext \<Rightarrow> timestamp \<Rightarrow> draws \<Rightarrow> authenticated_user \<Rightarrow> create_file_request \<Rightarrow> vault \<Rightarrow> api_response result \<times> vault" where
  "create_file_handler x h now dr user req w =
     attempt (valid_length h ''chunks'' 1 None (length (cf_chunks req))) w (\<lambda>_.
     respond 201 CreatedFileBody (create_file x now (drawn_ids dr 0) (drawn_ids dr 1) (drawn_chunks dr 0) (au_user user) (au_device user) req w))"

definition create_version_handler :: "ext \<Rightarrow> http_ext \<Rightarrow> timestamp \<Rightarrow> draws \<Rightarrow> authenticated_user \<Rightarrow> uuid \<Rightarrow> create_file_request \<Rightarrow> vault \<Rightarrow> api_response result \<times> vault" where
  "create_version_handler x h now dr user fid req w =
     attempt (valid_length h ''chunks'' 1 None (length (cf_chunks req))) w (\<lambda>_.
     respond 201 CreatedFileBody (create_version x now (drawn_ids dr 0) (drawn_chunks dr 0) (au_user user) (au_device user) fid req w))"

definition get_file_handler :: "ext \<Rightarrow> authenticated_user \<Rightarrow> uuid \<Rightarrow> vault \<Rightarrow> api_response result \<times> vault" where
  "get_file_handler x user fid w =
     respond 200 FileBody (get_file x (au_user user) fid w, w)"

definition list_files_handler :: "ext \<Rightarrow> authenticated_user \<Rightarrow> list_files_query \<Rightarrow> vault \<Rightarrow> api_response result \<times> vault" where
  "list_files_handler x user q w =
     (case list_files x (au_user user) (lq_folder q) (or_default default_limit (lq_limit q)) (or_default 0 (lq_offset q))
          (or_default False (lq_trashed q)) w of
        (files, n) \<Rightarrow> (Inr \<lparr>rs_status = 200, rs_body = FilesBody files n\<rparr>, w))"

definition update_file_handler :: "ext \<Rightarrow> timestamp \<Rightarrow> authenticated_user \<Rightarrow> uuid \<Rightarrow> update_file_request \<Rightarrow> vault \<Rightarrow> api_response result \<times> vault" where
  "update_file_handler x now user fid req w =
     respond 200 FileBody (update_file x now (au_user user) fid req w)"

definition complete_upload_handler :: "timestamp \<Rightarrow> authenticated_user \<Rightarrow> uuid \<Rightarrow> complete_upload_request \<Rightarrow> vault \<Rightarrow> api_response result \<times> vault" where
  "complete_upload_handler now user fid req w =
     respond 204 (\<lambda>_. NoBody) (complete_upload now (au_user user) (au_device user) req w)"

definition get_download_manifest_handler :: "ext \<Rightarrow> authenticated_user \<Rightarrow> uuid \<Rightarrow> uuid option \<Rightarrow> vault \<Rightarrow> api_response result \<times> vault" where
  "get_download_manifest_handler x user fid vid w =
     respond 200 ManifestBody (get_download_manifest x (au_user user) fid vid w, w)"

definition delete_file_handler :: "timestamp \<Rightarrow> authenticated_user \<Rightarrow> uuid \<Rightarrow> vault \<Rightarrow> api_response result \<times> vault" where
  "delete_file_handler now user fid w =
     respond 204 (\<lambda>_. NoBody) (delete_file now (au_user user) (au_device user) fid w)"

definition list_versions_handler :: "authenticated_user \<Rightarrow> uuid \<Rightarrow> vault \<Rightarrow> api_response result \<times> vault" where
  "list_versions_handler user fid w =
     respond 200 VersionsBody (list_versions (au_user user) fid w, w)"

definition restore_version_handler :: "timestamp \<Rightarrow> authenticated_user \<Rightarrow> uuid \<Rightarrow> uuid \<Rightarrow> vault \<Rightarrow> api_response result \<times> vault" where
  "restore_version_handler now user fid vid w =
     respond 204 (\<lambda>_. NoBody) (restore_version now (au_user user) (au_device user) fid vid w)"

definition bulk_delete_handler :: "ext \<Rightarrow> timestamp \<Rightarrow> authenticated_user \<Rightarrow> bulk_delete_request \<Rightarrow> vault \<Rightarrow> api_response result \<times> vault" where
  "bulk_delete_handler x now user req w =
     respond 204 (\<lambda>_. NoBody) (bulk_delete x now (au_user user) (au_device user) req w)"

definition restore_file_handler :: "timestamp \<Rightarrow> authenticated_user \<Rightarrow> uuid \<Rightarrow> vault \<Rightarrow> api_response result \<times> vault" where
  "restore_file_handler now user fid w =
     respond 204 (\<lambda>_. NoBody) (restore_file now (au_user user) fid w)"

definition permanent_delete_file_handler :: "ext \<Rightarrow> timestamp \<Rightarrow> authenticated_user \<Rightarrow> uuid \<Rightarrow> vault \<Rightarrow> api_response result \<times> vault" where
  "permanent_delete_file_handler x now user fid w =
     respond 204 (\<lambda>_. NoBody) (permanently_delete_file x now (au_user user) fid w)"

definition precheck_upload_handler :: "ext \<Rightarrow> authenticated_user \<Rightarrow> string \<Rightarrow> int \<Rightarrow> vault \<Rightarrow> api_response result \<times> vault" where
  "precheck_upload_handler x user hash total_size w =
     respond 200 JsonBody (precheck_upload x (au_user user) hash total_size w, w)"

definition cancel_upload_handler :: "ext \<Rightarrow> timestamp \<Rightarrow> authenticated_user \<Rightarrow> uuid \<Rightarrow> uuid \<Rightarrow> vault \<Rightarrow> api_response result \<times> vault" where
  "cancel_upload_handler x now user fid vid w =
     respond 204 (\<lambda>_. NoBody) (cancel_upload x now (au_user user) fid vid w)"

definition cleanup_orphaned_uploads_handler :: "ext \<Rightarrow> timestamp \<Rightarrow> authenticated_user \<Rightarrow> vault \<Rightarrow> api_response result \<times> vault" where
  "cleanup_orphaned_uploads_handler x now user w =
     respond 200 (\<lambda>n. JsonBody (JObj [(''deleted'', JInt (int n))])) (user_cleanup_orphaned_versions x now (au_user user) 24 w)"

definition bulk_cancel_uploads_handler :: "ext \<Rightarrow> timestamp \<Rightarrow> authenticated_user \<Rightarrow> (uuid \<times> uuid) list \<Rightarrow> vault \<Rightarrow> api_response result \<times> vault" where
  "bulk_cancel_uploads_handler x now user targets w =
     respond 200 (\<lambda>n. JsonBody (JObj [(''cancelled'', JInt (int n))])) (bulk_cancel_uploads x now (au_user user) targets w)"

definition bulk_init_uploads_handler :: "ext \<Rightarrow> http_ext \<Rightarrow> timestamp \<Rightarrow> draws \<Rightarrow> authenticated_user \<Rightarrow> create_file_request list \<Rightarrow> vault \<Rightarrow> api_response result \<times> vault" where
  "bulk_init_uploads_handler x h now dr user files w =
     attempt (valid_length h ''files'' 1 (Some 100) (length files)) w (\<lambda>_.
     respond 201 CreatedFilesBody (bulk_init_uploads x now (\<lambda>i. (drawn_ids dr (2 * i), drawn_ids dr (2 * i + 1))) (drawn_chunks dr)
       (au_user user) (au_device user) files w))"

definition bulk_complete_uploads_handler :: "ext \<Rightarrow> timestamp \<Rightarrow> authenticated_user \<Rightarrow> bulk_complete_item list \<Rightarrow> vault \<Rightarrow> api_response result \<times> vault" where
  "bulk_complete_uploads_handler x now user items w =
     respond 200 BulkCompleteBody (bulk_complete_uploads x now (au_user user) (au_device user) items w)"

definition create_share_handler :: "ext \<Rightarrow> timestamp \<Rightarrow> draws \<Rightarrow> authenticated_user \<Rightarrow> uuid \<Rightarrow> create_share_request \<Rightarrow> vault \<Rightarrow> api_response result \<times> vault" where
  "create_share_handler x now dr user item req w =
     respond 201 CreateShareBody (create_share x now (drawn_ids dr 0) (au_user user) item req w)"

definition get_share_handler :: "ext \<Rightarrow> auth_ext \<Rightarrow> timestamp \<Rightarrow> uuid \<Rightarrow> header_map \<Rightarrow> vault \<Rightarrow> api_response result \<times> vault" where
  "get_share_handler x y now sid headers w =
     respond 200 ShareBody (get_share x now sid (share_caller_authenticated y now (map_of headers ''authorization'')) w)"

definition get_shared_file_manifest_handler :: "ext \<Rightarrow> auth_ext \<Rightarrow> timestamp \<Rightarrow> uuid \<Rightarrow> uuid \<Rightarrow> header_map \<Rightarrow> vault \<Rightarrow> (api_response result \<times> vault) option" where
  "get_shared_file_manifest_handler x y now sid fid headers w =
     map_option (\<lambda>r. respond 200 ManifestBody (r, w))
       (get_shared_file_manifest x now sid fid (share_caller_authenticated y now (map_of headers ''authorization'')) w)"

definition revoke_share_handler :: "timestamp \<Rightarrow> authenticated_user \<Rightarrow> uuid \<Rightarrow> vault \<Rightarrow> api_response result \<times> vault" where
  "revoke_share_handler now user sid w =
     respond 204 (\<lambda>_. NoBody) (revoke_share now (au_user user) sid w)"

definition list_shares_handler :: "authenticated_user \<Rightarrow> vault \<Rightarrow> api_response result \<times> vault" where
  "list_shares_handler user w =
     (Inr \<lparr>rs_status = 200, rs_body = SharesBody (list_shares (au_user user) w)\<rparr>, w)"

definition delete_version_handler :: "ext \<Rightarrow> timestamp \<Rightarrow> authenticated_user \<Rightarrow> uuid \<Rightarrow> uuid \<Rightarrow> vault \<Rightarrow> api_response result \<times> vault" where
  "delete_version_handler x now user fid vid w =
     respond 204 (\<lambda>_. NoBody) (delete_version x now (au_user user) fid vid w)"

definition empty_trash_handler :: "ext \<Rightarrow> timestamp \<Rightarrow> authenticated_user \<Rightarrow> vault \<Rightarrow> api_response result \<times> vault" where
  "empty_trash_handler x now user w =
     respond 200 (\<lambda>n. JsonBody (JObj [(''deleted'', JInt (int n))])) (empty_trash x now (au_user user) w)"

definition move_file_handler :: "ext \<Rightarrow> timestamp \<Rightarrow> authenticated_user \<Rightarrow> uuid \<Rightarrow> uuid option \<Rightarrow> vault \<Rightarrow> api_response result \<times> vault" where
  "move_file_handler x now user fid folder w =
     respond 200 FileBody (move_file x now (au_user user) (au_device user) fid folder w)"

subsection \<open>Folders\<close>

text \<open>A recursive query that never ends makes the handler never answer: \<open>None\<close>.\<close>

definition create_folder_handler :: "ext \<Rightarrow> timestamp \<Rightarrow> draws \<Rightarrow> authenticated_user \<Rightarrow> create_folder_request \<Rightarrow> vault \<Rightarrow> api_response result \<times> vault" where
  "create_folder_handler x now dr user req w =
     respond 201 FolderBody (create_folder x now (drawn_ids dr 0) (au_user user) req w)"

definition get_folder_handler :: "ext \<Rightarrow> authenticated_user \<Rightarrow> uuid \<Rightarrow> vault \<Rightarrow> api_response result \<times> vault" where
  "get_folder_handler x user fid w =
     respond 200 FolderBody (get_folder x (au_user user) fid w, w)"

definition list_folders_handler :: "ext \<Rightarrow> authenticated_user \<Rightarrow> list_folders_query \<Rightarrow> vault \<Rightarrow> api_response result \<times> vault" where
  "list_folders_handler x user q w =
     respond 200 FoldersBody (list_folders x (au_user user) (lfq_parent q) (or_default False (lfq_trashed q)) w, w)"

definition update_folder_handler :: "ext \<Rightarrow> timestamp \<Rightarrow> authenticated_user \<Rightarrow> uuid \<Rightarrow> update_folder_request \<Rightarrow> vault \<Rightarrow> (api_response result \<times> vault) option" where
  "update_folder_handler x now user fid req w =
     map_option (respond 200 FolderBody) (update_folder x now (au_user user) fid req w)"

definition delete_folder_handler :: "timestamp \<Rightarrow> authenticated_user \<Rightarrow> uuid \<Rightarrow> vault \<Rightarrow> api_response result \<times> vault" where
  "delete_folder_handler now user fid w =
     respond 204 (\<lambda>_. NoBody) (delete_folder now (au_user user) fid w)"

definition create_folders_bulk_handler :: "ext \<Rightarrow> http_ext \<Rightarrow> timestamp \<Rightarrow> draws \<Rightarrow> authenticated_user \<Rightarrow> create_folder_request list \<Rightarrow> vault \<Rightarrow> api_response result \<times> vault" where
  "create_folders_bulk_handler x h now dr user folders w =
     attempt (valid_length h ''folders'' 1 (Some 500) (length folders)) w (\<lambda>_.
     respond 201 FoldersBody (create_folders_bulk x now (drawn_ids dr) (au_user user) folders w))"

definition get_folder_file_tree_handler :: "ext \<Rightarrow> authenticated_user \<Rightarrow> uuid \<Rightarrow> vault \<Rightarrow> (api_response result \<times> vault) option" where
  "get_folder_file_tree_handler x user fid w =
     map_option (\<lambda>r. respond 200 TreeBody (r, w)) (get_folder_file_tree x (au_user user) fid w)"

definition permanent_delete_folder_handler :: "ext \<Rightarrow> timestamp \<Rightarrow> authenticated_user \<Rightarrow> uuid \<Rightarrow> vault \<Rightarrow> api_response result \<times> vault" where
  "permanent_delete_folder_handler x now user fid w =
     respond 204 (\<lambda>_. NoBody) (permanent_delete_folder x now (au_user user) fid w)"

definition restore_folder_handler :: "timestamp \<Rightarrow> authenticated_user \<Rightarrow> uuid \<Rightarrow> vault \<Rightarrow> api_response result \<times> vault" where
  "restore_folder_handler now user fid w =
     respond 204 (\<lambda>_. NoBody) (restore_folder now (au_user user) fid w)"

definition move_folder_handler :: "ext \<Rightarrow> timestamp \<Rightarrow> authenticated_user \<Rightarrow> uuid \<Rightarrow> uuid option \<Rightarrow> vault \<Rightarrow> (api_response result \<times> vault) option" where
  "move_folder_handler x now user fid parent w =
     map_option (respond 200 FolderBody) (move_folder x now (au_user user) fid parent w)"

definition get_folder_path_handler :: "ext \<Rightarrow> authenticated_user \<Rightarrow> uuid \<Rightarrow> vault \<Rightarrow> (api_response result \<times> vault) option" where
  "get_folder_path_handler x user fid w =
     map_option (\<lambda>r. respond 200 FoldersBody (r, w)) (get_folder_path x (au_user user) fid w)"

subsection \<open>Devices and chunks\<close>

definition list_devices_handler :: "ext \<Rightarrow> authenticated_user \<Rightarrow> vault \<Rightarrow> api_response result \<times> vault" where
  "list_devices_handler x user w =
     (Inr \<lparr>rs_status = 200, rs_body = DevicesBody (list_devices x (au_user user) (au_device user) w)\<rparr>, w)"

definition list_sessions_handler :: "authenticated_user \<Rightarrow> vault \<Rightarrow> api_response result \<times> vault" where
  "list_sessions_handler user w =
     (Inr \<lparr>rs_status = 200, rs_body = SessionsBody (list_sessions (au_user user) (au_session user) w)\<rparr>, w)"

definition revoke_device_handler :: "timestamp \<Rightarrow> authenticated_user \<Rightarrow> uuid \<Rightarrow> vault \<Rightarrow> api_response result \<times> vault" where
  "revoke_device_handler now user did w =
     respond 204 (\<lambda>_. NoBody) (revoke_device now (au_user user) did (au_device user) w)"

definition update_device_name_handler :: "http_ext \<Rightarrow> timestamp \<Rightarrow> authenticated_user \<Rightarrow> uuid \<Rightarrow> string \<Rightarrow> vault \<Rightarrow> api_response result \<times> vault" where
  "update_device_name_handler h now user did name w =
     attempt (valid_length h ''device_name'' 1 (Some 200) (char_count name)) w (\<lambda>_.
     respond 204 (\<lambda>_. NoBody) (update_device_name now (au_user user) did name w))"

definition get_resume_info_handler :: "ext \<Rightarrow> authenticated_user \<Rightarrow> uuid \<Rightarrow> vault \<Rightarrow> api_response result \<times> vault" where
  "get_resume_info_handler x user vid w =
     respond 200 ResumeBody (get_resume_info x (au_user user) vid w, w)"

definition verify_chunk_handler :: "ext \<Rightarrow> timestamp \<Rightarrow> authenticated_user \<Rightarrow> verify_chunk_request \<Rightarrow> vault \<Rightarrow> api_response result \<times> vault" where
  "verify_chunk_handler x now user req w =
     respond 200 ChunkStatusBody (verify_chunk x now (au_user user) req w)"

subsection \<open>Accounts\<close>

text \<open>The handlers of \<open>signup_complete\<close> and \<open>login\<close> do not call \<open>validate\<close>. The body of a login is read and parsed by hand.\<close>

definition prelogin_handler :: "ext \<Rightarrow> auth_ext \<Rightarrow> settings \<Rightarrow> http_ext \<Rightarrow> string \<Rightarrow> vault \<Rightarrow> api_response result \<times> vault" where
  "prelogin_handler x y cfg h email w =
     attempt (check_email h email) w (\<lambda>_. (Inr \<lparr>rs_status = 200, rs_body = PreloginBody (prelogin x y cfg email w)\<rparr>, w))"

definition signup_init_handler :: "ext \<Rightarrow> auth_ext \<Rightarrow> settings \<Rightarrow> http_ext \<Rightarrow> timestamp \<Rightarrow> draws \<Rightarrow> string \<Rightarrow> vault \<Rightarrow> api_response result \<times> vault" where
  "signup_init_handler x y cfg h now dr email w =
     attempt (check_email h email) w (\<lambda>_.
     respond 200 SignupInitBody (signup_init x y cfg now (drawn_salt dr) (drawn_ids dr 0) email w))"

definition signup_complete_handler :: "ext \<Rightarrow> auth_ext \<Rightarrow> settings \<Rightarrow> timestamp \<Rightarrow> draws \<Rightarrow> signup_complete_request \<Rightarrow> vault \<Rightarrow> api_response result \<times> vault" where
  "signup_complete_handler x y cfg now dr req w =
     respond 201 AuthBody (signup_complete x y cfg now (drawn_hash_salts dr) (drawn_ids dr 0) (drawn_ids dr 1) (drawn_ids dr 2) (drawn_ids dr 3) req w)"

datatype raw_login = UnreadableBody | InvalidJson string | ParsedLogin login_request

definition login_handler :: "ext \<Rightarrow> auth_ext \<Rightarrow> settings \<Rightarrow> http_ext \<Rightarrow> timestamp \<Rightarrow> draws \<Rightarrow> header_map \<Rightarrow> raw_login \<Rightarrow> vault \<Rightarrow> api_response result \<times> vault" where
  "login_handler x y cfg h now dr headers raw w =
     (case raw of
        UnreadableBody \<Rightarrow> (Inl (BadRequest ''failed to read body''), w)
      | InvalidJson e \<Rightarrow> (Inl (BadRequest (''invalid JSON: '' @ e)), w)
      | ParsedLogin req \<Rightarrow> respond 200 AuthBody (login x y cfg now (drawn_ids dr 0) (drawn_ids dr 1) (drawn_ids dr 2) req
          (extract_client_ip h y headers) (extract_user_agent headers) w))"

definition refresh_handler :: "ext \<Rightarrow> auth_ext \<Rightarrow> settings \<Rightarrow> timestamp \<Rightarrow> draws \<Rightarrow> string \<Rightarrow> vault \<Rightarrow> api_response result \<times> vault" where
  "refresh_handler x y cfg now dr token w =
     respond 200 AuthBody (refresh x y cfg now (drawn_ids dr 0) (drawn_ids dr 1) token w)"

definition logout_handler :: "auth_ext \<Rightarrow> timestamp \<Rightarrow> authenticated_user \<Rightarrow> bool option \<Rightarrow> string option \<Rightarrow> vault \<Rightarrow> api_response result \<times> vault" where
  "logout_handler y now user revoke token w =
     respond 204 (\<lambda>_. NoBody) (logout y now (au_user user) (au_session user) (au_device user) (or_default False revoke) token w)"

definition change_password_handler :: "ext \<Rightarrow> auth_ext \<Rightarrow> settings \<Rightarrow> http_ext \<Rightarrow> timestamp \<Rightarrow> draws \<Rightarrow> authenticated_user \<Rightarrow> password_change_request \<Rightarrow> vault \<Rightarrow> api_response result \<times> vault" where
  "change_password_handler x y cfg h now dr user req w =
     attempt (valid_length h ''new_auth_key'' 1 None (char_count (pc_auth_key req))) w (\<lambda>_.
     respond 204 (\<lambda>_. NoBody) (change_password x y cfg now (fst (drawn_hash_salts dr)) (au_user user) (au_device user) req w))"

definition get_keys_handler :: "ext \<Rightarrow> authenticated_user \<Rightarrow> vault \<Rightarrow> api_response result \<times> vault" where
  "get_keys_handler x user w =
     respond 200 KeysBody (get_keys x (au_user user) w, w)"

definition update_profile_handler :: "auth_ext \<Rightarrow> timestamp \<Rightarrow> authenticated_user \<Rightarrow> update_profile_request \<Rightarrow> vault \<Rightarrow> api_response result \<times> vault" where
  "update_profile_handler y now user req w =
     respond 204 (\<lambda>_. NoBody) (update_profile y now (au_user user) req w)"

definition get_me_handler :: "authenticated_user \<Rightarrow> vault \<Rightarrow> api_response result \<times> vault" where
  "get_me_handler user w =
     respond 200 ProfileBody (get_user_profile (au_user user) w, w)"

subsection \<open>The event stream\<close>

text \<open>
  A client of the stream is a new receiver of the channel of its user; its first event says that
  it is connected. Then the received events are translated one by one; a receiver that fell
  behind gets the number of events it missed.
\<close>

datatype received = Received sync_event | Lagged nat

record sse_event =
  sse_name :: string
  sse_data :: json

definition sse_event_of :: "received \<Rightarrow> sse_event" where
  "sse_event_of r =
     (case r of
        Received e \<Rightarrow>
          \<lparr>sse_name = ev_resource_type e @ ''.'' @ ev_type e,
           sse_data = JObj [(''seq'', JInt (uint (ev_seq e))), (''resource_id'', JUuid (ev_resource_id e)), (''payload'', ev_payload e)]\<rparr>
      | Lagged n \<Rightarrow> \<lparr>sse_name = ''lagged'', sse_data = JObj [(''missed'', JInt (int n))]\<rparr>)"

definition stream_events :: "received list \<Rightarrow> sse_event list" where
  "stream_events rs =
     \<lparr>sse_name = ''connected'', sse_data = JObj [(''status'', JStr ''connected'')]\<rparr> # map sse_event_of rs"

definition sync_stream :: "uuid \<Rightarrow> vault \<Rightarrow> vault" where
  "sync_stream u w =
     (let w1 = sse_channel u w
      in w1\<lparr>sse_channels := upd (\<lambda>ch. fst ch = u) (\<lambda>ch. (fst ch, snd ch + 1)) (sse_channels w1)\<rparr>)"

definition sync_stream_handler :: "authenticated_user \<Rightarrow> vault \<Rightarrow> api_response result \<times> vault" where
  "sync_stream_handler user w = (Inr \<lparr>rs_status = 200, rs_body = EventStream\<rparr>, sync_stream (au_user user) w)"

end
