(* ===== verification/Accounts_Kept.thy ===== *)
theory Accounts_Kept
  imports Handlers
begin

text \<open>
  The operations on folders, files, versions, chunks and shares, and the background worker, leave
  the account tables alone: the counterpart of the contract of the account operations.
\<close>

subsection \<open>Building blocks\<close>

definition accounts_of :: "vault \<Rightarrow> user_row list \<times> device_row list \<times> session_row list" where
  "accounts_of w = (t_users w, t_devices w, t_sessions w)"

lemma accounts_auth: "accounts_of w' = accounts_of w \<Longrightarrow> auth_inv w' = auth_inv w"
  by (rule auth_inv_cong) (simp_all add: accounts_of_def)

named_theorems accounts_kept \<open>effects that leave the account tables alone\<close>

lemma accounts_tables [simp]:
  "accounts_of (w\<lparr>t_folders := a\<rparr>) = accounts_of w" "accounts_of (w\<lparr>t_files := b\<rparr>) = accounts_of w"
  "accounts_of (w\<lparr>t_versions := c\<rparr>) = accounts_of w" "accounts_of (w\<lparr>t_chunks := d\<rparr>) = accounts_of w"
  "accounts_of (w\<lparr>t_shares := e\<rparr>) = accounts_of w" "accounts_of (w\<lparr>t_pending := f\<rparr>) = accounts_of w"
  "accounts_of (w\<lparr>t_audit := g\<rparr>) = accounts_of w" "accounts_of (w\<lparr>sse_channels := h\<rparr>) = accounts_of w"
  "accounts_of (w\<lparr>event_seq := i\<rparr>) = accounts_of w" "accounts_of (w\<lparr>sse_sent := j\<rparr>) = accounts_of w"
  by (simp_all add: accounts_of_def)

lemma accounts_effects [simp]:
  "accounts_of (send_event u e w) = accounts_of w" "accounts_of (file_broadcast u e w) = accounts_of w"
  "accounts_of (broadcast_sync u e w) = accounts_of w" "accounts_of (audit_log_ok now o1 o2 ev meta w) = accounts_of w"
  "accounts_of (delete_objects_best_effort x ks w) = accounts_of w" "accounts_of (queue_deletions now o1 ks w) = accounts_of w"
  "accounts_of (delete_files P w) = accounts_of w" "accounts_of (delete_versions Q w) = accounts_of w"
  "accounts_of (delete_chunks R w) = accounts_of w" "accounts_of (delete_folders S w) = accounts_of w"
  "accounts_of (trash_files_in now ids w) = accounts_of w" "accounts_of (trash_folders now ids w) = accounts_of w"
  "accounts_of (untrash_files now T w) = accounts_of w" "accounts_of (untrash_folders now S w) = accounts_of w"
  "accounts_of (set_current vid fid w) = accounts_of w" "accounts_of (activate_version now vid fid w) = accounts_of w"
  by (simp_all add: accounts_of_def delete_folders_def trash_files_in_def trash_folders_def untrash_files_def
      untrash_folders_def set_current_def activate_version_def Let_def)

lemma accounts_inserts [accounts_kept]:
  "insert_folder a w = Inr w' \<Longrightarrow> accounts_of w' = accounts_of w" "insert_file b w = Inr w' \<Longrightarrow> accounts_of w' = accounts_of w"
  "insert_version c w = Inr w' \<Longrightarrow> accounts_of w' = accounts_of w" "insert_chunk d w = Inr w' \<Longrightarrow> accounts_of w' = accounts_of w"
  "insert_share e w = Inr w' \<Longrightarrow> accounts_of w' = accounts_of w" "audit_log now o1 o2 ev meta w = Inr w' \<Longrightarrow> accounts_of w' = accounts_of w"
  by (auto dest: insert_folder_Inr(1) insert_file_Inr(1) insert_version_Inr(1) insert_chunk_Inr(1) insert_share_Inr audit_log_Inr)

lemma accounts_attempt [intro!]:
  "accounts_of w = A \<Longrightarrow> (\<And>a. r = Inr a \<Longrightarrow> accounts_of (snd (k a)) = A) \<Longrightarrow> accounts_of (snd (attempt r w k)) = A"
  "accounts_of w = A \<Longrightarrow> (\<And>a. s = Inr a \<Longrightarrow> accounts_of (snd (k' a)) = A) \<Longrightarrow> accounts_of (snd (attempt_sql s w k')) = A"
  by (cases r; simp) (cases s; simp)

lemma accounts_chunks [accounts_kept]:
  "insert_chunks x now gen u fid vid hash i cs w = Inr w' \<Longrightarrow> accounts_of w' = accounts_of w"
  by (induction cs arbitrary: i w) (auto dest: accounts_inserts)

lemma accounts_hard_delete [simp]: "accounts_of (snd (hard_delete_files now fids o1 w)) = accounts_of w"
  by (simp add: hard_delete_files_def Let_def)

subsection \<open>Folders\<close>

lemma accounts_create_folder [simp]: "accounts_of (snd (create_folder x now i u req w)) = accounts_of w"
  by (auto simp: create_folder_def Let_def dest: accounts_kept)

lemma accounts_create_folders [simp]: "accounts_of (snd (create_folders_bulk x now gen u reqs w)) = accounts_of w"
proof -
  have case_snd: "snd (case p of (Inl e, w3) \<Rightarrow> (Inl e, w3) | (Inr rs, w3) \<Rightarrow> (Inr (resp # rs), w3)) = snd p"
    for p :: "folder_response list result \<times> vault" and resp
    by (cases p; cases "fst p") auto
  have "accounts_of (snd (create_folders_loop x now gen u i reqs w0 w)) = accounts_of w" if "accounts_of w0 = accounts_of w" for i w0 w
    using that
  proof (induction reqs arbitrary: i w)
    case (Cons r rs)
    then show ?case by (auto simp: Let_def roll_back_def case_snd dest!: accounts_kept)
  qed simp
  then show ?thesis by (simp add: create_folders_bulk_def)
qed

lemma accounts_update_folder: "update_folder x now u fid req w = Some (r, w') \<Longrightarrow> accounts_of w' = accounts_of w"
  by (auto simp: update_folder_def Let_def split: sum.splits option.splits if_splits)

lemma accounts_move_folder: "move_folder x now u fid target w = Some (r, w') \<Longrightarrow> accounts_of w' = accounts_of w"
  by (auto simp: move_folder_def Let_def split: sum.splits option.splits if_splits)

lemma accounts_folder_trash [simp]:
  "accounts_of (snd (delete_folder now u fid w)) = accounts_of w"
  "accounts_of (snd (restore_folder now u fid w)) = accounts_of w"
  by (simp_all add: delete_folder_def restore_folder_def Let_def split: option.split)

lemma accounts_permanent_delete_folder [simp]: "accounts_of (snd (permanent_delete_folder x now u fid w)) = accounts_of w"
proof -
  obtain a b w1 where hd: "hard_delete_files now (map f_id (filter (\<lambda>f. opt_in (f_folder f) (subtree w [fid] u) \<and> f_user f = u) (t_files w))) (Some u) w = ((a, b), w1)"
    by (metis surj_pair)
  then have "accounts_of w1 = accounts_of w" by (metis accounts_hard_delete snd_conv)
  then show ?thesis by (auto simp: permanent_delete_folder_def Let_def hd split: option.split dest!: accounts_kept)
qed

subsection \<open>Files\<close>

lemma accounts_create_file [simp]: "accounts_of (snd (create_file x now fid vid gen u d req w)) = accounts_of w"
proof -
  have tx: "create_file_tx x now fid vid gen u d req w1 = Inr w2 \<Longrightarrow> accounts_of w2 = accounts_of w1" for w1 w2
    by (auto simp: create_file_tx_def dest!: accounts_kept)
  show ?thesis by (auto simp: create_file_def Let_def split: dedup.split dest!: tx)
qed

lemma accounts_create_version [simp]: "accounts_of (snd (create_version x now vid gen u d fid req w)) = accounts_of w"
proof -
  have tx: "create_version_tx x now vid gen u d fid hash req w1 = Inr w2 \<Longrightarrow> accounts_of w2 = accounts_of w1" for hash w1 w2
    by (auto simp: create_version_tx_def dest!: accounts_kept)
  show ?thesis by (auto simp: create_version_def split: option.split dest!: tx)
qed

lemma accounts_complete_upload [simp]: "accounts_of (snd (complete_upload now u d req w)) = accounts_of w"
  by (auto simp: complete_upload_def Let_def split: option.split dest!: accounts_kept)

lemma accounts_cancel_upload [simp]: "accounts_of (snd (cancel_upload x now u fid vid w)) = accounts_of w"
  by (auto simp: cancel_upload_def Let_def split: option.split)

lemma accounts_bulk_cancel [simp]: "accounts_of (snd (bulk_cancel_uploads x now u ts w)) = accounts_of w"
proof -
  have "accounts_of (snd (bulk_cancel_loop x now u ts n w)) = accounts_of w" for n w
  proof (induction ts arbitrary: n w)
    case (Cons t ts)
    obtain fid vid where "t = (fid, vid)" by (cases t)
    moreover have "accounts_of w1 = accounts_of w" if "cancel_upload x now u fid vid w = (r, w1)" for r w1
      by (metis accounts_cancel_upload snd_conv that)
    ultimately show ?case by (auto simp: Cons split: prod.split sum.split)
  qed simp
  then show ?thesis by (simp add: bulk_cancel_uploads_def case_prod_beta)
qed

lemma accounts_bulk_init [simp]: "accounts_of (snd (bulk_init_uploads x now ids gen u d reqs w)) = accounts_of w"
proof -
  have one: "bulk_init_one x now fid vid g u d req w = Inr (r, w') \<Longrightarrow> accounts_of w' = accounts_of w" for fid vid g req w r w'
    by (auto simp: bulk_init_one_def dest!: accounts_kept)
  have "bulk_init_loop x now ids gen u d i reqs w = Inr (rs, w') \<Longrightarrow> accounts_of w' = accounts_of w" for i w rs w'
    by (induction reqs arbitrary: i w rs) (fastforce dest: one)+
  then show ?thesis by (auto simp: bulk_init_uploads_def)
qed

lemma accounts_bulk_complete [simp]: "accounts_of (snd (bulk_complete_uploads x now u d items w)) = accounts_of w"
proof -
  have hashes: "accounts_of (snd (set_chunk_hashes x vid hs w)) = accounts_of w" for vid hs w
    by (induction hs arbitrary: w) (auto simp: attempt_def split: sum.split)
  have "accounts_of (snd (bulk_complete_loop x now u d items a b w)) = accounts_of w" for a b w
  proof (induction items arbitrary: a b w)
    case (Cons it items)
    have step: "set_chunk_hashes x vid hs w1 = (r, w2) \<Longrightarrow> accounts_of w1 = accounts_of w \<Longrightarrow> accounts_of w2 = accounts_of w"
      "complete_upload now u d req w2 = (q, w3) \<Longrightarrow> accounts_of w3 = accounts_of w2" for vid hs w1 r w2 req q w3
      using hashes [of vid hs w1] accounts_complete_upload [of now u d req w2] by auto
    show ?case
      by (auto simp: Let_def Cons split: prod.split sum.split dest!: step)
  qed simp
  then show ?thesis by (simp add: bulk_complete_uploads_def)
qed

lemma accounts_update_file [simp]:
  "accounts_of (snd (update_file x now u fid req w)) = accounts_of w"
  "accounts_of (snd (move_file x now u d fid target w)) = accounts_of w"
  by (auto simp: update_file_def move_file_def Let_def split: option.split)

lemma accounts_versions [simp]:
  "accounts_of (snd (restore_version now u d fid vid w)) = accounts_of w"
  "accounts_of (snd (delete_version x now u fid vid w)) = accounts_of w"
  by (auto simp: restore_version_def delete_version_def Let_def split: option.split dest!: accounts_kept)

lemma accounts_file_trash [simp]:
  "accounts_of (snd (delete_file now u d fid w)) = accounts_of w"
  "accounts_of (snd (restore_file now u fid w)) = accounts_of w"
  by (auto simp: delete_file_def restore_file_def Let_def dest!: accounts_kept)

lemma hard_delete_accounts: "hard_delete_files now fids o1 w = (a, w') \<Longrightarrow> accounts_of w' = accounts_of w"
  by (metis accounts_hard_delete snd_conv)

lemma accounts_purges [simp]:
  "accounts_of (snd (permanently_delete_file x now u fid w)) = accounts_of w"
  "accounts_of (snd (empty_trash x now u w)) = accounts_of w"
  "accounts_of (snd (user_cleanup_orphaned_versions x now u hrs w)) = accounts_of w"
  by (auto simp: permanently_delete_file_def empty_trash_def user_cleanup_orphaned_versions_def Let_def
      split: option.split prod.split dest!: hard_delete_accounts accounts_kept)

lemma accounts_bulk_delete [simp]: "accounts_of (snd (bulk_delete x now u d req w)) = accounts_of w"
proof -
  have "bulk_purge now u req ids w = (ks, w1) \<Longrightarrow> accounts_of w1 = accounts_of w" for ids ks w1
    by (auto simp: bulk_purge_def Let_def split: prod.splits if_splits dest!: hard_delete_accounts)
  moreover have "accounts_of (bulk_trash now u req ids w) = accounts_of w" for ids
    by (simp add: bulk_trash_def Let_def)
  ultimately show ?thesis by (fastforce simp: bulk_delete_def Let_def split: prod.split if_splits dest: accounts_kept)
qed

subsection \<open>Shares, chunks and the worker\<close>

lemma accounts_shares [simp]:
  "accounts_of (snd (create_share x now sid u item req w)) = accounts_of w"
  "accounts_of (snd (revoke_share now u sid w)) = accounts_of w"
  "accounts_of (snd (get_share x now sid au w)) = accounts_of w"
  by (auto simp: create_share_def revoke_share_def get_share_def Let_def split: option.split dest!: accounts_kept)

lemma accounts_verify_chunk [simp]: "accounts_of (snd (verify_chunk x now u req w)) = accounts_of w"
  by (auto simp: verify_chunk_def Let_def split: option.split)

lemma accounts_sync [simp]: "accounts_of (sync_stream u w) = accounts_of w"
  by (simp add: sync_stream_def sse_channel_def Let_def)

lemma accounts_tick [simp]: "accounts_of (cleanup_tick hrs tick w) = accounts_of w"
proof -
  obtain x now where tick: "tick = (x, now)" by (cases tick)
  let ?w1 = "snd (cleanup_orphaned_versions x now hrs w)"
  have "accounts_of ?w1 = accounts_of w" by (simp add: cleanup_orphaned_versions_def Let_def)
  moreover have "accounts_of (snd (retry_pending_storage_deletions x now ?w1)) = accounts_of ?w1"
  proof -
    obtain q w2 where d: "delete_objects x (retry_batch ?w1) ?w1 = (q, w2)" by fastforce
    obtain sent where "w2 = ?w1\<lparr>r2_deletes := r2_deletes ?w1 @ sent\<rparr>" using delete_objects_frame [OF d] by blast
    then show ?thesis
      using d by (cases q) (auto simp: retry_pending_storage_deletions_def Let_def record_attempt_def accounts_of_def)
  qed
  ultimately show ?thesis by (simp add: tick cleanup_tick_def)
qed

end
