(* ===== verification/Boundary_Properties.thy ===== *)
theory Boundary_Properties
  imports Completion_Properties
begin

text \<open>
  The bulk forms of the upload and folder services take identifiers from the request without
  checking whom they belong to. For each form: what holds when the identifiers are the
  caller's own, and a concrete request that shows the check is missing.
\<close>

subsection \<open>Bulk completion\<close>

text \<open>Who owns which version depends on this view of the tables only.\<close>

definition own_view :: "vault \<Rightarrow> (uuid \<times> uuid) list \<times> (uuid \<times> uuid) list" where
  "own_view w = (map (\<lambda>v. (v_id v, v_file v)) (t_versions w), map (\<lambda>f. (f_id f, f_user f)) (t_files w))"

lemma owner_version_view:
  assumes "own_view w' = own_view w"
  shows "owner_version w' u vid = owner_version w u vid"
proof -
  have "owner_version w u vid \<longleftrightarrow> (\<exists>fid. (vid, fid) \<in> set (fst (own_view w)) \<and> (fid, u) \<in> set (snd (own_view w)))" for w
    by (force simp: owner_version_def owner_file_def own_view_def)
  then show ?thesis by (simp add: assms)
qed

lemma own_view_upd_versions [simp]:
  "(\<And>v. v_id (g v) = v_id v \<and> v_file (g v) = v_file v) \<Longrightarrow> own_view (w\<lparr>t_versions := upd P g (t_versions w)\<rparr>) = own_view w"
  by (simp add: own_view_def map_upd_keep)

lemma own_view_upd_files [simp]:
  "(\<And>f. f_id (g f) = f_id f \<and> f_user (g f) = f_user f) \<Longrightarrow> own_view (w\<lparr>t_files := upd P g (t_files w)\<rparr>) = own_view w"
  by (simp add: own_view_def map_upd_keep)

lemma own_view_chunks [simp]: "own_view (w\<lparr>t_chunks := cs\<rparr>) = own_view w"
  by (simp add: own_view_def)

lemma own_view_same: "same_tables w w' \<Longrightarrow> own_view w' = own_view w"
  by (simp add: own_view_def same_tablesD)

lemma own_view_complete:
  assumes "complete_upload t u d req w = (res, w')"
  shows "own_view w' = own_view w"
  using assms
proof (cases rule: complete_upload_cases)
  case (partial v ev meta e)
  then show ?thesis using own_view_same [OF audit_log_frame] by (metis marked_def own_view_chunks)
next
  case (complete v w2 ev meta ev')
  have "own_view w' = own_view w2" using complete by (simp add: own_view_def)
  also have "\<dots> = own_view (activate_version t (co_version req) (v_file v) (marked t req w))"
    using complete own_view_same [OF audit_log_frame] by blast
  also have "\<dots> = own_view w" by (simp add: own_view_def activate_version_def marked_def map_upd_keep)
  finally show ?thesis .
qed simp

lemma set_chunk_hashes_good:
  "set_chunk_hashes x vid hs w = (r, w') \<Longrightarrow> system_inv now w \<Longrightarrow> owner_version w u vid \<Longrightarrow>
     good_step now u w w' \<and> own_view w' = own_view w"
proof (induction hs arbitrary: w)
  case (Cons h hs)
  obtain i b where h: "h = (i, b)" by (cases h)
  from Cons.prems(1) [unfolded h set_chunk_hashes.simps] show ?case
  proof (elim attempt_cases)
    fix bs :: bytes
    let ?w1 = "w\<lparr>t_chunks := upd (\<lambda>c. c_version c = vid \<and> c_index c = i) (\<lambda>c. c\<lparr>c_blake3 := bs\<rparr>) (t_chunks w)\<rparr>"
    assume run: "set_chunk_hashes x vid hs ?w1 = (r, w')"
    have g: "good_step now u w ?w1" by (rule upd_chunks_good [OF Cons.prems(2)]) (use Cons.prems(3) in auto)
    have "owner_version ?w1 u vid" using owner_version_view [of ?w1 w] Cons.prems(3) by simp
    with Cons.IH [OF run good_step_system [OF g]] g show ?thesis by (auto intro: good_step_trans)
  qed (use Cons.prems(2) in \<open>auto intro: good_step_refl\<close>)
qed (auto intro: good_step_refl)

lemma bulk_item_good:
  fixes w :: vault and header hash key key_nonce :: bytes
  assumes sys: "system_inv now w" and own: "owner_version w u vid"
  defines "w1 \<equiv> w\<lparr>t_versions := upd (\<lambda>v. v_id v = vid)
      (\<lambda>v. v\<lparr>v_header := header, v_blake3 := hash, v_key := Some key, v_key_nonce := Some key_nonce\<rparr>) (t_versions w)\<rparr>"
  defines "w2 \<equiv> w1\<lparr>t_files := upd (\<lambda>f. f_current f = Some vid) (\<lambda>f. f\<lparr>f_blake3 := hash\<rparr>) (t_files w1)\<rparr>"
  shows "good_step now u w w2" "own_view w2 = own_view w"
proof -
  note inv = system_invD(1) [OF sys]
  have v1: "vault_inv w1" unfolding w1_def by (rule upd_versions_inv [OF inv]) auto
  have o1: "own_view w1 = own_view w" by (simp add: w1_def)
  show o2: "own_view w2 = own_view w" unfolding w2_def by (simp add: o1)
  have ov: "owner_file w u (v_file v)" if "v \<in> set (t_versions w)" "v_id v = vid" for v
  proof -
    obtain v0 where v0: "v0 \<in> set (t_versions w)" "v_id v0 = vid" "owner_file w u (v_file v0)"
      using own by (auto simp: owner_version_def)
    have "v = v0" by (rule ukeyD [OF vault_invD(3) [OF inv] that(1) v0(1)]) (simp add: that(2) v0(2))
    with v0(3) show ?thesis by simp
  qed
  have "isolated u w w1" unfolding w1_def by (rule upd_versions_isolated [OF inv]) (use ov in auto)
  moreover have "isolated u w1 w2" unfolding w2_def
  proof (rule upd_files_isolated)
    fix f assume f: "f \<in> set (t_files w1)" "f_current f = Some vid"
    then have f': "f \<in> set (t_files w)" by (simp add: w1_def)
    obtain v where v: "v \<in> set (t_versions w)" "v_id v = vid" using own by (auto simp: owner_version_def)
    have "v_file v = f_id f" by (rule current_okD [OF vault_invD(12) [OF inv] f' v(1)]) (use f(2) v(2) in simp_all)
    with ov [OF v] owner_row [OF inv _ f'] show "f_user f = u" by metis
  qed simp_all
  ultimately have iso: "isolated u w w2" by (rule isolated_trans)
  have "vault_inv w2" unfolding w2_def by (rule upd_files_inv [OF v1]) auto
  moreover have "tree_inv w2"
    by (rule tree_inv_mono [OF _ _ system_invD(2) [OF sys]]) (simp_all add: w1_def w2_def image_upd_keep file_view_def)
  moreover have "clock_ok now w2"
    by (rule clock_ok_upd [OF system_invD(3) [OF sys], where P = "\<lambda>_. False" and Q = "\<lambda>f. f_current f = Some vid"
          and g = id and h = "\<lambda>f. f\<lparr>f_blake3 := hash\<rparr>"])
      (simp_all add: w1_def w2_def upd_none)
  moreover have "keys_safe w w2" by (rule keys_safe_cong) (simp_all add: w1_def w2_def)
  ultimately show "good_step now u w w2" using iso by (simp add: good_step_def system_inv_def)
qed

lemma bulk_complete_loop_good:
  "bulk_complete_loop x t u d its dn fl w = (r, w') \<Longrightarrow> system_inv now w \<Longrightarrow>
     (\<And>it. it \<in> set its \<Longrightarrow> owner_version w u (bc_version it)) \<Longrightarrow> good_step now u w w'"
proof (induction its arbitrary: dn fl w)
  case (Cons it its)
  note sys = Cons.prems(2) and own = Cons.prems(3)
  from Cons.prems(1) show ?case
    unfolding bulk_complete_loop.simps
  proof (elim attempt_cases)
    fix hash header key key_nonce
    let ?w1 = "w\<lparr>t_versions := upd (\<lambda>v. v_id v = bc_version it)
                   (\<lambda>v. v\<lparr>v_header := header, v_blake3 := hash, v_key := Some key, v_key_nonce := Some key_nonce\<rparr>)
                   (t_versions w)\<rparr>"
    let ?w2 = "?w1\<lparr>t_files := upd (\<lambda>f. f_current f = Some (bc_version it)) (\<lambda>f. f\<lparr>f_blake3 := hash\<rparr>) (t_files ?w1)\<rparr>"
    have g2: "good_step now u w ?w2" and o2: "own_view ?w2 = own_view w"
      by (rule bulk_item_good [OF sys own]; simp)+
    assume run: "(let w1 = ?w1; w2 = w1\<lparr>t_files := upd (\<lambda>f. f_current f = Some (bc_version it)) (\<lambda>f. f\<lparr>f_blake3 := hash\<rparr>) (t_files w1)\<rparr>
      in case set_chunk_hashes x (bc_version it) (bc_hashes it) w2 of
          (Inl e, w3) \<Rightarrow> (Inl e, w3)
        | (Inr _, w3) \<Rightarrow>
            (case complete_upload t u d \<lparr>co_version = bc_version it, co_etags = bc_etags it\<rparr> w3 of
               (Inr _, w4) \<Rightarrow> bulk_complete_loop x t u d its (dn @ [bc_version it]) fl w4
             | (Inl _, w4) \<Rightarrow> bulk_complete_loop x t u d its dn (fl @ [bc_version it]) w4)) = (r, w')"
    obtain r3 w3 where h: "set_chunk_hashes x (bc_version it) (bc_hashes it) ?w2 = (r3, w3)" by force
    have "owner_version ?w2 u (bc_version it)" using owner_version_view [OF o2] own by simp
    from set_chunk_hashes_good [OF h good_step_system [OF g2] this]
    have g3: "good_step now u w w3" and o3: "own_view w3 = own_view w" using g2 o2 by (auto intro: good_step_trans)
    obtain r4 w4 where c: "complete_upload t u d \<lparr>co_version = bc_version it, co_etags = bc_etags it\<rparr> w3 = (r4, w4)" by force
    have g4: "good_step now u w w4"
      using g3 complete_upload_good [OF good_step_system [OF g3] c] by (rule good_step_trans)
    have o4: "owner_version w4 u i = owner_version w u i" for i
      by (rule owner_version_view) (simp add: own_view_complete [OF c] o3)
    have rest: "good_step now u w w'" if "bulk_complete_loop x t u d its dn' fl' w4 = (r, w')" for dn' fl'
      using Cons.IH [OF that good_step_system [OF g4]] own g4 by (auto simp: o4 intro: good_step_trans)
    show "good_step now u w w'"
      using run g3 rest unfolding Let_def h prod.case c by (cases r3; cases r4) auto
  qed (use sys in \<open>auto intro: good_step_refl\<close>)
qed (auto intro: good_step_refl)

text \<open>
  A bulk completion whose versions all belong to the caller keeps the invariant of the
  system, touches no row of another user and loses no object key, whatever it answers.
\<close>

theorem bulk_complete_own_versions:
  assumes "system_inv now w" and "\<forall>it\<in>set items. owner_version w u (bc_version it)"
    and "bulk_complete_uploads x t u d items w = (res, w')"
  shows "good_step now u w w'"
  using bulk_complete_loop_good [of x t u d items "[]" "[]" w res w' now] assms by (auto simp: bulk_complete_uploads_def)

definition sample_item :: "uuid \<Rightarrow> bulk_complete_item" where
  "sample_item vid =
     \<lparr>bc_file = 30, bc_version = vid, bc_etags = [(0, ''e'')], bc_blake3 = replicate 32 CHR ''1'', bc_header = replicate 24 CHR ''1'',
      bc_hashes = [(0, replicate 32 CHR ''1'')], bc_key = ''101'', bc_key_nonce = ''01''\<rparr>"

theorem bulk_complete_own_versions_witness:
  "\<exists>w'. bulk_complete_uploads sample_ext 9 1 7 [sample_item 42] sample_vault = (Inr \<lparr>br_completed = [42], br_failed = []\<rparr>, w') \<and>
     good_step 9 1 sample_vault w'"
proof -
  have ok: "fst (bulk_complete_uploads sample_ext 9 1 7 [sample_item 42] sample_vault) = Inr \<lparr>br_completed = [42], br_failed = []\<rparr>"
    by code_simp
  have "owner_version sample_vault 1 42" by code_simp
  then have "\<forall>it\<in>set [sample_item 42]. owner_version sample_vault 1 (bc_version it)" by (simp add: sample_item_def)
  from bulk_complete_own_versions [OF system_inv_later [OF sample_system] this run_ok [OF ok]] run_ok [OF ok] show ?thesis by auto
qed

text \<open>
  Nothing checks that they do: user 2 reports the completion of a version of user 1, the
  request fails to complete it - and has replaced its wrapped key, header and hashes.
\<close>

theorem bulk_complete_foreign_version:
  "\<exists>w'. bulk_complete_uploads sample_ext 9 2 8 [sample_item 40] sample_vault = (Inr \<lparr>br_completed = [], br_failed = [40]\<rparr>, w') \<and>
     owner_version sample_vault 1 40 \<and> \<not> isolated 2 sample_vault w' \<and>
     map v_key (filter (\<lambda>v. v_id v = 40) (t_versions w')) = [b64_decode sample_ext ''101'']"
proof -
  let ?run = "bulk_complete_uploads sample_ext 9 2 8 [sample_item 40] sample_vault"
  have ok: "fst ?run = Inr \<lparr>br_completed = [], br_failed = [40]\<rparr>" by code_simp
  have own: "owner_version sample_vault 1 40" by code_simp
  have key: "map v_key (filter (\<lambda>v. v_id v = 40) (t_versions (snd ?run))) = [b64_decode sample_ext ''101'']" by code_simp
  have "map v_key (fst (snd (snd (user_rows (snd ?run) 1)))) \<noteq> map v_key (fst (snd (snd (user_rows sample_vault 1))))" by code_simp
  then have "user_rows (snd ?run) 1 \<noteq> user_rows sample_vault 1" by (rule contrapos_nn) (rule arg_cong)
  then have "\<not> isolated 2 sample_vault (snd ?run)" unfolding isolated_def
    by (intro notI) (erule notE, drule spec [of _ 1], simp)
  then show ?thesis by (rule_tac exI [of _ "snd ?run"]) (rule conjI [OF run_ok [OF ok] conjI [OF own conjI [OF _ key]]])
qed


subsection \<open>Bulk initialisation\<close>

text \<open>
  A bulk initialisation into live folders of the caller (or the root) keeps the invariant
  of the system, touches no row of another user and loses no object key.
\<close>

theorem bulk_init_own_folders:
  assumes "system_inv now w"
    and "\<forall>req\<in>set reqs. \<forall>p. cf_folder req = Some p \<longrightarrow> has_row (live_folder p u) (t_folders w)"
    and "bulk_init_uploads x t ids gen u d reqs w = (res, w')"
  shows "good_step now u w w'"
proof (cases res)
  case (Inl e)
  with assms(1,3) bulk_init_uploads_err show ?thesis by (metis good_step_refl)
next
  case (Inr rs)
  from assms(3) [unfolded Inr] have "bulk_init_loop x t ids gen u d 0 reqs w = Inr (rs, w')" by (rule bulk_init_uploads_ok)
  then show ?thesis using assms(1,2) by (intro bulk_init_loop_good) auto
qed

lemma bulk_init_runs:
  assumes "bulk_total x 0 reqs = Inr tot" and "current_usage w u = Inr usage" and "within_quota usage tot" and "require_r2 x = Inr ()"
    and "\<not> isl (bulk_init_loop x t ids gen u d 0 reqs w)"
  shows "bulk_init_uploads x t ids gen u d reqs w =
     (Inr (fst (projr (bulk_init_loop x t ids gen u d 0 reqs w))), snd (projr (bulk_init_loop x t ids gen u d 0 reqs w)))"
  using assms by (cases "bulk_init_loop x t ids gen u d 0 reqs w") (auto simp: bulk_init_uploads_def check_that_def)

lemma sample_bulk_total: "bulk_total sample_ext 0 [sample_request (Some 11) 7 [20, 21]] = Inr 7"
  by code_simp

theorem bulk_init_own_folders_witness:
  "\<exists>rs w'. bulk_init_uploads sample_ext 9 (\<lambda>i. (33, 44)) (\<lambda>i k. 60 + k) 1 7 [sample_request (Some 11) 7 [20, 21]] sample_vault = (Inr rs, w') \<and>
     good_step 9 1 sample_vault w'"
proof -
  have "current_usage sample_vault 1 = Inr 5" "within_quota 5 7" "require_r2 sample_ext = Inr ()"
    "\<not> isl (bulk_init_loop sample_ext 9 (\<lambda>i. (33, 44)) (\<lambda>i k. 60 + k) 1 7 0 [sample_request (Some 11) 7 [20, 21]] sample_vault)"
    by code_simp+
  note run = bulk_init_runs [OF sample_bulk_total this]
  have "has_row (live_folder 11 1) (t_folders sample_vault)" by code_simp
  then have "\<forall>req\<in>set [sample_request (Some 11) 7 [20, 21]]. \<forall>p. cf_folder req = Some p \<longrightarrow> has_row (live_folder p 1) (t_folders sample_vault)"
    by (simp add: sample_request_def)
  from bulk_init_own_folders [OF system_inv_later [OF sample_system] this run] run show ?thesis by auto
qed

text \<open>
  Nothing checks the folder: user 2 initialises an upload into a folder of user 1. The file
  then belongs to another user than its folder, and when user 1 trashes the folder, the file of
  user 2 is trashed with it.
\<close>

theorem bulk_init_foreign_folder:
  "\<exists>rs w'. bulk_init_uploads sample_ext 9 (\<lambda>i. (33, 44)) (\<lambda>i k. 60 + k) 2 8 [sample_request (Some 11) 7 [20, 21]] sample_vault = (Inr rs, w') \<and>
     \<not> tenant_ok w' \<and> \<not> isolated 1 w' (snd (delete_folder 10 1 11 w'))"
proof -
  let ?loop = "bulk_init_loop sample_ext 9 (\<lambda>i. (33, 44)) (\<lambda>i k. 60 + k) 2 8 0 [sample_request (Some 11) 7 [20, 21]] sample_vault"
  have "current_usage sample_vault 2 = Inr 5" "within_quota 5 7" "require_r2 sample_ext = Inr ()" "\<not> isl ?loop" by code_simp+
  note run = bulk_init_runs [OF sample_bulk_total this]
  let ?w' = "snd (projr ?loop)"
  have "has_row (\<lambda>f. f_user f = 2 \<and> f_folder f = Some 11) (t_files ?w') \<and> has_row (\<lambda>fo. fo_id fo = 11 \<and> fo_user fo = 1) (t_folders ?w')"
    by code_simp
  then have tn: "\<not> tenant_ok ?w'" by (force simp: tenant_ok_def)
  have "map f_deleted_at (fst (snd (user_rows (snd (delete_folder 10 1 11 ?w')) 2))) \<noteq> map f_deleted_at (fst (snd (user_rows ?w' 2)))"
    by code_simp
  then have "user_rows (snd (delete_folder 10 1 11 ?w')) 2 \<noteq> user_rows ?w' 2" by (rule contrapos_nn) (rule arg_cong)
  then have iso: "\<not> isolated 1 ?w' (snd (delete_folder 10 1 11 ?w'))" unfolding isolated_def
    by (intro notI) (erule notE, drule spec [of _ 2], simp)
  show ?thesis by (rule exI, rule exI, rule conjI [OF run conjI [OF tn iso]])
qed


subsection \<open>Bulk creation of folders\<close>

definition sample_folder_request :: "uuid option \<Rightarrow> uuid option \<Rightarrow> create_folder_request" where
  "sample_folder_request i parent =
     \<lparr>cfr_metadata = ''1'', cfr_nonce = replicate 24 CHR ''1'', cfr_parent = parent, cfr_folder_id = i\<rparr>"

text \<open>
  The bulk creation of folders takes identifier and parent from the request, so a folder can
  be created as its own parent. The hierarchy is then no forest, and the recursive query of the
  tree listing of the folder never returns.
\<close>

theorem create_folders_bulk_cycle:
  "\<exists>rs w'. create_folders_bulk sample_ext 9 gen 1 [sample_folder_request (Some 15) (Some 15)] sample_vault = (Inr rs, w') \<and>
     \<not> forest w' \<and> get_folder_file_tree sample_ext 1 15 w' = None"
proof -
  let ?run = "create_folders_bulk sample_ext 9 gen 1 [sample_folder_request (Some 15) (Some 15)] sample_vault"
  let ?w' = "snd ?run"
  obtain rs where run: "?run = (Inr rs, ?w')"
  proof -
    have "\<not> isl (fst ?run)" by code_simp
    then show thesis using that by (cases "fst ?run") (auto dest: run_ok)
  qed
  have "has_row (\<lambda>fo. fo_id fo = 15 \<and> fo_parent fo = Some 15) (t_folders ?w')" by code_simp
  then have "(15, 15) \<in> child_rel ?w'" by (auto simp: child_rel_def)
  then have forest: "\<not> forest ?w'" by (auto simp: forest_def acyclic_def)
  have edges: "child_edges (\<lambda>fo. fo_deleted_at fo = None) (t_folders ?w') = [(10, 11), (15, 15)]" by code_simp
  have start: "map fo_id (filter (live_folder 15 1) (t_folders ?w')) = [15]" by code_simp
  have own: "verify_folder_ownership ?w' 15 1 = Inr ()" by code_simp
  have loop: "rec_union_all [(10, 11), (15, 15)] [] [15] = (None :: nat list option)"
    by (rule rec_union_all_diverges [of 15 _ 15]) auto
  have "get_folder_file_tree sample_ext 1 15 ?w' = None"
    unfolding get_folder_file_tree_def edges start own loop by simp
  with forest show ?thesis by (rule_tac exI, rule_tac exI) (rule conjI [OF run conjI])
qed

end
