(* ===== verification/Api.thy ===== *)
theory Api
  imports Accounts_Kept Boundary_Properties
begin

text \<open>
  The server as a whole: the protected routes behind \<open>require_auth\<close>, the public routes behind the
  limiter of \<open>rate_limit_auth\<close>, and the background worker, as the steps of one state machine over
  the state of the vault. \<open>src/lib.rs\<close> and the \<open>routes.rs\<close> files put them together.
\<close>

subsection \<open>Requests\<close>

text \<open>One constructor per route, with the parsed parameters of the request.\<close>

datatype protected_request =
    CreateFile create_file_request
  | CreateVersion uuid create_file_request
  | GetFile uuid
  | ListFiles list_files_query
  | UpdateFile uuid update_file_request
  | CompleteUpload uuid complete_upload_request
  | GetDownloadManifest uuid "uuid option"
  | DeleteFile uuid
  | ListVersions uuid
  | RestoreVersion uuid uuid
  | BulkDelete bulk_delete_request
  | RestoreFile uuid
  | PermanentDeleteFile uuid
  | PrecheckUpload string int
  | CancelUpload uuid uuid
  | CleanupOrphanedUploads
  | BulkCancelUploads "(uuid \<times> uuid) list"
  | BulkInitUploads "create_file_request list"
  | BulkCompleteUploads "bulk_complete_item list"
  | CreateShare uuid create_share_request
  | RevokeShare uuid
  | ListShares
  | DeleteVersion uuid uuid
  | EmptyTrash
  | MoveFile uuid "uuid option"
  | CreateFolder create_folder_request
  | GetFolder uuid
  | ListFolders list_folders_query
  | UpdateFolder uuid update_folder_request
  | DeleteFolder uuid
  | CreateFoldersBulk "create_folder_request list"
  | GetFolderFileTree uuid
  | PermanentDeleteFolder uuid
  | RestoreFolder uuid
  | MoveFolder uuid "uuid option"
  | GetFolderPath uuid
  | ListDevices
  | ListSessions
  | RevokeDevice uuid
  | UpdateDeviceName uuid string
  | GetResumeInfo uuid
  | VerifyChunk verify_chunk_request
  | Logout "bool option" "string option"
  | ChangePassword password_change_request
  | GetKeys
  | UpdateProfile update_profile_request
  | GetMe
  | UploadAvatar "form_field list"
  | DeleteAvatar
  | SyncStream

datatype public_request =
    Prelogin string
  | SignupInit string
  | SignupComplete signup_complete_request
  | Login header_map raw_login
  | Refresh string
  | GetShare uuid header_map
  | GetSharedFileManifest uuid uuid header_map
  | Health

primrec handle_protected ::
  "ext \<Rightarrow> auth_ext \<Rightarrow> settings \<Rightarrow> http_ext \<Rightarrow> timestamp \<Rightarrow> draws \<Rightarrow> authenticated_user \<Rightarrow> protected_request \<Rightarrow> vault \<Rightarrow>
    (api_response result \<times> vault) option" where
  "handle_protected x y cfg h now dr user (CreateFile a) w = Some (create_file_handler x h now dr user a w)"
| "handle_protected x y cfg h now dr user (CreateVersion a b) w = Some (create_version_handler x h now dr user a b w)"
| "handle_protected x y cfg h now dr user (GetFile a) w = Some (get_file_handler x user a w)"
| "handle_protected x y cfg h now dr user (ListFiles a) w = Some (list_files_handler x user a w)"
| "handle_protected x y cfg h now dr user (UpdateFile a b) w = Some (update_file_handler x now user a b w)"
| "handle_protected x y cfg h now dr user (CompleteUpload a b) w = Some (complete_upload_handler now user a b w)"
| "handle_protected x y cfg h now dr user (GetDownloadManifest a b) w = Some (get_download_manifest_handler x user a b w)"
| "handle_protected x y cfg h now dr user (DeleteFile a) w = Some (delete_file_handler now user a w)"
| "handle_protected x y cfg h now dr user (ListVersions a) w = Some (list_versions_handler user a w)"
| "handle_protected x y cfg h now dr user (RestoreVersion a b) w = Some (restore_version_handler now user a b w)"
| "handle_protected x y cfg h now dr user (BulkDelete a) w = Some (bulk_delete_handler x now user a w)"
| "handle_protected x y cfg h now dr user (RestoreFile a) w = Some (restore_file_handler now user a w)"
| "handle_protected x y cfg h now dr user (PermanentDeleteFile a) w = Some (permanent_delete_file_handler x now user a w)"
| "handle_protected x y cfg h now dr user (PrecheckUpload a b) w = Some (precheck_upload_handler x user a b w)"
| "handle_protected x y cfg h now dr user (CancelUpload a b) w = Some (cancel_upload_handler x now user a b w)"
| "handle_protected x y cfg h now dr user CleanupOrphanedUploads w = Some (cleanup_orphaned_uploads_handler x now user w)"
| "handle_protected x y cfg h now dr user (BulkCancelUploads a) w = Some (bulk_cancel_uploads_handler x now user a w)"
| "handle_protected x y cfg h now dr user (BulkInitUploads a) w = Some (bulk_init_uploads_handler x h now dr user a w)"
| "handle_protected x y cfg h now dr user (BulkCompleteUploads a) w = Some (bulk_complete_uploads_handler x now user a w)"
| "handle_protected x y cfg h now dr user (CreateShare a b) w = Some (create_share_handler x now dr user a b w)"
| "handle_protected x y cfg h now dr user (RevokeShare a) w = Some (revoke_share_handler now user a w)"
| "handle_protected x y cfg h now dr user ListShares w = Some (list_shares_handler user w)"
| "handle_protected x y cfg h now dr user (DeleteVersion a b) w = Some (delete_version_handler x now user a b w)"
| "handle_protected x y cfg h now dr user EmptyTrash w = Some (empty_trash_handler x now user w)"
| "handle_protected x y cfg h now dr user (MoveFile a b) w = Some (move_file_handler x now user a b w)"
| "handle_protected x y cfg h now dr user (CreateFolder a) w = Some (create_folder_handler x now dr user a w)"
| "handle_protected x y cfg h now dr user (GetFolder a) w = Some (get_folder_handler x user a w)"
| "handle_protected x y cfg h now dr user (ListFolders a) w = Some (list_folders_handler x user a w)"
| "handle_protected x y cfg h now dr user (UpdateFolder a b) w = update_folder_handler x now user a b w"
| "handle_protected x y cfg h now dr user (DeleteFolder a) w = Some (delete_folder_handler now user a w)"
| "handle_protected x y cfg h now dr user (CreateFoldersBulk a) w = Some (create_folders_bulk_handler x h now dr user a w)"
| "handle_protected x y cfg h now dr user (GetFolderFileTree a) w = get_folder_file_tree_handler x user a w"
| "handle_protected x y cfg h now dr user (PermanentDeleteFolder a) w = Some (permanent_delete_folder_handler x now user a w)"
| "handle_protected x y cfg h now dr user (RestoreFolder a) w = Some (restore_folder_handler now user a w)"
| "handle_protected x y cfg h now dr user (MoveFolder a b) w = move_folder_handler x now user a b w"
| "handle_protected x y cfg h now dr user (GetFolderPath a) w = get_folder_path_handler x user a w"
| "handle_protected x y cfg h now dr user ListDevices w = Some (list_devices_handler x user w)"
| "handle_protected x y cfg h now dr user ListSessions w = Some (list_sessions_handler user w)"
| "handle_protected x y cfg h now dr user (RevokeDevice a) w = Some (revoke_device_handler now user a w)"
| "handle_protected x y cfg h now dr user (UpdateDeviceName a b) w = Some (update_device_name_handler h now user a b w)"
| "handle_protected x y cfg h now dr user (GetResumeInfo a) w = Some (get_resume_info_handler x user a w)"
| "handle_protected x y cfg h now dr user (VerifyChunk a) w = Some (verify_chunk_handler x now user a w)"
| "handle_protected x y cfg h now dr user (Logout a b) w = Some (logout_handler y now user a b w)"
| "handle_protected x y cfg h now dr user (ChangePassword a) w = Some (change_password_handler x y cfg h now dr user a w)"
| "handle_protected x y cfg h now dr user GetKeys w = Some (get_keys_handler x user w)"
| "handle_protected x y cfg h now dr user (UpdateProfile a) w = Some (update_profile_handler y now user a w)"
| "handle_protected x y cfg h now dr user GetMe w = Some (get_me_handler user w)"
| "handle_protected x y cfg h now dr user (UploadAvatar a) w = Some (respond 200 (\<lambda>url. JsonBody (JObj [(''avatar_url'', JStr url)])) (upload_avatar x now (au_user user) a w))"
| "handle_protected x y cfg h now dr user DeleteAvatar w = Some (respond 204 (\<lambda>_. NoBody) (delete_avatar_handler x now (au_user user) w))"
| "handle_protected x y cfg h now dr user SyncStream w = Some (sync_stream_handler user w)"

primrec handle_public ::
  "ext \<Rightarrow> auth_ext \<Rightarrow> settings \<Rightarrow> http_ext \<Rightarrow> timestamp \<Rightarrow> draws \<Rightarrow> public_request \<Rightarrow> vault \<Rightarrow>
    (api_response result \<times> vault) option" where
  "handle_public x y cfg h now dr (Prelogin a) w = Some (prelogin_handler x y cfg h a w)"
| "handle_public x y cfg h now dr (SignupInit a) w = Some (signup_init_handler x y cfg h now dr a w)"
| "handle_public x y cfg h now dr (SignupComplete a) w = Some (signup_complete_handler x y cfg now dr a w)"
| "handle_public x y cfg h now dr (Login a b) w = Some (login_handler x y cfg h now dr a b w)"
| "handle_public x y cfg h now dr (Refresh a) w = Some (refresh_handler x y cfg now dr a w)"
| "handle_public x y cfg h now dr (GetShare a b) w = Some (get_share_handler x y now a b w)"
| "handle_public x y cfg h now dr (GetSharedFileManifest a b c) w = get_shared_file_manifest_handler x y now a b c w"
| "handle_public x y cfg h now dr Health w = Some ((Inr \<lparr>rs_status = 200, rs_body = TextBody ''OK''\<rparr>, w))"

text \<open>\<open>middleware::rate_limit_auth\<close>, with \<open>127.0.0.1\<close> for a request without an address.\<close>

definition rate_limit_auth :: "http_ext \<Rightarrow> auth_ext \<Rightarrow> (string \<Rightarrow> bool) \<Rightarrow> header_map \<Rightarrow> unit result" where
  "rate_limit_auth h y within_rate headers =
     check_that (within_rate (or_default ''127.0.0.1'' (extract_client_ip h y headers))) RateLimited"

text \<open>A request to a protected route with its headers, and one to a public route.\<close>

definition serve_protected ::
  "ext \<Rightarrow> auth_ext \<Rightarrow> settings \<Rightarrow> http_ext \<Rightarrow> (uuid \<Rightarrow> bool) \<Rightarrow> timestamp \<Rightarrow> draws \<Rightarrow> header_map \<Rightarrow> protected_request \<Rightarrow> vault \<Rightarrow>
    (api_response result \<times> vault) option" where
  "serve_protected x y cfg h within_rate now dr headers req w =
     (case require_auth y within_rate now (map_of headers ''authorization'') w of
        Inl e \<Rightarrow> Some (Inl e, w)
      | Inr user \<Rightarrow> handle_protected x y cfg h now dr user req w)"

definition serve_public ::
  "ext \<Rightarrow> auth_ext \<Rightarrow> settings \<Rightarrow> http_ext \<Rightarrow> (string \<Rightarrow> bool) \<Rightarrow> timestamp \<Rightarrow> draws \<Rightarrow> header_map \<Rightarrow> public_request \<Rightarrow> vault \<Rightarrow>
    (api_response result \<times> vault) option" where
  "serve_public x y cfg h within_rate now dr headers req w =
     (case rate_limit_auth h y within_rate headers of
        Inl e \<Rightarrow> Some (Inl e, w)
      | Inr _ \<Rightarrow> handle_public x y cfg h now dr req w)"

subsection \<open>Integrity\<close>

lemma same_vault_inv: "same_vault w w' \<Longrightarrow> vault_inv w \<Longrightarrow> vault_inv w'"
  by (simp add: same_vault_def vault_inv_defs)

lemma create_folders_bulk_inv:
  assumes "vault_inv w"
  shows "vault_inv (snd (create_folders_bulk x now gen u reqs w))"
proof -
  have roll: "vault_inv (roll_back w0 w) = vault_inv w0" for w0 w by (simp add: roll_back_def vault_inv_defs)
  have case_snd: "snd (case p of (Inl e, w3) \<Rightarrow> (Inl e, w3) | (Inr rs, w3) \<Rightarrow> (Inr (resp # rs), w3)) = snd p"
    for p :: "folder_response list result \<times> vault" and resp
    by (cases p; cases "fst p") auto
  have "vault_inv (snd (create_folders_loop x now gen u i reqs w0 w))" if "vault_inv w0" "vault_inv w" for i w0 w
    using that
  proof (induction reqs arbitrary: i w)
    case (Cons r rs)
    show ?case
      using Cons.prems
      by (auto simp: Let_def roll case_snd intro!: attempt_snd [where P = vault_inv] attempt_sql_snd [where P = vault_inv] Cons.IH) (erule (1) insert_folder_inv)
  qed simp
  then show ?thesis using assms by (simp add: create_folders_bulk_def)
qed

lemma user_cleanup_inv:
  assumes "vault_inv w"
  shows "vault_inv (snd (user_cleanup_orphaned_versions x now u hrs w))"
proof -
  obtain m ks w1 where hd: "hard_delete_files now (expired_files (cutoff_of now hrs) u w) (Some u) w = ((m, ks), w1)" by (rule split3)
  have "vault_inv w1" by (rule hard_delete_result_inv [OF hd assms])
  then show ?thesis by (auto simp: user_cleanup_orphaned_versions_def hd Let_def intro!: inv_intro)
qed

lemma cleanup_tick_inv:
  assumes "vault_inv w"
  shows "vault_inv (cleanup_tick hrs tick w)"
proof -
  obtain x now where tick: "tick = (x, now)" by (cases tick)
  let ?w1 = "snd (cleanup_orphaned_versions x now hrs w)"
  have inv1: "vault_inv ?w1" using assms by (auto simp: cleanup_orphaned_versions_def Let_def intro!: inv_intro)
  obtain q w2 where d: "delete_objects x (retry_batch ?w1) ?w1 = (q, w2)" by fastforce
  obtain sent where "w2 = ?w1\<lparr>r2_deletes := r2_deletes ?w1 @ sent\<rparr>" using delete_objects_frame [OF d] by blast
  then have "vault_inv (snd (retry_pending_storage_deletions x now ?w1))"
    using d inv1 by (cases q) (auto simp: retry_pending_storage_deletions_def Let_def record_attempt_def vault_inv_defs ukey_del ukey_upd)
  then show ?thesis by (simp add: tick cleanup_tick_def)
qed

lemma sync_stream_same: "same_vault w (sync_stream u w)"
  by (simp add: sync_stream_def sse_channel_def same_vault_def Let_def)

lemmas handler_defs =
  bulk_cancel_uploads_handler_def bulk_complete_uploads_handler_def bulk_delete_handler_def
  bulk_init_uploads_handler_def cancel_upload_handler_def change_password_handler_def
  cleanup_orphaned_uploads_handler_def complete_upload_handler_def create_file_handler_def create_folder_handler_def
  create_folders_bulk_handler_def create_share_handler_def create_version_handler_def delete_file_handler_def
  delete_folder_handler_def delete_version_handler_def empty_trash_handler_def get_download_manifest_handler_def
  get_file_handler_def get_folder_file_tree_handler_def get_folder_handler_def get_folder_path_handler_def
  get_keys_handler_def get_me_handler_def get_resume_info_handler_def get_share_handler_def
  get_shared_file_manifest_handler_def list_devices_handler_def list_files_handler_def list_folders_handler_def
  list_sessions_handler_def list_shares_handler_def list_versions_handler_def login_handler_def logout_handler_def
  move_file_handler_def move_folder_handler_def permanent_delete_file_handler_def permanent_delete_folder_handler_def
  precheck_upload_handler_def prelogin_handler_def refresh_handler_def restore_file_handler_def
  restore_folder_handler_def restore_version_handler_def revoke_device_handler_def revoke_share_handler_def
  signup_complete_handler_def signup_init_handler_def sync_stream_handler_def update_device_name_handler_def
  update_file_handler_def update_folder_handler_def update_profile_handler_def verify_chunk_handler_def



text \<open>The contracts of the operations, on the state they return.\<close>

lemmas vault_step_inv =
  create_folder.inv [OF _ prod.collapse [symmetric]]
  delete_folder.inv [OF _ prod.collapse [symmetric]]
  restore_folder.inv [OF _ prod.collapse [symmetric]]
  permanent_delete_folder.inv [OF _ prod.collapse [symmetric]]
  create_file.inv [OF _ prod.collapse [symmetric]]
  create_version.inv [OF _ prod.collapse [symmetric]]
  complete_upload.inv [OF _ prod.collapse [symmetric]]
  cancel_upload.inv [OF _ prod.collapse [symmetric]]
  bulk_cancel_uploads.inv [OF _ prod.collapse [symmetric]]
  bulk_complete_uploads.inv [OF _ prod.collapse [symmetric]]
  bulk_init_uploads.outcome_inv [OF _ prod.collapse [symmetric]]
  update_file.inv [OF _ prod.collapse [symmetric]]
  move_file.inv [OF _ prod.collapse [symmetric]]
  restore_version.inv [OF _ prod.collapse [symmetric]]
  delete_version.inv [OF _ prod.collapse [symmetric]]
  delete_file.inv [OF _ prod.collapse [symmetric]]
  restore_file.inv [OF _ prod.collapse [symmetric]]
  permanently_delete_file.inv [OF _ prod.collapse [symmetric]]
  bulk_delete.inv [OF _ prod.collapse [symmetric]]
  empty_trash.inv [OF _ prod.collapse [symmetric]]
  create_share.inv [OF _ prod.collapse [symmetric]]
  revoke_share.inv [OF _ prod.collapse [symmetric]]
  get_share.inv [OF _ prod.collapse [symmetric]]
  verify_chunk.inv [OF _ prod.collapse [symmetric]]

lemmas account_step_vault =
  signup_init.vault_kept [OF prod.collapse [symmetric]]
  signup_complete.vault_kept [OF prod.collapse [symmetric]]
  login.vault_kept [OF prod.collapse [symmetric]]
  refresh.vault_kept [OF prod.collapse [symmetric]]
  logout.vault_kept [OF prod.collapse [symmetric]]
  change_password.vault_kept [OF prod.collapse [symmetric]]
  update_profile.vault_kept [OF prod.collapse [symmetric]]
  upload_avatar.vault_kept [OF prod.collapse [symmetric]]
  delete_avatar.vault_kept [OF prod.collapse [symmetric]]
  revoke_device.vault_kept [OF prod.collapse [symmetric]]
  update_device_name.vault_kept [OF prod.collapse [symmetric]]

lemmas account_step_inv =
  signup_init.accounts [OF _ prod.collapse [symmetric]]
  signup_complete.accounts [OF _ prod.collapse [symmetric]]
  login.accounts [OF _ prod.collapse [symmetric]]
  refresh.accounts [OF _ prod.collapse [symmetric]]
  logout.accounts [OF _ prod.collapse [symmetric]]
  change_password.accounts [OF _ prod.collapse [symmetric]]
  update_profile.accounts [OF _ prod.collapse [symmetric]]
  upload_avatar.accounts [OF _ prod.collapse [symmetric]]
  delete_avatar.accounts [OF _ prod.collapse [symmetric]]
  revoke_device.accounts [OF _ prod.collapse [symmetric]]
  update_device_name.accounts [OF _ prod.collapse [symmetric]]

lemma protected_vault_inv:
  assumes inv: "vault_inv w" and run: "handle_protected x y cfg h now dr user req w = Some p"
  shows "vault_inv (snd p)"
proof -
  note steps = vault_step_inv [OF inv] account_step_vault [THEN same_vault_inv, OF inv] same_vault_inv [OF sync_stream_same inv]
    user_cleanup_inv [OF inv] create_folders_bulk_inv [OF inv]
  note go = attempt_snd [where P = vault_inv, OF inv]
  from run show ?thesis
    by (cases req) (auto simp: handler_defs steps inv case_prod_beta intro!: go dest: update_folder.inv [OF inv] move_folder.inv [OF inv])
qed

lemma protected_accounts:
  assumes inv: "auth_inv w" and run: "handle_protected x y cfg h now dr user req w = Some p"
  shows "auth_inv (snd p)"
proof -
  note go = attempt_snd [where P = auth_inv, OF inv] and kept = accounts_auth [THEN iffD2, OF _ inv]
  from run show ?thesis
    by (cases req)
      (auto simp: handler_defs account_step_inv [OF inv] inv case_prod_beta kept intro!: go
        dest!: accounts_update_folder accounts_move_folder)
qed

end
