(* ===== verification/Sample_Accounts.thy ===== *)
theory Sample_Accounts
  imports Account_Contract Upload_Download
begin

text \<open>
  What the services rely on of bcrypt and of the token library, and concrete external code that
  keeps those promises: tokens are the quoted fields of their claims. A small state with one user,
  device and session, at which the properties of sessions are applied.
\<close>

subsection \<open>Promises of the external code\<close>

text \<open>
  A token that the library signed is decoded to its claims by a check for the same issuer while it
  has not expired. And bcrypt accepts the key whose hash it computed.
\<close>

definition jwt_promise :: "auth_ext \<Rightarrow> bool" where
  "jwt_promise y \<longleftrightarrow>
     (\<forall>c token now leeway. jwt_encode_access y c = Some token \<and> unix_secs now \<le> ac_exp c \<longrightarrow>
        jwt_decode_access y (ac_iss c) leeway now token = Inr c) \<and>
     (\<forall>c token now leeway. jwt_encode_refresh y c = Some token \<and> unix_secs now \<le> rc_exp c \<longrightarrow>
        jwt_decode_refresh y (rc_iss c) leeway now token = Inr c)"

definition bcrypt_promise :: "auth_ext \<Rightarrow> bool" where
  "bcrypt_promise y \<longleftrightarrow> (\<forall>salt key cost h. bcrypt_hash y salt key cost = Some h \<longrightarrow> bcrypt_verify y key h = Some True)"

subsection \<open>Sample external code\<close>

definition quoted :: "string list \<Rightarrow> string" where
  "quoted fs = concat (map (\<lambda>f. concat (map (\<lambda>c. [CHR ''c'', c]) f) @ ''.'') fs)"

fun unquoted :: "string \<Rightarrow> string list" where
  "unquoted (a # s) =
     (if a = CHR ''.'' then [] # unquoted s
      else case s of [] \<Rightarrow> [] | c # s' \<Rightarrow> (case unquoted s' of [] \<Rightarrow> [[c]] | p # ps \<Rightarrow> (c # p) # ps))"
| "unquoted [] = []"

lemma unquoted_quoted: "unquoted (quoted fs) = fs"
proof (induction fs)
  case (Cons f fs)
  have "unquoted (concat (map (\<lambda>c. [CHR ''c'', c]) g) @ CHR ''.'' # quoted fs) = g # fs" for g
    by (induction g) (simp_all add: Cons)
  then show ?case by (simp add: quoted_def)
qed (simp add: quoted_def)

definition sample_auth :: auth_ext where
  "sample_auth =
     \<lparr>bcrypt_hash = (\<lambda>salt key cost. Some (CHR ''h'' # key)), bcrypt_verify = (\<lambda>key h. Some (h = CHR ''h'' # key)),
      sha256_hex = (\<lambda>s. s), blake3 = (\<lambda>b. b),
      jwt_encode_access = (\<lambda>c. Some (quoted [show_nat (ac_sub c), show_nat (ac_sid c), show_nat (ac_did c), show_nat (ac_exp c),
        show_nat (ac_iat c), ac_iss c, ac_typ c])),
      jwt_encode_refresh = (\<lambda>c. Some (quoted [show_nat (rc_sub c), show_nat (rc_sid c), show_nat (rc_did c), show_nat (rc_jti c),
        show_nat (rc_exp c), show_nat (rc_iat c), rc_iss c, rc_typ c])),
      jwt_decode_access = (\<lambda>iss leeway now token. case unquoted token of
          [a, b, c, d, e, i, ty] \<Rightarrow> if i \<noteq> iss then Inl OtherJwtError else if read_nat d + leeway < unix_secs now then Inl ExpiredSignature
            else Inr \<lparr>ac_sub = read_nat a, ac_sid = read_nat b, ac_did = read_nat c, ac_exp = read_nat d, ac_iat = read_nat e,
              ac_iss = i, ac_typ = ty\<rparr>
        | _ \<Rightarrow> Inl OtherJwtError),
      jwt_decode_refresh = (\<lambda>iss leeway now token. case unquoted token of
          [a, b, c, j, d, e, i, ty] \<Rightarrow> if i \<noteq> iss then Inl OtherJwtError else if read_nat d + leeway < unix_secs now then Inl ExpiredSignature
            else Inr \<lparr>rc_sub = read_nat a, rc_sid = read_nat b, rc_did = read_nat c, rc_jti = read_nat j, rc_exp = read_nat d,
              rc_iat = read_nat e, rc_iss = i, rc_typ = ty\<rparr>
        | _ \<Rightarrow> Inl OtherJwtError),
      tables = \<lparr>unicode_lowercase = (\<lambda>s. s), unicode_trim = (\<lambda>s. s)\<rparr>\<rparr>"

lemma sample_auth_promises: "jwt_promise sample_auth" "bcrypt_promise sample_auth"
  by (auto simp: jwt_promise_def bcrypt_promise_def sample_auth_def unquoted_quoted read_show_nat)

subsection \<open>Sample settings and accounts\<close>

definition sample_settings :: settings where
  "sample_settings =
     \<lparr>environment = ''test'', server = \<lparr>host = ''127.0.0.1'', port = 8080\<rparr>,
      database = \<lparr>db_url = ''postgres'', max_connections = 5, min_connections = 1, acquire_timeout_seconds = 5,
        idle_timeout_seconds = 5, max_lifetime_seconds = 5\<rparr>,
      jwt = \<lparr>issuer = ''uoozer-vault'', access_ttl_seconds = 900, refresh_ttl_seconds = 2592000\<rparr>,
      argon2 = \<lparr>m_cost = 65536, t_cost = 3, p_cost = 4, output_len = 32\<rparr>, bcrypt_cost = 12, allowed_origins = [],
      rate_limit = \<lparr>auth_per_minute = 10, api_per_minute = 100\<rparr>,
      r2 = \<lparr>account_id = '''', access_key_id = '''', secret_access_key = '''', bucket = '''', endpoint = '''', presign_ttl_seconds = 900\<rparr>,
      prelogin_pepper = ''pepper'', jwt_private_key_pem = ''''\<rparr>"

definition sample_claims :: refresh_claims where
  "sample_claims =
     \<lparr>rc_sub = 1, rc_sid = 3, rc_did = 2, rc_jti = 4, rc_exp = 2592000, rc_iat = 0, rc_iss = ''uoozer-vault'', rc_typ = ''refresh''\<rparr>"

definition sample_token :: string where
  "sample_token = the (jwt_encode_refresh sample_auth sample_claims)"

definition sample_accounts :: vault where
  "sample_accounts =
     empty_vault\<lparr>t_users := [(sample_user 1)\<lparr>u_auth_key_hash := ''h01'', u_recovery_auth_key_hash := ''h11''\<rparr>],
       t_devices := [sample_device 2 1],
       t_sessions := [new_session 0 (jwt sample_settings) 3 1 2 sample_token 4 None None]\<rparr>"

lemmas sample_account_rows =
  sample_accounts_def empty_vault_def sample_user_def sample_device_def new_session_def

lemma sample_accounts_inv: "auth_inv sample_accounts"
  by (simp add: auth_inv_def sample_account_rows ukey_def fkey_def)

lemma sample_token_verifies: "unix_secs t \<le> 2592000 \<Longrightarrow> verify_refresh_token sample_auth t sample_token = Inr sample_claims"
  using sample_auth_promises(1)
  by (simp add: verify_refresh_token_def jwt_promise_def sample_token_def sample_claims_def sample_auth_def unquoted_quoted read_show_nat)

lemma quoted_inject [simp]: "quoted fs = quoted gs \<longleftrightarrow> fs = gs"
  by (metis unquoted_quoted)

lemma show_nat_eq: "show_nat m = show_nat n \<longleftrightarrow> m = n"
  by (metis show_nat_inj)

lemmas sample_run = sample_account_rows sample_settings_def sample_auth_def sample_token_def sample_claims_def sign_refresh_token_def
  sign_access_token_def hash_refresh_token_def insert_session_def show_nat_eq user_exists_def device_exists_def
  check_that_def audit_log_def revoke_sessions_def upd_def row_count_def

end
