(* ===== verification/Session_Properties.thy ===== *)
theory Session_Properties
  imports Sample_Accounts
begin

text \<open>
  What signing in, refreshing and signing out promise: who gets a session, when a session ends,
  and what the detection of a reused refresh token does and does not revoke.
\<close>

subsection \<open>Requests and revoked sessions\<close>

lemma require_auth_ok:
  assumes "require_auth y rate t header w = Inr au"
  shows "\<exists>s\<in>set (t_sessions w). s_id s = au_session au \<and> s_user s = au_user au \<and> s_revoked_at s = None"
    and "\<exists>d\<in>set (t_devices w). d_id d = au_device au \<and> d_user d = au_user au \<and> d_revoked_at d = None"
    and "\<exists>u\<in>set (t_users w). u_id u = au_user au \<and> u_disabled_at u = None"
  using assms by (auto simp: require_auth_def split: option.splits)

lemma refresh_revoked:
  assumes "verify_refresh_token y now tok = Inr claims"
    and "\<And>s. s \<in> set (t_sessions w) \<Longrightarrow> s_jti s = rc_jti claims \<Longrightarrow> s_revoked_reason s \<noteq> None"
  shows "refresh x y cfg now sid jti tok w = (Inl InvalidRefreshToken, w)"
proof (cases "find (\<lambda>s. s_jti s = rc_jti claims) (t_sessions w)")
  case (Some s)
  then have "s_revoked_reason s \<noteq> None" using assms(2) find_Some_in [OF Some] by blast
  then show ?thesis using assms(1) Some by (simp add: refresh_def split: option.splits)
qed (simp add: refresh_def assms(1))

text \<open>The sessions that a step closes: no request and no refresh gets through on them any more.\<close>

definition closed_sessions :: "vault \<Rightarrow> (session_row \<Rightarrow> bool) \<Rightarrow> bool" where
  "closed_sessions w P \<longleftrightarrow> (\<forall>s\<in>set (t_sessions w). P s \<longrightarrow> s_revoked_at s \<noteq> None \<and> s_revoked_reason s \<noteq> None)"

lemma closed_session_refused:
  assumes "closed_sessions w P"
  shows "require_auth y rate t header w = Inr au \<Longrightarrow> \<exists>s\<in>set (t_sessions w). s_id s = au_session au \<and> \<not> P s"
    and "verify_refresh_token y t tok = Inr claims \<Longrightarrow> (\<And>s. s \<in> set (t_sessions w) \<Longrightarrow> s_jti s = rc_jti claims \<Longrightarrow> P s) \<Longrightarrow>
      refresh x y cfg t sid jti tok w = (Inl InvalidRefreshToken, w)"
proof -
  show "\<exists>s\<in>set (t_sessions w). s_id s = au_session au \<and> \<not> P s" if "require_auth y rate t header w = Inr au"
    using require_auth_ok(1) [OF that] assms by (auto simp: closed_sessions_def)
  show "refresh x y cfg t sid jti tok w = (Inl InvalidRefreshToken, w)" if "verify_refresh_token y t tok = Inr claims"
    "\<And>s. s \<in> set (t_sessions w) \<Longrightarrow> s_jti s = rc_jti claims \<Longrightarrow> P s"
    using assms that by (intro refresh_revoked [OF that(1)]) (auto simp: closed_sessions_def)
qed

lemma revoke_sessions_closes:
  assumes "\<And>s. s \<in> set (t_sessions w) \<Longrightarrow> Q s \<Longrightarrow> P s \<or> s_revoked_at s \<noteq> None \<and> s_revoked_reason s \<noteq> None"
    and "\<And>s a b. Q (s\<lparr>s_revoked_at := a, s_revoked_reason := b\<rparr>) = Q s"
  shows "closed_sessions (revoke_sessions now reason P w) Q"
proof -
  have "\<forall>s\<in>set (upd P (\<lambda>s. s\<lparr>s_revoked_at := Some now, s_revoked_reason := Some reason\<rparr>) (t_sessions w)).
      Q s \<longrightarrow> s_revoked_at s \<noteq> None \<and> s_revoked_reason s \<noteq> None"
    unfolding ball_upd using assms by auto
  then show ?thesis by (simp add: closed_sessions_def revoke_sessions_def)
qed

lemma revoke_sessions_row:
  "s' \<in> set (t_sessions (revoke_sessions now reason P w)) \<Longrightarrow>
     \<exists>s\<in>set (t_sessions w). s_id s = s_id s' \<and> s_jti s = s_jti s' \<and> s_device s = s_device s' \<and> s_user s = s_user s'"
  by (auto simp: revoke_sessions_def in_upd_iff split: if_splits)

subsection \<open>Signing out\<close>

lemma closed_after_revocation:
  assumes closed: "closed_sessions w' P" and inv: "auth_inv w"
    and rows: "\<And>s'. s' \<in> set (t_sessions w') \<Longrightarrow> \<exists>s\<in>set (t_sessions w). s_jti s = s_jti s' \<and> P s = P s'"
    and s: "s \<in> set (t_sessions w)" "P s" and tok: "verify_refresh_token y t tok = Inr claims" "rc_jti claims = s_jti s"
  shows "refresh x y cfg t i j tok w' = (Inl InvalidRefreshToken, w')"
  using rows s tok ukeyD [OF auth_invD(5) [OF inv]] by (intro closed_session_refused(2) [OF closed tok(1)]) metis

lemma plain_logout:
  assumes "logout y now u sid did False rt w = (r, w')"
  shows "r = Inr ()" and "closed_sessions w' (\<lambda>s. s_id s = sid)"
    and "s' \<in> set (t_sessions w') \<Longrightarrow> \<exists>s\<in>set (t_sessions w). s_jti s = s_jti s' \<and> (s_id s = sid) = (s_id s' = sid)"
proof -
  let ?w1 = "revoke_sessions now ''logged_out'' (\<lambda>s. s_id s = sid) w"
  have w': "r = Inr ()" "w' = ?w1 \<or> (\<exists>j. w' = revoke_sessions now ''logged_out'' (\<lambda>s. s_jti s = j) ?w1)"
    using assms by (auto simp: logout_def Let_def split: option.splits sum.splits)
  then show "r = Inr ()" by simp
  have one: "closed_sessions ?w1 (\<lambda>s. s_id s = sid)" by (rule revoke_sessions_closes) auto
  then have "closed_sessions (revoke_sessions now ''logged_out'' (\<lambda>s. s_jti s = j) ?w1) (\<lambda>s. s_id s = sid)" for j
    by (auto simp: closed_sessions_def [of ?w1] intro!: revoke_sessions_closes)
  with one w'(2) show "closed_sessions w' (\<lambda>s. s_id s = sid)" by blast
  have old: "\<exists>s\<in>set (t_sessions w). s_id s = s_id s'' \<and> s_jti s = s_jti s''" if "s'' \<in> set (t_sessions ?w1)" for s''
    using revoke_sessions_row [OF that] by auto
  show "\<exists>s\<in>set (t_sessions w). s_jti s = s_jti s' \<and> (s_id s = sid) = (s_id s' = sid)" if row: "s' \<in> set (t_sessions w')"
  proof -
    have "\<exists>s''\<in>set (t_sessions ?w1). s_id s'' = s_id s' \<and> s_jti s'' = s_jti s'"
      using w'(2) row revoke_sessions_row [of s' now _ _ ?w1] by blast
    then show ?thesis using old by metis
  qed
qed

lemma device_logout:
  assumes inv: "auth_inv w" and s: "s \<in> set (t_sessions w)" "s_user s = u" "s_device s = did"
    and run: "logout y now u sid did True rt w = (r, w')"
  shows "r = Inr ()" and "closed_sessions w' (\<lambda>s. s_device s = did)"
    and "s' \<in> set (t_sessions w') \<Longrightarrow> \<exists>s\<in>set (t_sessions w). s_jti s = s_jti s' \<and> s_id s = s_id s' \<and> s_device s = s_device s'"
    and "\<forall>d\<in>set (t_devices w'). d_id d = did \<longrightarrow> d_revoked_at d \<noteq> None"
proof -
  let ?w0 = "revoke_device_rows now did u w"
  let ?w1 = "revoke_sessions now ''device_revoked'' (\<lambda>s. s_device s = did) ?w0"
  obtain d where d: "d \<in> set (t_devices w)" "d_id d = did" "d_user d = u" using session_device [OF inv s(1)] s(2,3) by auto
  then have "user_exists w u" "device_exists w did" using auth_invD(7) [OF inv] by (auto simp: user_exists_def device_exists_def dest: fkeyD)
  then have "user_exists ?w1 u \<and> device_exists ?w1 did"
    by (auto simp: user_exists_def device_exists_def revoke_sessions_def revoke_device_rows_def bex_upd)
  then obtain a where "logout y now u sid did True rt w = (Inr (), ?w1\<lparr>t_audit := a\<rparr>)"
    by (auto simp: logout_def audit_log_def)
  with run have r: "r = Inr ()" and w': "w' = ?w1\<lparr>t_audit := a\<rparr>" by auto
  show "r = Inr ()" by (rule r)
  have "closed_sessions ?w1 (\<lambda>s. s_device s = did)" by (rule revoke_sessions_closes) auto
  then show "closed_sessions w' (\<lambda>s. s_device s = did)" by (simp add: closed_sessions_def w')
  show "\<exists>s\<in>set (t_sessions w). s_jti s = s_jti s' \<and> s_id s = s_id s' \<and> s_device s = s_device s'" if "s' \<in> set (t_sessions w')"
    using that revoke_sessions_row [of s' now _ _ ?w0] by (auto simp: w' revoke_device_rows_def)
  have own: "d_user d' = u" if "d' \<in> set (t_devices w)" "d_id d' = did" for d'
    using d ukeyD [OF auth_invD(3) [OF inv]] that by metis
  have "t_devices w' = upd (\<lambda>d. d_id d = did \<and> d_user d = u) (\<lambda>d. d\<lparr>d_revoked_at := Some now\<rparr>) (t_devices w)"
    by (simp add: w' revoke_sessions_def revoke_device_rows_def)
  then show "\<forall>d\<in>set (t_devices w'). d_id d = did \<longrightarrow> d_revoked_at d \<noteq> None"
    using own by (simp add: ball_upd)
qed

text \<open>
  C12: Signing out ends the session: afterwards, at any time, no request is let through on that
  session, and its refresh token is refused. With the option to revoke the device, where the
  session is one of the user on that device, the same holds for every session of the device, and no
  request of the device is let through.
\<close>

theorem logout_ends_session:
  assumes inv: "auth_inv w" and run: "logout y now u sid did kill rt w = (r, w')"
    and own: "kill \<Longrightarrow> \<exists>s\<in>set (t_sessions w). s_id s = sid \<and> s_user s = u \<and> s_device s = did"
  shows "r = Inr () \<and>
    (\<forall>rate t header au. require_auth y rate t header w' = Inr au \<longrightarrow> au_session au \<noteq> sid \<and> (kill \<longrightarrow> au_device au \<noteq> did)) \<and>
    (\<forall>s\<in>set (t_sessions w). \<forall>t tok claims x cfg i j. (s_id s = sid \<or> kill \<and> s_device s = did) \<and>
       verify_refresh_token y t tok = Inr claims \<and> rc_jti claims = s_jti s \<longrightarrow>
       refresh x y cfg t i j tok w' = (Inl InvalidRefreshToken, w'))"
proof (cases kill)
  case False
  note L = plain_logout [OF run [simplified False]]
  show ?thesis
    using L(1) closed_session_refused(1) [OF L(2)] closed_after_revocation [OF L(2) inv L(3)] False by blast
next
  case True
  then obtain s where s: "s \<in> set (t_sessions w)" "s_id s = sid" "s_user s = u" "s_device s = did" using own by blast
  note L = device_logout [OF inv s(1,3,4) run [simplified True]]
  have dev: "s_device s' = did" if "s' \<in> set (t_sessions w)" "s_id s' = sid" for s'
    using ukeyD [OF auth_invD(4) [OF inv]] s that by metis
  have "au_session au \<noteq> sid \<and> au_device au \<noteq> did" if ok: "require_auth y rate t header w' = Inr au" for rate t header au
  proof -
    obtain s' where s': "s' \<in> set (t_sessions w')" "s_id s' = au_session au" "s_device s' \<noteq> did"
      using closed_session_refused(1) [OF L(2) ok] by blast
    then have "au_session au \<noteq> sid" using L(3) [OF s'(1)] dev by metis
    then show ?thesis using require_auth_ok(2) [OF ok] L(4) by metis
  qed
  moreover have "refresh x y cfg t i j tok w' = (Inl InvalidRefreshToken, w')"
    if "s' \<in> set (t_sessions w)" "s_id s' = sid \<or> s_device s' = did" "verify_refresh_token y t tok = Inr claims" "rc_jti claims = s_jti s'"
    for s' t tok claims x cfg i j
    using closed_after_revocation [OF L(2) inv _ that(1) _ that(3,4)] L(3) that(2) dev [OF that(1)] by metis
  ultimately show ?thesis using L(1) True by blast
qed

text \<open>
  C11: Revoking a device locks it out: afterwards no request of that device is let through, and the
  refresh token of every session of it is refused.
\<close>

theorem revoke_device_locks_out:
  assumes inv: "auth_inv w" and run: "revoke_device now u did current w = (Inr (), w')"
  shows "(\<forall>y rate t header au. require_auth y rate t header w' = Inr au \<longrightarrow> au_device au \<noteq> did) \<and>
    (\<forall>s\<in>set (t_sessions w). \<forall>y t tok claims x cfg i j. s_device s = did \<and> verify_refresh_token y t tok = Inr claims \<and> rc_jti claims = s_jti s \<longrightarrow>
       refresh x y cfg t i j tok w' = (Inl InvalidRefreshToken, w'))"
proof -
  let ?P = "\<lambda>d. d_id d = did \<and> d_user d = u \<and> d_revoked_at d = None"
  let ?S = "\<lambda>s. s_device s = did \<and> s_user s = u \<and> s_revoked_at s = None"
  from run have rows: "t_devices w' = upd ?P (\<lambda>d. d\<lparr>d_revoked_at := Some now\<rparr>) (t_devices w)"
    "t_sessions w' = upd ?S (\<lambda>s. s\<lparr>s_revoked_at := Some now, s_revoked_reason := Some ''device_revoked''\<rparr>) (t_sessions w)"
    and d: "\<exists>d\<in>set (t_devices w). ?P d"
    by (auto simp: revoke_device_def attempt_oks Let_def revoke_sessions_def dest!: audit_log_Inr)
  have own: "d_user d = u" if "d \<in> set (t_devices w)" "d_id d = did" for d
    using d ukeyD [OF auth_invD(3) [OF inv]] that by metis
  have req: "au_device au \<noteq> did" if ok: "require_auth y rate t header w' = Inr au" for y rate t header au
  proof
    assume au: "au_device au = did"
    obtain d' where d': "d' \<in> set (t_devices w')" "d_id d' = did" "d_revoked_at d' = None"
      using require_auth_ok(2) [OF ok] au by auto
    then obtain d0 where d0: "d0 \<in> set (t_devices w)" "d' = (if ?P d0 then d0\<lparr>d_revoked_at := Some now\<rparr> else d0)"
      unfolding rows in_upd_iff by blast
    then show False using d' own by (cases "?P d0") auto
  qed
  have sess: "s_user s = u" if "s \<in> set (t_sessions w)" "s_device s = did" for s
    using session_device [OF inv that(1)] own that(2) by metis
  have "s_revoked_reason s' \<noteq> None" if s': "s' \<in> set (t_sessions w')" "s_device s' = did" for s'
  proof -
    obtain s0 where s0: "s0 \<in> set (t_sessions w)" "s' = (if ?S s0 then s0\<lparr>s_revoked_at := Some now, s_revoked_reason := Some ''device_revoked''\<rparr> else s0)"
      using s'(1) unfolding rows in_upd_iff by blast
    then show ?thesis using s'(2) sess [OF s0(1)] auth_invD(10) [OF inv s0(1)] by (cases "?S s0") auto
  qed
  moreover have "s_device s' = s_device s" if s': "s' \<in> set (t_sessions w')" "s_jti s' = s_jti s" "s \<in> set (t_sessions w)" for s s'
  proof -
    obtain s0 where s0: "s0 \<in> set (t_sessions w)" "s_jti s0 = s_jti s'" "s_device s0 = s_device s'"
      using s'(1) by (auto simp: rows in_upd_iff split: if_splits)
    then have "s0 = s" using ukeyD [OF auth_invD(5) [OF inv] s0(1) s'(3)] s'(2) by simp
    then show ?thesis using s0 by simp
  qed
  ultimately have "refresh x y cfg t i j tok w' = (Inl InvalidRefreshToken, w')"
    if "s \<in> set (t_sessions w)" "s_device s = did" "verify_refresh_token y t tok = Inr claims" "rc_jti claims = s_jti s" for s y t tok claims x cfg i j
    using that by (intro refresh_revoked [OF that(3)]) metis
  with req show ?thesis by blast
qed

subsection \<open>Signing in\<close>

lemma signed_access_token:
  assumes "jwt_promise y" and "sign_access_token y now u sid did c = Inr token" and "issuer c = ''uoozer-vault''"
    and "unix_secs now + access_ttl_seconds c < 2 ^ 64" and "unix_secs t \<le> unix_secs now + access_ttl_seconds c"
  shows "\<exists>claims. verify_access_token y t token = Inr claims \<and> ac_sub claims = u \<and> ac_sid claims = sid \<and> ac_did claims = did"
proof -
  let ?c = "\<lparr>ac_sub = u, ac_sid = sid, ac_did = did, ac_exp = (unix_secs now + access_ttl_seconds c) mod 2 ^ 64,
      ac_iat = unix_secs now, ac_iss = issuer c, ac_typ = ''access''\<rparr>"
  have "jwt_encode_access y ?c = Some token" using assms(2) by (simp add: sign_access_token_def split: option.splits)
  then have "jwt_decode_access y (issuer c) 5 t token = Inr ?c" using assms(1,4,5) by (force simp: jwt_promise_def)
  then show ?thesis using assms(3) by (simp add: verify_access_token_def)
qed

lemma bearer_header: "bearer_token (Some (''Bearer '' @ token)) = Some token"
  by (simp add: bearer_token_def strip_prefix_def)

text \<open>
  C8: Only valid credentials open a session: a successful login is for an enabled user with that
  email whose password or recovery key hash accepts the key; it adds exactly one session, of that
  user on an unrevoked device of the user, stores the hash of the refresh token it returns, and the
  access token it returns lets requests through as that user, device and session until it expires.
\<close>

theorem login_opens_session:
  assumes inv: "auth_inv w" and run: "login x y cfg now new_did sid jti req ip ua w = (Inr r, w')"
    and promise: "jwt_promise y" and cfg: "issuer (jwt cfg) = ''uoozer-vault''" "unix_secs now + access_ttl_seconds (jwt cfg) < 2 ^ 64"
    and t: "unix_secs t \<le> unix_secs now + access_ttl_seconds (jwt cfg)"
  shows "\<exists>user\<in>set (t_users w). \<exists>s. u_email_normalized user = normalized_email y (lr_email req) \<and> u_disabled_at user = None \<and>
     (verify_auth_key y (lr_auth_key req) (u_auth_key_hash user) \<or> verify_auth_key y (lr_auth_key req) (u_recovery_auth_key_hash user)) \<and>
     t_sessions w' = t_sessions w @ [s] \<and> s_id s = sid \<and> s_user s = u_id user \<and> s_token_hash s = hash_refresh_token y (ar_refresh_token r) \<and>
     require_auth y (\<lambda>_. True) t (Some (''Bearer '' @ ar_access_token r)) w' =
       Inr \<lparr>au_user = u_id user, au_device = s_device s, au_session = sid\<rparr>"
  using run
proof (cases rule: login_cases)
  case (signed user pubkey did w1 token w2 w3)
  obtain access where acc: "sign_access_token y now (u_id user) sid did (jwt cfg) = Inr access"
    and r: "r = mk_auth_response (jwt cfg) access token (u_full_name user)"
    using signed(11) by (auto split: sum.splits)
  let ?s = "new_session now (jwt cfg) sid (u_id user) did (hash_refresh_token y token) jti ua ip"
  note D = login_device_ok [OF signed(6)]
  have rows: "t_sessions w' = t_sessions w @ [?s]" "t_devices w' = t_devices w1" "t_users w' = t_users w"
    using insert_session_Inr(1) [OF signed(8)] audit_log_Inr [OF signed(9)] signed(10) D(3,4) by auto
  obtain claims where claims: "verify_access_token y t access = Inr claims" "ac_sub claims = u_id user" "ac_sid claims = sid" "ac_did claims = did"
    using signed_access_token [OF promise acc cfg t] by blast
  have "require_auth y (\<lambda>_. True) t (Some (''Bearer '' @ access)) w' = Inr \<lparr>au_user = u_id user, au_device = did, au_session = sid\<rparr>"
    unfolding require_auth_def bearer_header option.case claims(1) and_then_simps
    using claims(2-4) D(5) signed(1,3) by (auto simp: check_that_def rows)
  then show ?thesis
    using signed(1-4) rows(1) r by (intro bexI [of _ user] exI [of _ ?s]) (simp_all add: mk_auth_response_def)
qed simp_all

subsection \<open>Refreshing\<close>

text \<open>The claims of a token that this server signed for a session in the table.\<close>

definition genuine :: "vault \<Rightarrow> refresh_claims \<Rightarrow> bool" where
  "genuine w claims \<longleftrightarrow> (\<exists>s\<in>set (t_sessions w). s_jti s = rc_jti claims \<and> s_id s = rc_sid claims \<and>
     s_user s = rc_sub claims \<and> s_device s = rc_did claims)"

lemma genuineD:
  assumes "auth_inv w" and "genuine w claims" and "s \<in> set (t_sessions w)" and "s_jti s = rc_jti claims"
  shows "s_id s = rc_sid claims" "s_user s = rc_sub claims" "s_device s = rc_did claims"
proof -
  obtain g where g: "g \<in> set (t_sessions w)" "s_jti g = rc_jti claims" "s_id g = rc_sid claims" "s_user g = rc_sub claims"
    "s_device g = rc_did claims"
    using assms(2) by (auto simp: genuine_def)
  then have "s = g" using ukeyD [OF auth_invD(5) [OF assms(1)] assms(3)] assms(4) by simp
  with g show "s_id s = rc_sid claims" "s_user s = rc_sub claims" "s_device s = rc_did claims" by auto
qed

definition open_session :: "session_row \<Rightarrow> bool" where
  "open_session s \<longleftrightarrow> s_revoked_at s = None \<and> s_revoked_reason s = None \<and> s_rotated_to s = None"

text \<open>A successful refresh marks the session of the token as rotated and appends the new one.\<close>

lemma refresh_ok:
  assumes inv: "auth_inv w" and run: "refresh x y cfg t sid jti tok w = (Inr r, w')"
  obtains claims s n where "verify_refresh_token y t tok = Inr claims" "s \<in> set (t_sessions w)" "s_jti s = rc_jti claims"
    "s_revoked_reason s = None" "s_rotated_to s = None" "s_id n = sid" "s_jti n = jti" "open_session n" "sid \<noteq> s_id s" "jti \<noteq> s_jti s"
    "t_sessions w' = upd (\<lambda>q. s_id q = s_id s) (\<lambda>q. q\<lparr>s_rotated_to := Some sid\<rparr>) (t_sessions w) @ [n]"
    "t_users w' = t_users w" "t_devices w' = t_devices w" "s_token_hash n = hash_refresh_token y (ar_refresh_token r)"
    "\<And>q. q \<in> set (t_sessions w) \<Longrightarrow> s_id q \<noteq> sid \<and> s_jti q \<noteq> jti"
  using run
proof (cases rule: refresh_cases)
  case (rotated claims s user token w1)
  let ?n = "new_session t (jwt cfg) sid (s_user s) (s_device s) (hash_refresh_token y token) jti None None"
  note I = insert_session_Inr [OF rotated(8)]
  have s: "s \<in> set (t_sessions w)" "s_jti s = rc_jti claims" using find_Some_in [OF rotated(2)] by auto
  have "sid \<noteq> s_id s" "jti \<noteq> s_jti s" using I(2) [OF s(1)] by auto
  moreover have "t_sessions w' = upd (\<lambda>q. s_id q = s_id s) (\<lambda>q. q\<lparr>s_rotated_to := Some sid\<rparr>) (t_sessions w) @ [?n]"
    using \<open>sid \<noteq> s_id s\<close> by (simp add: rotated(9) I(1) upd_def)
  moreover have "s_token_hash ?n = hash_refresh_token y (ar_refresh_token r)"
    using rotated(10) by (auto simp: mk_auth_response_def split: sum.splits)
  moreover have "s_id q \<noteq> sid \<and> s_jti q \<noteq> jti" if "q \<in> set (t_sessions w)" for q using I(2) [OF that] by simp
  ultimately show ?thesis
    using rotated(1,4,5) s by (intro that [of claims s ?n]) (auto simp: open_session_def rotated(9) I(1))
qed simp_all

text \<open>The next use of a rotated token revokes its session and the one it was rotated to.\<close>

lemma reuse_detected:
  assumes inv: "auth_inv w" and s: "s \<in> set (t_sessions w)" "s_jti s = rc_jti claims" "s_revoked_reason s = None" "s_rotated_to s = Some nxt"
    and tok: "verify_refresh_token y t tok = Inr claims" and gen: "genuine w claims"
  shows "\<exists>w'. refresh x y cfg t i j tok w = (Inl RefreshTokenReuse, w') \<and>
     t_sessions w' = upd (\<lambda>q. s_id q = s_id s \<or> s_id q = nxt)
       (\<lambda>q. q\<lparr>s_revoked_at := Some t, s_revoked_reason := Some ''reuse_detected''\<rparr>) (t_sessions w)"
proof -
  have find_s: "find (\<lambda>q. s_jti q = rc_jti claims) (t_sessions w) = Some s"
    using s(1,2) by (intro find_unique [OF auth_invD(5) [OF inv, unfolded ukey_def]]) auto
  have g: "s_id s = rc_sid claims" "s_user s = rc_sub claims" "s_device s = rc_did claims"
    by (rule genuineD [OF inv gen s(1,2)])+
  obtain d where d: "d \<in> set (t_devices w)" "d_id d = s_device s" "d_user d = s_user s" by (rule session_device [OF inv s(1)])
  obtain u where u: "u \<in> set (t_users w)" "u_id u = s_user s" using fkeyD [OF auth_invD(7) [OF inv] d(1)] d(3) by auto
  have find_u: "find (\<lambda>r. u_id r = s_user s) (t_users w) = Some u"
    using u by (intro find_unique [OF auth_invD(1) [OF inv, unfolded ukey_def]]) auto
  have "audit_log t (Some (rc_sub claims)) (Some (rc_did claims)) ev meta (revoke_sessions t re P w) \<noteq> Inl e" for ev meta re P e
    using u d g by (auto simp: audit_log_def user_exists_def device_exists_def revoke_sessions_def)
  then have "t_sessions (revoke_reused x t claims nxt w) = upd (\<lambda>q. s_id q = s_id s \<or> s_id q = nxt)
       (\<lambda>q. q\<lparr>s_revoked_at := Some t, s_revoked_reason := Some ''reuse_detected''\<rparr>) (t_sessions w)"
    by (auto simp: revoke_reused_def Let_def g revoke_sessions_def split: sum.splits dest!: audit_log_Inr)
  moreover have "refresh x y cfg t i j tok w = (Inl RefreshTokenReuse, revoke_reused x t claims nxt w)"
    using s(3,4) by (simp add: refresh_def tok find_s find_u)
  ultimately show ?thesis by blast
qed

text \<open>
  C10: A refresh token works once: presenting it again after a successful refresh is answered with
  \<open>RefreshTokenReuse\<close>, and from then on neither its session nor the session it was exchanged for
  lets a request through, and neither refresh token is accepted.
\<close>

theorem refresh_reuse_revokes:
  assumes inv: "auth_inv w" and run: "refresh x y cfg t sid jti tok w = (Inr r, w1)"
    and tok: "verify_refresh_token y t' tok = Inr claims" "verify_refresh_token y t tok = Inr claims" and gen: "genuine w claims"
  shows "\<exists>w2. refresh x y cfg t' i j tok w1 = (Inl RefreshTokenReuse, w2) \<and>
    (\<forall>rate now header au. require_auth y rate now header w2 = Inr au \<longrightarrow> au_session au \<noteq> rc_sid claims \<and> au_session au \<noteq> sid) \<and>
    (\<forall>now tok' claims' i' j'. verify_refresh_token y now tok' = Inr claims' \<and> rc_jti claims' \<in> {rc_jti claims, jti} \<longrightarrow>
       refresh x y cfg now i' j' tok' w2 = (Inl InvalidRefreshToken, w2))"
  using inv run
proof (rule refresh_ok)
  fix claims0 s n
  assume c: "verify_refresh_token y t tok = Inr claims0" and s: "s \<in> set (t_sessions w)" "s_jti s = rc_jti claims0" "s_revoked_reason s = None"
    and n: "s_id n = sid" "s_jti n = jti" "sid \<noteq> s_id s"
    and rows: "t_sessions w1 = upd (\<lambda>q. s_id q = s_id s) (\<lambda>q. q\<lparr>s_rotated_to := Some sid\<rparr>) (t_sessions w) @ [n]"
  let ?s = "s\<lparr>s_rotated_to := Some sid\<rparr>"
  have inv1: "auth_inv w1" by (rule refresh.accounts [OF inv run])
  have claims: "claims0 = claims" using c tok(2) by simp
  have s1: "?s \<in> set (t_sessions w1)" using s(1) by (auto simp: rows in_upd_iff)
  note G = genuineD [OF inv gen s(1,2) [unfolded claims]]
  have gen1: "genuine w1 claims" unfolding genuine_def using s1 s(2) G claims by (intro bexI [of _ ?s]) simp_all
  have "\<exists>w2. refresh x y cfg t' i j tok w1 = (Inl RefreshTokenReuse, w2) \<and> t_sessions w2 = upd (\<lambda>q. s_id q = s_id ?s \<or> s_id q = sid)
       (\<lambda>q. q\<lparr>s_revoked_at := Some t', s_revoked_reason := Some ''reuse_detected''\<rparr>) (t_sessions w1)"
    using s claims by (intro reuse_detected [OF inv1 s1 _ _ _ tok(1) gen1]) simp_all
  then obtain w2 where w2: "refresh x y cfg t' i j tok w1 = (Inl RefreshTokenReuse, w2)"
    "t_sessions w2 = t_sessions (revoke_sessions t' ''reuse_detected'' (\<lambda>q. s_id q = s_id ?s \<or> s_id q = sid) w1)"
    by (auto simp: revoke_sessions_def)
  let ?P = "\<lambda>q. s_id q = s_id s \<or> s_id q = sid"
  have closed: "closed_sessions w2 ?P"
    using revoke_sessions_closes [of w1 ?P "\<lambda>q. s_id q = s_id ?s \<or> s_id q = sid" t' "''reuse_detected''"]
    by (simp add: closed_sessions_def w2(2))
  have P: "?P q" if q: "q \<in> set (t_sessions w2)" "s_jti q = rc_jti claims \<or> s_jti q = jti" for q
  proof -
    obtain q' where q': "q' \<in> set (t_sessions w1)" "s_id q' = s_id q" "s_jti q' = s_jti q"
      using revoke_sessions_row [OF q(1) [unfolded w2(2)]] by auto
    have "n \<in> set (t_sessions w1)" by (simp add: rows)
    then have "q' = ?s \<or> q' = n"
      using ukeyD [OF auth_invD(5) [OF inv1] q'(1)] s1 q(2) q'(3) s(2) claims n(2) by fastforce
    then show ?thesis using q'(2) n(1) by auto
  qed
  have "au_session au \<noteq> rc_sid claims \<and> au_session au \<noteq> sid" if "require_auth y rate now header w2 = Inr au" for rate now header au
    using closed_session_refused(1) [OF closed that] G(1) by metis
  moreover have "refresh x y cfg now i' j' tok' w2 = (Inl InvalidRefreshToken, w2)"
    if "verify_refresh_token y now tok' = Inr claims'" "rc_jti claims' \<in> {rc_jti claims, jti}" for now tok' claims' i' j'
    using P that(2) by (intro closed_session_refused(2) [OF closed that(1)]) auto
  ultimately show ?thesis using w2(1) by blast
qed

text \<open>
  The detection of reuse revokes two sessions, not the chain: when the token was exchanged twice
  before it is replayed, the session of the second exchange stays open.
\<close>

theorem refresh_reuse_spares_third:
  assumes inv: "auth_inv w"
    and run1: "refresh x y cfg t1 sid1 jti1 tok0 w = (Inr ra, w1)" and tok1: "verify_refresh_token y t2 tok1 = Inr claims1" "rc_jti claims1 = jti1"
    and run2: "refresh x y cfg t2 sid2 jti2 tok1 w1 = (Inr rb, w2)"
    and tok0: "verify_refresh_token y t1 tok0 = Inr claims" "verify_refresh_token y t3 tok0 = Inr claims" and gen: "genuine w claims"
  shows "\<exists>w3. refresh x y cfg t3 i j tok0 w2 = (Inl RefreshTokenReuse, w3) \<and>
    (\<exists>n\<in>set (t_sessions w3). s_id n = sid2 \<and> open_session n \<and> s_token_hash n = hash_refresh_token y (ar_refresh_token rb))"
  using inv run1
proof (rule refresh_ok)
  fix c0 s n
  assume c0: "verify_refresh_token y t1 tok0 = Inr c0" and s: "s \<in> set (t_sessions w)" "s_jti s = rc_jti c0" "s_revoked_reason s = None"
    and n: "s_id n = sid1" "s_jti n = jti1" "sid1 \<noteq> s_id s" "jti1 \<noteq> s_jti s"
    and rows1: "t_sessions w1 = upd (\<lambda>q. s_id q = s_id s) (\<lambda>q. q\<lparr>s_rotated_to := Some sid1\<rparr>) (t_sessions w) @ [n]"
  let ?s = "s\<lparr>s_rotated_to := Some sid1\<rparr>"
  have inv1: "auth_inv w1" by (rule refresh.accounts [OF inv run1])
  have inv2: "auth_inv w2" by (rule refresh.accounts [OF inv1 run2])
  have claims: "c0 = claims" using c0 tok0(1) by simp
  have s1: "?s \<in> set (t_sessions w1)" "n \<in> set (t_sessions w1)" using s(1) by (auto simp: rows1 in_upd_iff)
  note G = genuineD [OF inv gen s(1,2) [unfolded claims]]
  from inv1 run2 show ?thesis
  proof (rule refresh_ok)
    fix c1 q m
    assume c1: "verify_refresh_token y t2 tok1 = Inr c1" and q: "q \<in> set (t_sessions w1)" "s_jti q = rc_jti c1"
      and m: "s_id m = sid2" "open_session m" "s_token_hash m = hash_refresh_token y (ar_refresh_token rb)"
      and rows2: "t_sessions w2 = upd (\<lambda>a. s_id a = s_id q) (\<lambda>a. a\<lparr>s_rotated_to := Some sid2\<rparr>) (t_sessions w1) @ [m]"
      and fresh: "\<And>a. a \<in> set (t_sessions w1) \<Longrightarrow> s_id a \<noteq> sid2 \<and> s_jti a \<noteq> jti2"
    have "q = n" using ukeyD [OF auth_invD(5) [OF inv1] q(1) s1(2)] q(2) c1 tok1 n(2) by simp
    then have s2: "?s \<in> set (t_sessions w2)" using s1(1) n(1,3) by (auto simp: rows2 in_upd_iff intro!: bexI [of _ ?s])
    have gen2: "genuine w2 claims" unfolding genuine_def using s2 s(2) G claims by (intro bexI [of _ ?s]) simp_all
    obtain w3 where w3: "refresh x y cfg t3 i j tok0 w2 = (Inl RefreshTokenReuse, w3)"
      "t_sessions w3 = upd (\<lambda>a. s_id a = s_id ?s \<or> s_id a = sid1) (\<lambda>a. a\<lparr>s_revoked_at := Some t3, s_revoked_reason := Some ''reuse_detected''\<rparr>) (t_sessions w2)"
      using reuse_detected [OF inv2 s2 _ _ _ tok0(2) gen2, of sid1 x cfg i j] s claims by auto
    have "sid2 \<noteq> s_id s" "sid2 \<noteq> sid1" using fresh [OF s1(1)] fresh [OF s1(2)] n(1) by auto
    then have "m \<in> set (t_sessions w3)" using m(1) by (auto simp: w3(2) rows2 in_upd_iff intro!: bexI [of _ m])
    then show ?thesis using w3(1) m by blast
  qed
qed

subsection \<open>Signing up\<close>

text \<open>What a successful sign-up leaves in the tables.\<close>

lemma signup_complete_ok:
  assumes "signup_complete x y cfg now salts uid did sid jti req w = (Inr r, w')"
  obtains pending keys auth_hash recovery_hash where "map_of (pending_signups w) (sc_token req) = Some pending" "signup_keys x req = Inr keys"
    "hash_auth_key y (fst salts) (sc_auth_key req) (bcrypt_cost cfg) = Inr auth_hash" "now \<le> ps_expires_at pending"
    "t_users w' = t_users w @ [new_user now uid pending (sc_full_name req) auth_hash recovery_hash keys]"
    "\<And>e. e \<in> set (pending_signups w') \<Longrightarrow> fst e \<noteq> sc_token req"
proof -
  from assms obtain pending where p: "map_of (pending_signups w) (sc_token req) = Some pending" "now \<le> ps_expires_at pending"
    by (auto simp: signup_complete_def Let_def split: option.splits if_splits)
  let ?w0 = "drop_signup (sc_token req) w"
  from p(2) have late: "\<not> ps_expires_at pending < now" by simp
  from assms obtain keys auth_hash recovery_hash w1 w2 token w3
    where k: "signup_keys x req = Inr keys" "hash_auth_key y (fst salts) (sc_auth_key req) (bcrypt_cost cfg) = Inr auth_hash"
    and ins: "insert_user (new_user now uid pending (sc_full_name req) auth_hash recovery_hash keys) ?w0 = Inr w1"
      "insert_device (new_device now did uid (sc_device_name req) (fst (snd keys))) w1 = Inr w2"
      "insert_session (new_session now (jwt cfg) sid uid did (hash_refresh_token y token) jti None None) w2 = Inr w3"
      "audit_log now (Some uid) (Some did) ''signup_complete'' (JObj []) w3 = Inr w'"
    unfolding signup_complete_def p(1) option.case Let_def if_not_P [OF late] attempt_oks by blast
  have "w' = ?w0\<lparr>t_users := t_users w', t_devices := t_devices w', t_sessions := t_sessions w', t_audit := t_audit w'\<rparr>"
    "t_users w' = t_users w @ [new_user now uid pending (sc_full_name req) auth_hash recovery_hash keys]"
    using insert_user_Inr(1) [OF ins(1)] insert_device_Inr(1) [OF ins(2)] insert_session_Inr(1) [OF ins(3)] audit_log_Inr [OF ins(4)]
    by (auto simp: drop_signup_def)
  moreover from this(1) have "pending_signups w' = del (\<lambda>e. fst e = sc_token req) (pending_signups w)"
    using insert_user_Inr(1) [OF ins(1)] insert_device_Inr(1) [OF ins(2)] insert_session_Inr(1) [OF ins(3)] audit_log_Inr [OF ins(4)]
    by (auto simp: drop_signup_def)
  ultimately show ?thesis using k p by (intro that [of pending keys auth_hash recovery_hash]) auto
qed

lemma signup_init_ok:
  assumes "signup_init x y cfg now salt token_id email w = (Inr si, w1)"
  shows "w1 = w\<lparr>pending_signups := pending_signups w1\<rparr>"
    and "si_salt si = encode_b64 x salt" "si_argon2_params si = argon2_params_json (argon2 cfg)"
    and "map_of (pending_signups w1) (si_token si) =
      Some \<lparr>ps_email = email, ps_email_normalized = normalized_email y email, ps_salt = salt,
        ps_argon2_params = argon2_params_json (argon2 cfg), ps_expires_at = now + 600000000\<rparr>"
proof -
  have "map_of (del (\<lambda>e. fst e = k) es @ [(k, v)]) k = Some v" for k v and es :: "(string \<times> pending_signup) list"
    by (induction es) (auto simp: del_def)
  then show "w1 = w\<lparr>pending_signups := pending_signups w1\<rparr>" "si_salt si = encode_b64 x salt"
    "si_argon2_params si = argon2_params_json (argon2 cfg)"
    "map_of (pending_signups w1) (si_token si) =
      Some \<lparr>ps_email = email, ps_email_normalized = normalized_email y email, ps_salt = salt,
        ps_argon2_params = argon2_params_json (argon2 cfg), ps_expires_at = now + 600000000\<rparr>"
    using assms by (auto simp: signup_init_def Let_def attempt_oks)
qed

text \<open>Credentials that the stored hash accepts take a login past the credential check.\<close>

lemma login_accepts:
  assumes inv: "auth_inv w" and user: "user \<in> set (t_users w)" "u_email_normalized user = normalized_email y (lr_email req)"
      "u_disabled_at user = None" "verify_auth_key y (lr_auth_key req) (u_auth_key_hash user)"
    and b64: "b64_decode x (lr_auth_key req) \<noteq> None" "b64_decode x (lr_device_pubkey req) = Some pubkey" "length pubkey = 32"
    and dev: "lr_device_id req = None" "\<And>d. d \<in> set (t_devices w) \<Longrightarrow> d_id d \<noteq> did"
    and tokens: "\<And>c. jwt_encode_access y c \<noteq> None" "\<And>c. jwt_encode_refresh y c \<noteq> None"
    and fresh: "\<And>s. s \<in> set (t_sessions w) \<Longrightarrow> s_id s \<noteq> sid \<and> s_jti s \<noteq> jti"
      "\<And>s c t. s \<in> set (t_sessions w) \<Longrightarrow> jwt_encode_refresh y c = Some t \<Longrightarrow> rc_jti c = jti \<Longrightarrow> s_token_hash s \<noteq> sha256_hex y t"
  shows "\<exists>r w'. login x y cfg now did sid jti req ip ua w = (Inr r, w')"
proof -
  have find_u: "find (\<lambda>u. u_email_normalized u = normalized_email y (lr_email req)) (t_users w) = Some user"
    using user by (intro find_unique [OF auth_invD(2) [OF inv, unfolded ukey_def]]) auto
  have key: "\<not> isl (decode_b64 x (lr_auth_key req))" "decode_b64 x (lr_device_pubkey req) = Inr pubkey"
    using b64 by (auto simp: decode_b64_def split: option.splits)
  let ?d = "new_device now did (u_id user) (lr_device_name req) pubkey"
  have "insert_device ?d w = Inr (w\<lparr>t_devices := t_devices w @ [?d]\<rparr>)"
    using b64(3) dev(2) user(1) by (auto simp: insert_device_def new_device_def user_exists_def)
  then have dev_ok: "login_device now did (u_id user) req pubkey w = Inr (did, w\<lparr>t_devices := t_devices w @ [?d]\<rparr>)"
    by (simp add: login_device_def dev(1))
  obtain tok access where tok: "sign_refresh_token y now (u_id user) sid did jti (jwt cfg) = Inr tok"
      "sign_access_token y now (u_id user) sid did (jwt cfg) = Inr access"
    using tokens by (fastforce simp: sign_refresh_token_def sign_access_token_def split: option.splits)
  have hash: "s_token_hash s \<noteq> hash_refresh_token y tok" if "s \<in> set (t_sessions w)" for s
    using fresh(2) [OF that] tok(1) by (fastforce simp: hash_refresh_token_def sign_refresh_token_def split: option.splits)
  have "\<exists>w2. insert_session (new_session now (jwt cfg) sid (u_id user) did (hash_refresh_token y tok) jti ua ip) (w\<lparr>t_devices := t_devices w @ [?d]\<rparr>) = Inr w2 \<and>
      t_users w2 = t_users w \<and> t_devices w2 = t_devices w @ [?d]"
    using user(1) fresh(1) hash by (auto simp: insert_session_def new_session_def user_exists_def device_exists_def new_device_def)
  then obtain w2 where w2: "insert_session (new_session now (jwt cfg) sid (u_id user) did (hash_refresh_token y tok) jti ua ip) (w\<lparr>t_devices := t_devices w @ [?d]\<rparr>) = Inr w2"
      "t_users w2 = t_users w" "t_devices w2 = t_devices w @ [?d]" by blast
  have "\<exists>w3. audit_log now (Some (u_id user)) (Some did) ''login_success'' (JObj []) w2 = Inr w3"
    using user(1) w2 by (auto simp: audit_log_def user_exists_def device_exists_def new_device_def)
  then show ?thesis
    using user key b64 find_u dev_ok tok w2 by (auto simp: login_def check_that_def)
qed

text \<open>
  C9: Signing up and then signing in from a new device works: the salt and the parameters that
  \<open>prelogin\<close> answers for the email are those the sign-up handed out, so that the client derives the
  same key; the login with that key succeeds; and the key bundle the account returns is the one that
  was sent at sign-up.
\<close>

theorem signup_then_login:
  assumes inv: "auth_inv w" and promise: "bcrypt_promise y" "canonical_codec x"
    and init: "signup_init x y cfg t0 salt token_id email w = (Inr si, w1)"
    and complete: "signup_complete x y cfg t1 salts uid did sid jti req w1 = (Inr r, w2)" "sc_token req = si_token si"
    and q: "normalized_email y (lr_email q) = normalized_email y email" "lr_auth_key q = sc_auth_key req" "lr_device_id q = None"
      "b64_decode x (lr_auth_key q) \<noteq> None" "b64_decode x (lr_device_pubkey q) = Some pubkey" "length pubkey = 32"
    and fresh: "\<And>d. d \<in> set (t_devices w2) \<Longrightarrow> d_id d \<noteq> did'" "\<And>s. s \<in> set (t_sessions w2) \<Longrightarrow> s_id s \<noteq> sid' \<and> s_jti s \<noteq> jti'"
      "\<And>s c t. s \<in> set (t_sessions w2) \<Longrightarrow> jwt_encode_refresh y c = Some t \<Longrightarrow> rc_jti c = jti' \<Longrightarrow> s_token_hash s \<noteq> sha256_hex y t"
    and tokens: "\<And>c. jwt_encode_access y c \<noteq> None" "\<And>c. jwt_encode_refresh y c \<noteq> None"
  shows "prelogin x y cfg (lr_email q) w2 = \<lparr>pr_salt = si_salt si, pr_argon2_params = si_argon2_params si\<rparr> \<and>
    (\<exists>r' w3. login x y cfg t2 did' sid' jti' q ip ua w2 = (Inr r', w3)) \<and>
    get_keys x uid w2 = Inr \<lparr>kb_wrapped_dek = sc_wrapped_dek req, kb_wrapped_dek_nonce = sc_wrapped_dek_nonce req,
      kb_recovery_wrapped_dek = sc_recovery_wrapped_dek req, kb_recovery_wrapped_dek_nonce = sc_recovery_wrapped_dek_nonce req\<rparr>"
proof -
  note I = signup_init_ok [OF init]
  have inv1: "auth_inv w1" using inv I(1) by (metis auth_inv_signups)
  then have inv2: "auth_inv w2" by (rule signup_complete.accounts [OF _ complete(1)])
  obtain pending keys auth_hash recovery_hash where C: "map_of (pending_signups w1) (sc_token req) = Some pending" "signup_keys x req = Inr keys"
    "hash_auth_key y (fst salts) (sc_auth_key req) (bcrypt_cost cfg) = Inr auth_hash"
    "t_users w2 = t_users w1 @ [new_user t1 uid pending (sc_full_name req) auth_hash recovery_hash keys]"
    by (rule signup_complete_ok [OF complete(1)])
  define user where "user = new_user t1 uid pending (sc_full_name req) auth_hash recovery_hash keys"
  have user: "user \<in> set (t_users w2)" by (simp add: C(4) user_def)
  have pending: "ps_email_normalized pending = normalized_email y email" "ps_salt pending = salt"
    "ps_argon2_params pending = argon2_params_json (argon2 cfg)"
    using C(1) I(4) complete(2) by auto
  obtain ip dp wd wn rd rn where keys: "keys = (ip, dp, wd, wn, rd, rn)" by (cases keys)
  have dec: "b64_decode x (sc_wrapped_dek req) = Some wd" "b64_decode x (sc_wrapped_dek_nonce req) = Some wn"
    "b64_decode x (sc_recovery_wrapped_dek req) = Some rd" "b64_decode x (sc_recovery_wrapped_dek_nonce req) = Some rn"
    using C(2) by (auto simp: signup_keys_def keys and_then_ok decode_ok)
  have row: "u_id user = uid" "u_email_normalized user = normalized_email y (lr_email q)" "u_disabled_at user = None" "u_salt user = salt"
    "u_argon2_params user = argon2_params_json (argon2 cfg)" "u_auth_key_hash user = auth_hash"
    "u_wrapped_dek user = wd" "u_wrapped_dek_nonce user = wn" "u_recovery_wrapped_dek user = rd" "u_recovery_wrapped_dek_nonce user = rn"
    by (simp_all add: user_def new_user_def keys pending q(1))
  have "verify_auth_key y (lr_auth_key q) (u_auth_key_hash user)"
    using C(3) promise(1) by (auto simp: verify_auth_key_def hash_auth_key_def bcrypt_promise_def row q(2) split: option.splits)
  then have "\<exists>r' w3. login x y cfg t2 did' sid' jti' q ip' ua w2 = (Inr r', w3)" for ip'
    by (rule login_accepts [OF inv2 user row(2,3) _ q(4-6,3) fresh(1) tokens fresh(2,3)])
  moreover have "find (\<lambda>u. u_email_normalized u = normalized_email y (lr_email q) \<and> u_disabled_at u = None) (t_users w2) = Some user"
    using user row by (intro find_unique [OF auth_invD(2) [OF inv2, unfolded ukey_def]]) auto
  moreover have "find (\<lambda>u. u_id u = uid) (t_users w2) = Some user"
    using user row by (intro find_unique [OF auth_invD(1) [OF inv2, unfolded ukey_def]]) auto
  ultimately show ?thesis
    using dec promise(2) by (auto simp: prelogin_def get_keys_def row I(2,3) canonical_codec_def encode_b64_def)
qed

subsection \<open>The properties at the sample accounts\<close>

lemma sample_session: "new_session 0 (jwt sample_settings) 3 1 2 sample_token 4 None None \<in> set (t_sessions sample_accounts)"
  by (simp add: sample_accounts_def)

theorem logout_ends_session_witness:
  "let w' = snd (logout sample_auth 5 1 3 2 True None sample_accounts)
   in refresh sample_ext sample_auth sample_settings 6 8 9 sample_token w' = (Inl InvalidRefreshToken, w')"
proof -
  obtain r w' where run: "logout sample_auth 5 1 3 2 True None sample_accounts = (r, w')" by (metis surj_pair)
  have own: "\<exists>s\<in>set (t_sessions sample_accounts). s_id s = 3 \<and> s_user s = 1 \<and> s_device s = 2"
    using sample_session by (rule bexI [rotated]) (simp add: new_session_def)
  have tok: "verify_refresh_token sample_auth 6 sample_token = Inr sample_claims"
    by (rule sample_token_verifies) (simp add: unix_secs_def)
  have "refresh sample_ext sample_auth sample_settings 6 8 9 sample_token w' = (Inl InvalidRefreshToken, w')"
    using conjunct2 [OF conjunct2 [OF logout_ends_session [OF sample_accounts_inv run own]], rule_format, OF sample_session,
        of 6 sample_token sample_claims sample_ext sample_settings 8 9] tok
    by (simp add: sample_claims_def new_session_def)
  then show ?thesis by (simp only: run snd_conv Let_def)
qed

theorem revoke_device_locks_out_witness:
  "let w' = snd (revoke_device 5 1 2 9 sample_accounts)
   in refresh sample_ext sample_auth sample_settings 6 8 9 sample_token w' = (Inl InvalidRefreshToken, w')"
proof -
  have "fst (revoke_device 5 1 2 9 sample_accounts) = Inr ()" by (simp add: revoke_device_def sample_run)
  then obtain w' where run: "revoke_device 5 1 2 9 sample_accounts = (Inr (), w')" by (metis prod.collapse)
  have tok: "verify_refresh_token sample_auth 6 sample_token = Inr sample_claims"
    by (rule sample_token_verifies) (simp add: unix_secs_def)
  have "refresh sample_ext sample_auth sample_settings 6 8 9 sample_token w' = (Inl InvalidRefreshToken, w')"
    using conjunct2 [OF revoke_device_locks_out [OF sample_accounts_inv run], rule_format, OF sample_session,
        of sample_auth 6 sample_token sample_claims sample_ext sample_settings 8 9] tok
    by (simp add: sample_claims_def new_session_def)
  then show ?thesis by (simp only: run snd_conv Let_def)
qed

text \<open>A run that is known to succeed returns its result.\<close>

lemma run_result: "\<not> isl (fst p) \<Longrightarrow> \<exists>r w'. p = (Inr r, w')"
  by (cases p; cases "fst p") auto

definition sample_login :: login_request where
  "sample_login = \<lparr>lr_email = ''A@b.c'', lr_auth_key = ''01'', lr_device_pubkey = replicate 32 CHR ''0'', lr_device_name = ''phone'',
     lr_device_id = None\<rparr>"

lemma sample_email: "normalized_email sample_auth ''A@b.c'' = ''a@b.c''"
  by code_simp

lemma sample_login_run:
  shows "\<not> isl (fst (login sample_ext sample_auth sample_settings 0 12 13 14 sample_login None None sample_accounts))"
    and "map (\<lambda>s. (s_id s, s_user s, s_device s))
       (t_sessions (snd (login sample_ext sample_auth sample_settings 0 12 13 14 sample_login None None sample_accounts))) =
       [(3, 1, 2), (13, 1, 12)]"
  unfolding login_def sample_login_def login_request.simps sample_email Let_def
  by (simp_all add: unix_secs_def sample_run login_device_def insert_device_def new_device_def
      sample_ext_def verify_auth_key_def decode_b64_def list_all_iff)

theorem login_opens_session_witness:
  "\<exists>r w'. login sample_ext sample_auth sample_settings 0 12 13 14 sample_login None None sample_accounts = (Inr r, w') \<and>
     require_auth sample_auth (\<lambda>_. True) 60000000 (Some (''Bearer '' @ ar_access_token r)) w' =
       Inr \<lparr>au_user = 1, au_device = 12, au_session = 13\<rparr>"
proof -
  let ?run = "login sample_ext sample_auth sample_settings 0 12 13 14 sample_login None None sample_accounts"
  obtain r w' where run: "?run = (Inr r, w')" using sample_login_run(1) run_result by blast
  then have "map (\<lambda>s. (s_id s, s_user s, s_device s)) (t_sessions w') = [(3, 1, 2), (13, 1, 12)]" using sample_login_run(2) by simp
  moreover have "\<exists>user\<in>set (t_users sample_accounts). \<exists>s. t_sessions w' = t_sessions sample_accounts @ [s] \<and> s_id s = 13 \<and> s_user s = u_id user \<and>
     require_auth sample_auth (\<lambda>_. True) 60000000 (Some (''Bearer '' @ ar_access_token r)) w' =
       Inr \<lparr>au_user = u_id user, au_device = s_device s, au_session = 13\<rparr>"
    using login_opens_session [OF sample_accounts_inv run sample_auth_promises(1), of 60000000]
    by (auto simp: sample_settings_def unix_secs_def)
  ultimately show ?thesis using run by (auto simp: sample_accounts_def)
qed

theorem refresh_reuse_revokes_witness:
  "let w1 = snd (refresh sample_ext sample_auth sample_settings 0 5 6 sample_token sample_accounts);
       w2 = snd (refresh sample_ext sample_auth sample_settings 1 7 8 sample_token w1)
   in fst (refresh sample_ext sample_auth sample_settings 1 7 8 sample_token w1) = Inl RefreshTokenReuse \<and>
      refresh sample_ext sample_auth sample_settings 2 9 10 sample_token w2 = (Inl InvalidRefreshToken, w2)"
proof -
  let ?run = "refresh sample_ext sample_auth sample_settings 0 5 6 sample_token sample_accounts"
  have tok: "verify_refresh_token sample_auth t sample_token = Inr sample_claims" if "t \<in> {0, 1, 2}" for t
    using that by (intro sample_token_verifies) (auto simp: unix_secs_def)
  have "\<not> isl (fst ?run)"
    unfolding refresh_def tok [of 0, simplified] attempt_simps by (simp add: sample_run unix_secs_def)
  then obtain r w1 where run: "?run = (Inr r, w1)" using run_result by blast
  have "genuine sample_accounts sample_claims" by (simp add: genuine_def sample_account_rows sample_claims_def)
  from refresh_reuse_revokes [OF sample_accounts_inv run tok tok this, of 1 7 8] tok [of 2]
  show ?thesis by (auto simp: run Let_def)
qed

lemma sample_refresh:
  "\<exists>ra. refresh sample_ext sample_auth sample_settings 0 5 6 sample_token sample_accounts =
     (Inr ra, sample_accounts\<lparr>t_sessions := [(new_session 0 (jwt sample_settings) 3 1 2 sample_token 4 None None)\<lparr>s_rotated_to := Some 5\<rparr>,
       new_session 0 (jwt sample_settings) 5 1 2 (hash_refresh_token sample_auth (ar_refresh_token ra)) 6 None None]\<rparr>) \<and>
     verify_refresh_token sample_auth 0 (ar_refresh_token ra) = Inr (sample_claims\<lparr>rc_sid := 5, rc_jti := 6\<rparr>) \<and>
     (\<exists>fs. ar_refresh_token ra = quoted fs \<and> length fs = 8 \<and> fs ! 1 = show_nat 5)"
  unfolding refresh_def sample_token_verifies [of 0, unfolded unix_secs_def, simplified] attempt_simps
  by (simp add: sample_run unix_secs_def verify_refresh_token_def unquoted_quoted read_show_nat mk_auth_response_def)

lemma sample_refresh_again:
  assumes "verify_refresh_token sample_auth 0 tok = Inr (sample_claims\<lparr>rc_sid := 5, rc_jti := 6\<rparr>)"
    and "w1 = sample_accounts\<lparr>t_sessions := [s0\<lparr>s_rotated_to := Some 5\<rparr>,
       new_session 0 (jwt sample_settings) 5 1 2 (hash_refresh_token sample_auth tok) 6 None None]\<rparr>"
    and "s0 = new_session 0 (jwt sample_settings) 3 1 2 sample_token 4 None None" and "tok = quoted fs" "length fs = 8" "fs ! 1 = show_nat 5"
  shows "\<not> isl (fst (refresh sample_ext sample_auth sample_settings 0 15 16 tok w1))"
  unfolding refresh_def assms(1) attempt_simps
  using assms(2-) by (auto simp add: sample_run unix_secs_def)

theorem refresh_reuse_spares_third_witness:
  "\<exists>tok1 w2 w3. w2 = snd (refresh sample_ext sample_auth sample_settings 0 15 16 tok1
       (snd (refresh sample_ext sample_auth sample_settings 0 5 6 sample_token sample_accounts))) \<and>
     refresh sample_ext sample_auth sample_settings 1 17 18 sample_token w2 = (Inl RefreshTokenReuse, w3) \<and>
     (\<exists>n\<in>set (t_sessions w3). s_id n = 15 \<and> open_session n)"
proof -
  obtain ra w1 fs where run1: "refresh sample_ext sample_auth sample_settings 0 5 6 sample_token sample_accounts = (Inr ra, w1)"
    and w1: "w1 = sample_accounts\<lparr>t_sessions := [(new_session 0 (jwt sample_settings) 3 1 2 sample_token 4 None None)\<lparr>s_rotated_to := Some 5\<rparr>,
       new_session 0 (jwt sample_settings) 5 1 2 (hash_refresh_token sample_auth (ar_refresh_token ra)) 6 None None]\<rparr>"
    and tok1: "verify_refresh_token sample_auth 0 (ar_refresh_token ra) = Inr (sample_claims\<lparr>rc_sid := 5, rc_jti := 6\<rparr>)"
    and fs: "ar_refresh_token ra = quoted fs" "length fs = 8" "fs ! 1 = show_nat 5"
    using sample_refresh by blast
  obtain rb w2 where run2: "refresh sample_ext sample_auth sample_settings 0 15 16 (ar_refresh_token ra) w1 = (Inr rb, w2)"
    using run_result [OF sample_refresh_again [OF tok1 w1 refl fs]] by blast
  have tok0: "verify_refresh_token sample_auth 0 sample_token = Inr sample_claims" "verify_refresh_token sample_auth 1 sample_token = Inr sample_claims"
    by (simp_all add: sample_token_verifies unix_secs_def)
  have "genuine sample_accounts sample_claims" by (simp add: genuine_def sample_account_rows sample_claims_def)
  with refresh_reuse_spares_third [OF sample_accounts_inv run1 tok1 _ run2 tok0, of 17 18] show ?thesis
    using run1 run2 by (intro exI [of _ "ar_refresh_token ra"]) auto
qed

definition sample_signup :: signup_complete_request where
  "sample_signup = \<lparr>sc_token = show_nat 9, sc_full_name = ''A'', sc_auth_key = ''01'', sc_recovery_auth_key = ''11'',
     sc_wrapped_dek = ''0110'', sc_wrapped_dek_nonce = replicate 24 CHR ''1'', sc_recovery_wrapped_dek = ''1001'',
     sc_recovery_wrapped_dek_nonce = replicate 24 CHR ''0'', sc_identity_pubkey = replicate 32 CHR ''0'',
     sc_device_pubkey = replicate 32 CHR ''1'', sc_device_name = ''laptop''\<rparr>"

lemma sample_signup_init:
  "\<exists>si. signup_init sample_ext sample_auth sample_settings 0 (replicate 16 0) 9 ''A@b.c'' empty_vault = (Inr si, empty_vault\<lparr>pending_signups :=
     [(show_nat 9, \<lparr>ps_email = ''A@b.c'', ps_email_normalized = ''a@b.c'', ps_salt = replicate 16 0,
       ps_argon2_params = argon2_params_json (argon2 sample_settings), ps_expires_at = 600000000\<rparr>)]\<rparr>) \<and> si_token si = show_nat 9"
  by (simp add: signup_init_def sample_email Let_def empty_vault_def del_def check_that_def) (simp add: sample_ext_def)

lemma sample_signup_complete:
  assumes "w1 = empty_vault\<lparr>pending_signups := [(show_nat 9, \<lparr>ps_email = ''A@b.c'', ps_email_normalized = ''a@b.c'', ps_salt = replicate 16 0,
       ps_argon2_params = p, ps_expires_at = 600000000\<rparr>)]\<rparr>"
  shows "\<exists>r w2 s. signup_complete sample_ext sample_auth sample_settings 0 (0, 0) 1 2 3 4 sample_signup w1 = (Inr r, w2) \<and>
     map d_id (t_devices w2) = [2] \<and> t_sessions w2 = [s] \<and> s_id s = 3 \<and> s_jti s = 4 \<and>
     (\<exists>a b c d e f g. s_token_hash s = quoted [a, b, c, show_nat 4, d, e, f, g])"
  unfolding assms signup_complete_def sample_signup_def signup_complete_request.simps
  by (simp add: sample_run Let_def drop_signup_def unix_secs_def signup_keys_def new_device_def insert_device_def insert_user_def new_user_def
      sample_ext_def decode_b64_def list_all_iff hash_auth_key_def)

theorem signup_then_login_witness:
  "\<exists>si w1 r w2. signup_init sample_ext sample_auth sample_settings 0 (replicate 16 0) 9 ''A@b.c'' empty_vault = (Inr si, w1) \<and>
     signup_complete sample_ext sample_auth sample_settings 0 (0, 0) 1 2 3 4 sample_signup w1 = (Inr r, w2) \<and>
     prelogin sample_ext sample_auth sample_settings ''A@b.c'' w2 = \<lparr>pr_salt = si_salt si, pr_argon2_params = si_argon2_params si\<rparr> \<and>
     (\<exists>r' w3. login sample_ext sample_auth sample_settings 5 12 13 14 sample_login None None w2 = (Inr r', w3))"
proof -
  obtain si w1 where init: "signup_init sample_ext sample_auth sample_settings 0 (replicate 16 0) 9 ''A@b.c'' empty_vault = (Inr si, w1)"
    and w1: "w1 = empty_vault\<lparr>pending_signups := [(show_nat 9, \<lparr>ps_email = ''A@b.c'', ps_email_normalized = ''a@b.c'', ps_salt = replicate 16 0,
       ps_argon2_params = argon2_params_json (argon2 sample_settings), ps_expires_at = 600000000\<rparr>)]\<rparr>" "si_token si = show_nat 9"
    using sample_signup_init by blast
  obtain r w2 s where complete: "signup_complete sample_ext sample_auth sample_settings 0 (0, 0) 1 2 3 4 sample_signup w1 = (Inr r, w2)"
    and rows: "map d_id (t_devices w2) = [2]" "t_sessions w2 = [s]" "s_id s = 3" "s_jti s = 4"
      "\<exists>a b c d e f g. s_token_hash s = quoted [a, b, c, show_nat 4, d, e, f, g]"
    using sample_signup_complete [OF w1(1)] by (elim exE conjE) (rule that, assumption+, blast)
  have "prelogin sample_ext sample_auth sample_settings (lr_email sample_login) w2 = \<lparr>pr_salt = si_salt si, pr_argon2_params = si_argon2_params si\<rparr> \<and>
      (\<exists>r' w3. login sample_ext sample_auth sample_settings 5 12 13 14 sample_login None None w2 = (Inr r', w3)) \<and>
      get_keys sample_ext 1 w2 = Inr \<lparr>kb_wrapped_dek = sc_wrapped_dek sample_signup, kb_wrapped_dek_nonce = sc_wrapped_dek_nonce sample_signup,
        kb_recovery_wrapped_dek = sc_recovery_wrapped_dek sample_signup, kb_recovery_wrapped_dek_nonce = sc_recovery_wrapped_dek_nonce sample_signup\<rparr>"
  proof (rule signup_then_login [OF _ sample_auth_promises(2) sample_ext_promises(1) init complete, of _ "replicate 32 0"])
    show "d_id d \<noteq> 12" if "d \<in> set (t_devices w2)" for d using rows(1) that by auto
    show "s_token_hash s' \<noteq> sha256_hex sample_auth t" if "s' \<in> set (t_sessions w2)" "jwt_encode_refresh sample_auth c = Some t" "rc_jti c = 14" for s' c t
      using that rows(2,5) by (auto simp: sample_auth_def show_nat_eq)
  qed (use w1(2) rows in \<open>auto simp: sample_signup_def sample_login_def auth_inv_def empty_vault_def ukey_def fkey_def sample_ext_def sample_auth_def list_all_iff\<close>)
  then show ?thesis using init complete by (auto simp: sample_login_def)
qed

end
