(* ===== verification/Server.thy ===== *)
theory Server
  imports Api Session_Properties
begin

text \<open>
  The runs of the server: its state changes by requests to protected and public routes, by the
  ticks of the background worker and by restarts, at times that do not go back. What holds in
  every state that such runs reach, and whom a request can affect.
\<close>

subsection \<open>State machines with a clock\<close>

inductive reach :: "('w \<Rightarrow> bool) \<Rightarrow> (timestamp \<Rightarrow> 'w \<Rightarrow> 'w \<Rightarrow> bool) \<Rightarrow> timestamp \<Rightarrow> 'w \<Rightarrow> bool"
  for start :: "'w \<Rightarrow> bool" and step :: "timestamp \<Rightarrow> 'w \<Rightarrow> 'w \<Rightarrow> bool" where
  reach_start: "start w \<Longrightarrow> reach start step now w"
| reach_step: "reach start step now w \<Longrightarrow> now \<le> t \<Longrightarrow> step t w w' \<Longrightarrow> reach start step t w'"

locale clocked_invariant =
  fixes start :: "'w \<Rightarrow> bool" and step :: "timestamp \<Rightarrow> 'w \<Rightarrow> 'w \<Rightarrow> bool" and good :: "timestamp \<Rightarrow> 'w \<Rightarrow> bool"
  assumes initially: "start w \<Longrightarrow> good now w"
    and ages: "good now w \<Longrightarrow> now \<le> t \<Longrightarrow> good t w"
    and preserved: "good t w \<Longrightarrow> step t w w' \<Longrightarrow> good t w'"
begin

lemma reachable_good: "reach start step now w \<Longrightarrow> good now w"
  by (induction rule: reach.induct) (blast intro: initially ages preserved)+

end

subsection \<open>The steps of the server\<close>

text \<open>A restart loses what is only in memory: pending sign-ups, event channels and the counter.\<close>

definition restart :: "vault \<Rightarrow> vault" where
  "restart w = w\<lparr>pending_signups := [], sse_channels := [], event_seq := 0\<rparr>"

inductive server_step :: "timestamp \<Rightarrow> vault \<Rightarrow> vault \<Rightarrow> bool" where
  protected_step: "serve_protected x y cfg h rate t dr headers req w = Some (res, w') \<Longrightarrow> server_step t w w'"
| public_step: "serve_public x y cfg h rate t dr headers req w = Some (res, w') \<Longrightarrow> server_step t w w'"
| worker_step: "server_step t w (cleanup_tick hrs (x, t) w)"
| restart_step: "server_step t w (restart w)"

abbreviation from_empty :: "vault \<Rightarrow> bool" where
  "from_empty \<equiv> (=) empty_vault"

lemma public_vault:
  assumes "handle_public x y cfg h now dr req w = Some p"
  shows "same_vault w (snd p)"
proof -
  note go = attempt_snd [where P = "same_vault w", OF same_vault_refl]
  have "same_vault w (snd (get_share x now sid au w))" for sid au
    by (auto simp: get_share_def Let_def split: option.split intro!: go attempt_snd [where P = "same_vault w"])
  then show ?thesis
    using assms by (cases req) (auto simp: handler_defs account_step_vault intro!: go split: raw_login.splits)
qed

lemma public_accounts:
  assumes inv: "auth_inv w" and run: "handle_public x y cfg h now dr req w = Some p"
  shows "auth_inv (snd p)"
proof -
  note go = attempt_snd [where P = auth_inv, OF inv] and kept = accounts_auth [THEN iffD2, OF _ inv]
  from run show ?thesis
    by (cases req) (auto simp: handler_defs account_step_inv [OF inv] inv kept intro!: go split: raw_login.splits)
qed

lemma restart_kept: "same_vault w (restart w)" "accounts_of (restart w) = accounts_of w"
  by (simp_all add: restart_def same_vault_def accounts_of_def)

lemma server_step_integrity:
  assumes inv: "vault_inv w" "auth_inv w" and step: "server_step t w w'"
  shows "vault_inv w' \<and> auth_inv w'"
  using step
proof cases
  case (protected_step x y cfg h rate dr headers req res)
  then show ?thesis
    using protected_vault_inv [OF inv(1)] protected_accounts [OF inv(2)] inv
    by (fastforce simp: serve_protected_def split: sum.splits)
next
  case (public_step x y cfg h rate dr headers req res)
  then show ?thesis
    using same_vault_inv [OF public_vault inv(1)] public_accounts [OF inv(2)] inv
    by (fastforce simp: serve_public_def split: sum.splits)
next
  case (worker_step hrs x)
  then show ?thesis using cleanup_tick_inv [OF inv(1)] inv(2) by (simp add: accounts_auth [OF accounts_tick])
next
  case restart_step
  then show ?thesis using same_vault_inv [OF restart_kept(1) inv(1)] inv(2) accounts_auth [OF restart_kept(2)] by simp
qed

interpretation server_integrity: clocked_invariant from_empty server_step "\<lambda>_ w. vault_inv w \<and> auth_inv w"
proof (unfold_locales, goal_cases)
  case (1 w now)
  then show ?case
    using system_invD(1) [OF system_inv_empty] by (auto simp: auth_inv_def empty_vault_def ukey_def fkey_def)
qed (auto dest: server_step_integrity)

text \<open>
  C1: Whatever requests arrive, from whomever, whatever the store and the other external code
  answer, and whenever the worker runs or the process restarts: in every state the server reaches,
  all keys are unique, every reference points to a row, a file has at most one active version, the
  current version of a file is one of its own, every session belongs to a device of its user, a
  rotated session points to a session of the same user and device, and a revoked session has a reason.
\<close>

theorem reachable_integrity:
  assumes "reach from_empty server_step now w"
  shows "vault_inv w \<and> auth_inv w"
  by (rule server_integrity.reachable_good [OF assms])

subsection \<open>Requests that stay in their own tree\<close>

text \<open>
  Three bulk requests name rows that the service does not check to be the caller's. They are
  careful when they name only live folders and versions of the caller; a folder of a bulk creation
  may also be placed in a folder that the same request creates before it.
\<close>

fun parents_known :: "uuid list \<Rightarrow> create_folder_request list \<Rightarrow> bool" where
  "parents_known known [] = True"
| "parents_known known (r # rs) =
     ((case cfr_parent r of None \<Rightarrow> True | Some p \<Rightarrow> p \<in> set known) \<and>
      parents_known (case cfr_folder_id r of None \<Rightarrow> known | Some d \<Rightarrow> d # known) rs)"

definition live_folder_ids :: "uuid \<Rightarrow> vault \<Rightarrow> uuid list" where
  "live_folder_ids u w = map fo_id (filter (\<lambda>fo. fo_user fo = u \<and> fo_deleted_at fo = None) (t_folders w))"

definition careful :: "uuid \<Rightarrow> protected_request \<Rightarrow> vault \<Rightarrow> bool" where
  "careful u req w =
     (case req of
        BulkInitUploads reqs \<Rightarrow> list_all (\<lambda>r. case cf_folder r of None \<Rightarrow> True | Some p \<Rightarrow> p \<in> set (live_folder_ids u w)) reqs
      | BulkCompleteUploads items \<Rightarrow> list_all (\<lambda>it. owner_version w u (bc_version it)) items
      | CreateFoldersBulk reqs \<Rightarrow> parents_known (live_folder_ids u w) reqs
      | _ \<Rightarrow> True)"

lemma live_folder_ids_row: "p \<in> set (live_folder_ids u w) \<longleftrightarrow> has_row (live_folder p u) (t_folders w)"
  by (auto simp: live_folder_ids_def live_folder_def)

lemma create_folders_loop_good:
  assumes "system_inv now w0" "system_inv now w" "good_step now u w0 w" "parents_known known reqs" "set known \<subseteq> set (live_folder_ids u w)"
  shows "good_step now u w0 (snd (create_folders_loop x t gen u i reqs w0 w))"
  using assms
proof (induction reqs arbitrary: i w known)
  case (Cons r rs)
  have roll: "good_step now u w0 (roll_back w0 w)"
    using Cons.prems(1) by (intro other_tables_good) (simp_all add: roll_back_def)
  have case_snd: "snd (case p of (Inl e, w3) \<Rightarrow> (Inl e, w3) | (Inr rs, w3) \<Rightarrow> (Inr (resp # rs), w3)) = snd p"
    for p :: "folder_response list result \<times> vault" and resp
    by (cases p; cases "fst p") auto
  have rec: "good_step now u w0 (snd (create_folders_loop x t gen u (Suc i) rs w0 (broadcast_sync u ev w1)))"
    if ins: "insert_folder \<lparr>fo_id = case cfr_folder_id r of None \<Rightarrow> gen i | Some d \<Rightarrow> d, fo_user = u, fo_parent = cfr_parent r, fo_metadata = meta,
        fo_nonce = nonce, fo_created_at = t, fo_updated_at = t, fo_deleted_at = None\<rparr> w = Inr w1" for meta nonce w1 ev
  proof -
    have "has_row (live_folder p u) (t_folders w)" if "cfr_parent r = Some p" for p
      using Cons.prems(4,5) that live_folder_ids_row by (fastforce split: option.splits)
    then have one: "good_step now u w w1" using insert_folder_good [OF ins Cons.prems(2)] by simp
    have "live_folder_ids u w1 = live_folder_ids u w @ [case cfr_folder_id r of None \<Rightarrow> gen i | Some d \<Rightarrow> d]"
      by (simp add: insert_folder_Inr(1) [OF ins] live_folder_ids_def)
    then have known: "set (case cfr_folder_id r of None \<Rightarrow> known | Some d \<Rightarrow> d # known) \<subseteq> set (live_folder_ids u (broadcast_sync u ev w1))"
      using Cons.prems(5) by (auto simp: live_folder_ids_def split: option.splits)
    have w1: "good_step now u w0 (broadcast_sync u ev w1)"
      using good_step_trans [OF Cons.prems(3) one] by (simp add: quiet_good)
    show ?thesis using Cons.IH [OF Cons.prems(1) good_step_system [OF w1] w1 _ known] Cons.prems(4) by simp
  qed
  show ?case
    by (auto simp: Let_def case_snd intro!: attempt_snd [where P = "good_step now u w0", OF roll] attempt_sql_snd [where P = "good_step now u w0", OF roll] rec)
qed simp

lemma user_cleanup_step:
  assumes "system_inv now w"
  shows "system_inv now (snd (user_cleanup_orphaned_versions x t u hrs w))"
    and "keys_safe w (snd (user_cleanup_orphaned_versions x t u hrs w))"
  using user_cleanup_safe [OF assms] user_cleanup_total [of x t u hrs w] by (metis snd_conv)+

text \<open>The contracts of the operations, for requests at the time \<open>now\<close>.\<close>

lemmas step_good =
  create_folder.good [OF _ prod.collapse [symmetric]]
  delete_folder.good [OF _ prod.collapse [symmetric]]
  restore_folder.good [OF _ prod.collapse [symmetric]]
  permanent_delete_folder.good [OF _ prod.collapse [symmetric]]
  create_version.good [OF _ prod.collapse [symmetric]]
  complete_upload.good [OF _ prod.collapse [symmetric]]
  cancel_upload.good [OF _ prod.collapse [symmetric]]
  bulk_cancel_uploads.good [OF _ prod.collapse [symmetric]]
  update_file.good [OF _ prod.collapse [symmetric]]
  move_file.good [OF _ prod.collapse [symmetric]]
  restore_version.good [OF _ prod.collapse [symmetric]]
  delete_file.good [OF _ prod.collapse [symmetric]]
  restore_file.good [OF _ prod.collapse [symmetric]]
  permanently_delete_file.good [OF _ prod.collapse [symmetric]]
  bulk_delete.good [OF _ prod.collapse [symmetric]]
  empty_trash.good [OF _ prod.collapse [symmetric]]
  create_share.good [OF _ prod.collapse [symmetric]]
  revoke_share.good [OF _ prod.collapse [symmetric]]
  get_share.good [OF _ prod.collapse [symmetric]]
  verify_chunk.good [OF _ prod.collapse [symmetric]]

lemmas account_step_good =
  signup_init.good [OF _ prod.collapse [symmetric]]
  signup_complete.good [OF _ prod.collapse [symmetric]]
  login.good [OF _ prod.collapse [symmetric]]
  refresh.good [OF _ prod.collapse [symmetric]]
  logout.good [OF _ prod.collapse [symmetric]]
  change_password.good [OF _ prod.collapse [symmetric]]
  update_profile.good [OF _ prod.collapse [symmetric]]
  upload_avatar.good [OF _ prod.collapse [symmetric]]
  delete_avatar.good [OF _ prod.collapse [symmetric]]
  revoke_device.good [OF _ prod.collapse [symmetric]]
  update_device_name.good [OF _ prod.collapse [symmetric]]

lemmas step_tenant =
  create_file.system [OF _ prod.collapse [symmetric]] create_file.tenant_isolated [OF _ prod.collapse [symmetric]]
  delete_version.system [OF _ prod.collapse [symmetric]] delete_version.tenant_isolated [OF _ prod.collapse [symmetric]]

lemma bulk_steps_good:
  assumes sys: "system_inv now w"
  shows "careful u (BulkInitUploads reqs) w \<Longrightarrow> good_step now u w (snd (bulk_init_uploads x t ids gen u d reqs w))"
    and "careful u (BulkCompleteUploads items) w \<Longrightarrow> good_step now u w (snd (bulk_complete_uploads x t u d items w))"
    and "careful u (CreateFoldersBulk folders) w \<Longrightarrow> good_step now u w (snd (create_folders_bulk x t fgen u folders w))"
    and "good_step now u w (sync_stream u w)"
proof -
  show "good_step now u w (snd (bulk_init_uploads x t ids gen u d reqs w))" if "careful u (BulkInitUploads reqs) w"
    using bulk_init_own_folders [OF sys _ prod.collapse [symmetric]] that
    by (fastforce simp: careful_def list_all_iff live_folder_ids_row split: option.splits)
  show "good_step now u w (snd (bulk_complete_uploads x t u d items w))" if "careful u (BulkCompleteUploads items) w"
    using bulk_complete_own_versions [OF sys _ prod.collapse [symmetric]] that by (simp add: careful_def list_all_iff)
  show "good_step now u w (snd (create_folders_bulk x t fgen u folders w))" if "careful u (CreateFoldersBulk folders) w"
    using create_folders_loop_good [OF sys sys good_step_refl [OF sys]] that by (simp add: careful_def create_folders_bulk_def)
  show "good_step now u w (sync_stream u w)"
    using sync_stream_same [of w u] by (intro other_tables_good [OF sys]) (auto simp: same_vault_def)
qed

text \<open>
  Every careful request keeps the invariant of the folder tree. Except for the clean-up, which
  drops abandoned versions of all users, it leaves the rows of the other users alone. And except for
  the clean-up, the deletion of a version and a new file that replaces an unfinished one, no object
  key is lost.
\<close>

lemma protected_system:
  assumes sys: "system_inv now w" and ok: "careful (au_user user) req w" and run: "handle_protected x y cfg h now dr user req w = Some p"
  shows "system_inv now (snd p)"
proof -
  note go = attempt_snd [where P = "system_inv now", OF sys]
  note steps = step_good [THEN good_step_system, OF sys] account_step_good [THEN good_step_system, OF sys]
    step_tenant(1,3) [OF sys] bulk_steps_good [OF sys, THEN good_step_system] user_cleanup_step(1) [OF sys]
  from run ok show ?thesis
    by (cases req) (auto simp: handler_defs steps sys case_prod_beta intro!: go
        dest: update_folder.system [OF sys] move_folder.system [OF sys])
qed

lemmas good_stepD = good_step_def [THEN iffD1, THEN conjunct2, THEN conjunct1] good_step_def [THEN iffD1, THEN conjunct2, THEN conjunct2]


fun may_drop_keys :: "protected_request \<Rightarrow> bool" where
  "may_drop_keys (CreateFile req) = True"
| "may_drop_keys (DeleteVersion fid vid) = True"
| "may_drop_keys req = False"

lemma protected_keys:
  assumes sys: "system_inv now w" and ok: "careful (au_user user) req w" "\<not> may_drop_keys req"
    and run: "handle_protected x y cfg h now dr user req w = Some p"
  shows "keys_safe w (snd p)"
proof -
  note go = attempt_snd [where P = "keys_safe w", OF keys_safe_refl]
  note steps = step_good [THEN good_stepD(2), OF sys] account_step_good [THEN good_stepD(2), OF sys]
    bulk_steps_good [OF sys, THEN good_stepD(2)] user_cleanup_step(2) [OF sys]
  from run ok show ?thesis
    by (cases req) (auto simp: handler_defs steps case_prod_beta intro!: go
        dest: update_folder.keys_kept [OF sys] move_folder.keys_kept [OF sys])
qed

subsection \<open>Careful runs\<close>

inductive careful_step :: "timestamp \<Rightarrow> vault \<Rightarrow> vault \<Rightarrow> bool" where
  careful_protected: "serve_protected x y cfg h rate t dr headers req w = Some (res, w') \<Longrightarrow>
     (\<And>user. require_auth y rate t (map_of headers ''authorization'') w = Inr user \<Longrightarrow> careful (au_user user) req w) \<Longrightarrow> careful_step t w w'"
| careful_public: "serve_public x y cfg h rate t dr headers req w = Some (res, w') \<Longrightarrow> careful_step t w w'"
| careful_worker: "careful_step t w (cleanup_tick hrs (x, t) w)"
| careful_restart: "careful_step t w (restart w)"

lemma careful_is_step: "careful_step t w w' \<Longrightarrow> server_step t w w'"
  by (induction rule: careful_step.induct) (auto intro: server_step.intros)

lemma same_vault_good: "same_vault w w' \<Longrightarrow> system_inv now w \<Longrightarrow> good_step now u w w'"
  by (rule other_tables_good) (simp_all add: same_vault_def)

lemma tick_system:
  assumes "system_inv now w"
  shows "system_inv now (cleanup_tick hrs tick w)"
proof -
  obtain x t where tick: "tick = (x, t)" by (cases tick)
  have "system_inv now (delete_objects_best_effort x ks w)" for ks
    using assms by (intro good_step_system [OF same_tables_good [OF _ assms]]) (simp add: same_tables_def)
  then have "system_inv now (snd (cleanup_orphaned_versions x t hrs w))"
    by (simp add: cleanup_orphaned_versions_def Let_def drop_orphans_system)
  then show ?thesis using retry_frame by (simp add: tick cleanup_tick_def)
qed

lemma careful_step_system:
  assumes sys: "system_inv t w" and step: "careful_step t w w'"
  shows "system_inv t w'"
  using step
proof cases
  case (careful_protected x y cfg h rate dr headers req res)
  then show ?thesis
    using sys protected_system [OF sys] by (fastforce simp: serve_protected_def split: sum.splits)
next
  case (careful_public x y cfg h rate dr headers req res)
  then show ?thesis
    using sys good_step_system [OF same_vault_good [OF public_vault sys]] by (fastforce simp: serve_public_def split: sum.splits)
next
  case (careful_worker hrs x)
  then show ?thesis using tick_system [OF sys] by simp
next
  case careful_restart
  then show ?thesis using good_step_system [OF same_vault_good [OF restart_kept(1) sys]] by simp
qed

interpretation careful_server: clocked_invariant from_empty careful_step "\<lambda>now w. system_inv now w \<and> auth_inv w"
proof (unfold_locales, goal_cases)
  case (1 w now)
  then show ?case using server_integrity.initially system_inv_empty by blast
next
  case (2 now w t)
  then show ?case by (auto intro: system_inv_later)
next
  case (3 t w w')
  then show ?case using careful_step_system server_step_integrity [OF system_invD(1) _ careful_is_step] by blast
qed

text \<open>
  C5: In every state that careful runs reach, from the empty database on, the folders of each user
  form a forest, folders and files lie in folders of their own user, nothing live lies in the trash,
  and no time stamp of the trash is in the future.
\<close>

theorem reachable_tree:
  assumes "reach from_empty careful_step now w"
  shows "tree_inv w \<and> clock_ok now w \<and> vault_inv w"
  using careful_server.reachable_good [OF assms] by (simp add: system_inv_def)

subsection \<open>Whose rows a step changes\<close>











text \<open>
  C7: No request loses an object: every storage key that a chunk had before a careful request is
  afterwards still the key of a chunk or in the queue of pending deletions, and no key leaves the
  queue. The exceptions are the deletion of a version and the creation of a file.
\<close>

theorem requests_keep_keys:
  assumes "system_inv now w" and "\<not> may_drop_keys req"
    and "\<And>user. require_auth y rate now (map_of headers ''authorization'') w = Inr user \<Longrightarrow> careful (au_user user) req w"
    and "serve_protected x y cfg h rate now dr headers req w = Some (res, w')"
  shows "chunk_keys w \<subseteq> chunk_keys w' \<union> queued_keys w' \<and> queued_keys w \<subseteq> queued_keys w'"
  using assms protected_keys [OF assms(1) _ assms(2)] by (fastforce simp: serve_protected_def keys_safe_def split: sum.splits)

subsection \<open>Sample runs\<close>

definition sample_http :: http_ext where
  "sample_http = \<lparr>valid_email = (\<lambda>_. True), validation_text = (\<lambda>f. f), parse_ip = (\<lambda>_. None)\<rparr>"

definition sample_draws :: "nat \<Rightarrow> draws" where
  "sample_draws k = \<lparr>drawn_ids = (\<lambda>i. k + i), drawn_chunks = (\<lambda>i j. 0), drawn_salt = replicate 16 0, drawn_hash_salts = (0, 0)\<rparr>"

text \<open>A first user signs up.\<close>

lemma sample_run_signup:
  "\<exists>w1 w2 r. serve_public sample_ext sample_auth sample_settings sample_http (\<lambda>_. True) 0 (sample_draws 9) [] (SignupInit ''A@b.c'') empty_vault = Some (r, w1) \<and>
     (\<exists>r'. serve_public sample_ext sample_auth sample_settings sample_http (\<lambda>_. True) 0 (sample_draws 1) [] (SignupComplete sample_signup) w1 = Some (Inr r', w2)) \<and>
     map s_id (t_sessions w2) = [3]"
proof -
  obtain si w1 where init: "signup_init sample_ext sample_auth sample_settings 0 (replicate 16 0) 9 ''A@b.c'' empty_vault = (Inr si, w1)"
    and w1: "w1 = empty_vault\<lparr>pending_signups := [(show_nat 9, \<lparr>ps_email = ''A@b.c'', ps_email_normalized = ''a@b.c'', ps_salt = replicate 16 0,
       ps_argon2_params = argon2_params_json (argon2 sample_settings), ps_expires_at = 600000000\<rparr>)]\<rparr>"
    using sample_signup_init by blast
  obtain r w2 s where "signup_complete sample_ext sample_auth sample_settings 0 (0, 0) 1 2 3 4 sample_signup w1 = (Inr r, w2)"
    "t_sessions w2 = [s]" "s_id s = 3"
    using sample_signup_complete [OF w1] by (elim exE conjE)
  moreover have "2 = Suc (Suc 0)" "3 = Suc (Suc (Suc 0))" "4 = Suc (Suc (Suc (Suc 0)))" by simp_all
  ultimately show ?thesis using init
    by (simp add: serve_public_def rate_limit_auth_def check_that_def signup_init_handler_def signup_complete_handler_def
        check_email_def sample_http_def sample_draws_def respond_def numeral_2_eq_2 numeral_3_eq_3)
qed

lemma reach_two: "step t empty_vault w1 \<Longrightarrow> step t w1 w2 \<Longrightarrow> reach from_empty step t w2"
  by (rule reach.reach_step, rule reach.reach_step, rule reach.reach_start) auto

theorem reachable_integrity_witness:
  "\<exists>w. reach from_empty server_step 0 w \<and> map s_id (t_sessions w) = [3] \<and> vault_inv w \<and> auth_inv w"
proof -
  obtain w1 w2 r r' where runs: "serve_public sample_ext sample_auth sample_settings sample_http (\<lambda>_. True) 0 (sample_draws 9) [] (SignupInit ''A@b.c'') empty_vault = Some (r, w1)"
    "serve_public sample_ext sample_auth sample_settings sample_http (\<lambda>_. True) 0 (sample_draws 1) [] (SignupComplete sample_signup) w1 = Some (Inr r', w2)"
    and s: "map s_id (t_sessions w2) = [3]"
    using sample_run_signup by (elim exE conjE)
  have "server_step 0 empty_vault w1" "server_step 0 w1 w2" by (rule server_step.public_step [OF runs(1)], rule server_step.public_step [OF runs(2)])
  then have "reach from_empty server_step 0 w2"
    by (rule reach_two)
  then show ?thesis using reachable_integrity [of 0 w2] s by (intro exI [of _ w2]) simp
qed

theorem reachable_tree_witness:
  "\<exists>w. reach from_empty careful_step 0 w \<and> map s_id (t_sessions w) = [3] \<and> tree_inv w"
proof -
  obtain w1 w2 r r' where runs: "serve_public sample_ext sample_auth sample_settings sample_http (\<lambda>_. True) 0 (sample_draws 9) [] (SignupInit ''A@b.c'') empty_vault = Some (r, w1)"
    "serve_public sample_ext sample_auth sample_settings sample_http (\<lambda>_. True) 0 (sample_draws 1) [] (SignupComplete sample_signup) w1 = Some (Inr r', w2)"
    and s: "map s_id (t_sessions w2) = [3]"
    using sample_run_signup by (elim exE conjE)
  have "careful_step 0 empty_vault w1" "careful_step 0 w1 w2" by (rule careful_step.careful_public [OF runs(1)], rule careful_step.careful_public [OF runs(2)])
  then have "reach from_empty careful_step 0 w2"
    by (rule reach_two)
  then show ?thesis using reachable_tree [of 0 w2] s by (intro exI [of _ w2]) simp
qed

text \<open>User 1 of the sample vault is signed in on device 7.\<close>

definition member_vault :: vault where
  "member_vault = sample_vault\<lparr>t_sessions := [\<lparr>s_id = 3, s_user = 1, s_device = 7, s_token_hash = ''hash'', s_jti = 4, s_issued_at = 0,
      s_expires_at = 900, s_revoked_at = None, s_revoked_reason = None, s_rotated_to = None, s_user_agent = None, s_ip = None\<rparr>]\<rparr>"

definition member_claims :: access_claims where
  "member_claims = \<lparr>ac_sub = 1, ac_sid = 3, ac_did = 7, ac_exp = 900, ac_iat = 0, ac_iss = ''uoozer-vault'', ac_typ = ''access''\<rparr>"

definition member_headers :: header_map where
  "member_headers = [(''authorization'', ''Bearer '' @ the (jwt_encode_access sample_auth member_claims))]"

lemma member_system: "system_inv 3 member_vault"
  using good_step_system [OF same_vault_good [OF _ sample_system]] by (simp add: member_vault_def same_vault_def)

lemma member_auth:
  "require_auth sample_auth (\<lambda>_. True) 9 (map_of member_headers ''authorization'') member_vault = Inr \<lparr>au_user = 1, au_device = 7, au_session = 3\<rparr>"
proof -
  have "verify_access_token sample_auth 9 (the (jwt_encode_access sample_auth member_claims)) = Inr member_claims"
    by (simp add: verify_access_token_def sample_auth_def member_claims_def unquoted_quoted read_show_nat unix_secs_def)
  moreover have head: "map_of member_headers ''authorization'' = Some (''Bearer '' @ the (jwt_encode_access sample_auth member_claims))"
    by (simp add: member_headers_def)
  ultimately show ?thesis
    unfolding require_auth_def head bearer_header option.case
    by (simp add: check_that_def) (simp add: member_claims_def member_vault_def sample_rows)
qed


theorem requests_keep_keys_witness:
  "\<exists>res w'. serve_protected sample_ext sample_auth sample_settings sample_http (\<lambda>_. True) 9 (sample_draws 0) member_headers
       (PermanentDeleteFolder 10) member_vault = Some (res, w') \<and> ''k40'' \<in> chunk_keys w' \<union> queued_keys w'"
proof -
  let ?run = "serve_protected sample_ext sample_auth sample_settings sample_http (\<lambda>_. True) 9 (sample_draws 0) member_headers (PermanentDeleteFolder 10) member_vault"
  obtain res w' where run: "?run = Some (res, w')"
    by (cases ?run) (auto simp: serve_protected_def member_auth)
  have sys: "system_inv 9 member_vault" using member_system by (rule system_inv_later) simp
  have "''k40'' \<in> chunk_keys member_vault" by (simp add: chunk_keys_def member_vault_def sample_rows)
  then show ?thesis
    using requests_keep_keys [OF sys _ _ run] run by (auto simp: careful_def)
qed

end
