(* ===== verification/Routes.thy ===== *)
theory Routes
  imports Server
begin

text \<open>
  The router of \<open>src/lib.rs\<close> and the \<open>routes.rs\<close> files: the table of routes, the layers around
  them and the headers of every answer. The matching of a path against the registered patterns is
  the framework's and a parameter; of it the development uses what its documentation promises.
\<close>

subsection \<open>The table\<close>

datatype http_method = HttpGet | HttpPost | HttpPatch | HttpDelete

text \<open>\<open>/files/{file_id}\<close> is the pattern \<open>[Lit ''files'', Param ''file_id'']\<close>.\<close>

datatype segment = Lit string | Param string

text \<open>
  A registered path with its methods: for each the handler, and the body limit of
  \<open>DefaultBodyLimit::max\<close> where one is set.
\<close>

record method_route =
  me_method :: http_method
  me_handler :: string
  me_limit :: "nat option"

definition on :: "http_method \<Rightarrow> string \<Rightarrow> method_route" where
  "on m h = \<lparr>me_method = m, me_handler = h, me_limit = None\<rparr>"

record route =
  rt_path :: "segment list"
  rt_methods :: "method_route list"

definition route :: "segment list \<Rightarrow> method_route list \<Rightarrow> route" where
  "route p ms = \<lparr>rt_path = p, rt_methods = ms\<rparr>"

text \<open>\<open>auth::routes::public_router\<close>.\<close>

definition auth_public_router :: "route list" where
  "auth_public_router =
    [route [Lit ''auth'', Lit ''prelogin'']
       [on HttpPost ''auth::prelogin''],
     route [Lit ''auth'', Lit ''signup'', Lit ''init'']
       [on HttpPost ''auth::signup_init''],
     route [Lit ''auth'', Lit ''signup'', Lit ''complete'']
       [on HttpPost ''auth::signup_complete''],
     route [Lit ''auth'', Lit ''login'']
       [on HttpPost ''auth::login''],
     route [Lit ''auth'', Lit ''refresh'']
       [on HttpPost ''auth::refresh'']]"

text \<open>\<open>auth::routes::protected_router\<close>.\<close>

definition auth_protected_router :: "route list" where
  "auth_protected_router =
    [route [Lit ''auth'', Lit ''logout'']
       [on HttpPost ''auth::logout''],
     route [Lit ''auth'', Lit ''password'']
       [on HttpPost ''auth::change_password''],
     route [Lit ''auth'', Lit ''profile'']
       [on HttpPatch ''auth::update_profile''],
     route [Lit ''auth'', Lit ''avatar'']
       [on HttpPost ''auth::upload_avatar''],
     route [Lit ''auth'', Lit ''avatar'']
       [on HttpDelete ''auth::delete_avatar''],
     route [Lit ''auth'', Lit ''me'']
       [on HttpGet ''auth::get_me''],
     route [Lit ''auth'', Lit ''keys'']
       [on HttpGet ''auth::get_keys'']]"

text \<open>\<open>devices::routes::router\<close>.\<close>

definition devices_router :: "route list" where
  "devices_router =
    [route [Lit ''devices'']
       [on HttpGet ''devices::list_devices''],
     route [Lit ''devices'', Lit ''sessions'']
       [on HttpGet ''devices::list_sessions''],
     route [Lit ''devices'', Param ''device_id'']
       [on HttpPatch ''devices::update_device_name''],
     route [Lit ''devices'', Param ''device_id'', Lit ''revoke'']
       [on HttpPost ''devices::revoke_device'']]"

text \<open>\<open>folders::routes::router\<close>; its share route is the handler of the file service.\<close>

definition folders_router :: "route list" where
  "folders_router =
    [route [Lit ''folders'']
       [on HttpPost ''folders::create_folder'', on HttpGet ''folders::list_folders''],
     route [Lit ''folders'', Lit ''bulk'']
       [on HttpPost ''folders::create_folders_bulk''],
     route [Lit ''folders'', Param ''folder_id'']
       [on HttpGet ''folders::get_folder'', on HttpPatch ''folders::update_folder'', on HttpDelete ''folders::delete_folder''],
     route [Lit ''folders'', Param ''folder_id'', Lit ''permanent'']
       [on HttpDelete ''folders::permanent_delete_folder''],
     route [Lit ''folders'', Param ''folder_id'', Lit ''restore'']
       [on HttpPost ''folders::restore_folder''],
     route [Lit ''folders'', Param ''folder_id'', Lit ''shares'']
       [on HttpPost ''files::create_share''],
     route [Lit ''folders'', Param ''folder_id'', Lit ''tree'']
       [on HttpGet ''folders::get_folder_file_tree''],
     route [Lit ''folders'', Param ''folder_id'', Lit ''move'']
       [on HttpPost ''folders::move_folder''],
     route [Lit ''folders'', Param ''folder_id'', Lit ''path'']
       [on HttpGet ''folders::get_folder_path'']]"

text \<open>\<open>files::routes::public_router\<close>.\<close>

definition files_public_router :: "route list" where
  "files_public_router =
    [route [Lit ''shares'', Param ''share_id'']
       [on HttpGet ''files::get_share''],
     route [Lit ''shares'', Param ''share_id'', Lit ''files'', Param ''file_id'']
       [on HttpGet ''files::get_shared_file_manifest'']]"

text \<open>\<open>files::routes::router\<close>.\<close>

definition files_router :: "route list" where
  "files_router =
    [route [Lit ''files'', Lit ''precheck'']
       [on HttpGet ''files::precheck_upload''],
     route [Lit ''files'', Lit ''bulk-init'']
       [on HttpPost ''files::bulk_init_uploads''],
     route [Lit ''files'', Lit ''bulk-complete'']
       [on HttpPost ''files::bulk_complete_uploads''],
     route [Lit ''files'', Lit ''cleanup-orphans'']
       [on HttpPost ''files::cleanup_orphaned_uploads''],
     route [Lit ''files'', Lit ''bulk-cancel'']
       [on HttpPost ''files::bulk_cancel_uploads''],
     route [Lit ''files'']
       [(on HttpPost ''files::create_file'')\<lparr>me_limit := Some (10 * 1024 * 1024)\<rparr>, on HttpGet ''files::list_files''],
     route [Lit ''files'', Param ''file_id'']
       [on HttpGet ''files::get_file'', on HttpPatch ''files::update_file'', on HttpDelete ''files::delete_file''],
     route [Lit ''files'', Lit ''empty-trash'']
       [on HttpPost ''files::empty_trash''],
     route [Lit ''files'', Lit ''bulk-delete'']
       [on HttpPost ''files::bulk_delete''],
     route [Lit ''files'', Param ''file_id'', Lit ''restore'']
       [on HttpPost ''files::restore_file''],
     route [Lit ''files'', Param ''file_id'', Lit ''permanent'']
       [on HttpDelete ''files::permanent_delete_file''],
     route [Lit ''files'', Param ''file_id'', Lit ''versions'']
       [(on HttpPost ''files::create_version'')\<lparr>me_limit := Some (10 * 1024 * 1024)\<rparr>, on HttpGet ''files::list_versions''],
     route [Lit ''files'', Param ''file_id'', Lit ''versions'', Param ''version_id'']
       [on HttpDelete ''files::delete_version''],
     route [Lit ''files'', Param ''file_id'', Lit ''complete'']
       [on HttpPost ''files::complete_upload''],
     route [Lit ''files'', Param ''file_id'', Lit ''download'']
       [on HttpGet ''files::get_download_manifest''],
     route [Lit ''files'', Param ''file_id'', Lit ''versions'', Param ''version_id'', Lit ''restore'']
       [on HttpPost ''files::restore_version''],
     route [Lit ''files'', Param ''file_id'', Lit ''versions'', Param ''version_id'', Lit ''cancel'']
       [on HttpPost ''files::cancel_upload''],
     route [Lit ''files'', Param ''file_id'', Lit ''shares'']
       [on HttpPost ''files::create_share''],
     route [Lit ''shares'']
       [on HttpGet ''files::list_shares''],
     route [Lit ''shares'', Param ''share_id'']
       [on HttpDelete ''files::revoke_share''],
     route [Lit ''files'', Param ''file_id'', Lit ''move'']
       [on HttpPost ''files::move_file'']]"

text \<open>\<open>chunks::routes::router\<close>.\<close>

definition chunks_router :: "route list" where
  "chunks_router =
    [route [Lit ''chunks'', Param ''version_id'', Lit ''resume'']
       [on HttpGet ''chunks::get_resume_info''],
     route [Lit ''chunks'', Lit ''verify'']
       [on HttpPost ''chunks::verify_chunk'']]"

text \<open>\<open>sync::routes::router\<close>.\<close>

definition sync_router :: "route list" where
  "sync_router =
    [route [Lit ''sync'', Lit ''events'']
       [on HttpGet ''sync::sync_stream'']]"

text \<open>\<open>build_router\<close>: \<open>nest\<close> puts the prefix before every path, \<open>merge\<close> takes both tables.\<close>

definition nest :: "segment list \<Rightarrow> route list \<Rightarrow> route list" where
  "nest pre rs = map (\<lambda>r. r\<lparr>rt_path := pre @ rt_path r\<rparr>) rs"

definition public_routes :: "route list" where
  "public_routes =
     nest [Lit ''api'', Lit ''v1''] (auth_public_router @ files_public_router) @ [route [Lit ''health''] [on HttpGet ''health_check'']]"

definition protected_routes :: "route list" where
  "protected_routes =
     nest [Lit ''api'', Lit ''v1'']
       (auth_protected_router @ devices_router @ folders_router @ files_router @ chunks_router @ sync_router)"

subsection \<open>Patterns\<close>

text \<open>A path is the list of its segments; a parameter stands for any segment that is not empty.\<close>

fun pattern_matches :: "segment list \<Rightarrow> string list \<Rightarrow> bool" where
  "pattern_matches [] [] = True"
| "pattern_matches (Lit a # p) (s # ss) \<longleftrightarrow> s = a \<and> pattern_matches p ss"
| "pattern_matches (Param _ # p) (s # ss) \<longleftrightarrow> s \<noteq> [] \<and> pattern_matches p ss"
| "pattern_matches _ _ = False"

fun static_pattern :: "segment list \<Rightarrow> bool" where
  "static_pattern [] = True"
| "static_pattern (Lit _ # p) = static_pattern p"
| "static_pattern (Param _ # p) = False"

text \<open>Two patterns that some path may match both.\<close>

fun overlap :: "segment list \<Rightarrow> segment list \<Rightarrow> bool" where
  "overlap [] [] = True"
| "overlap (Lit a # p) (Lit b # q) \<longleftrightarrow> a = b \<and> overlap p q"
| "overlap (Lit a # p) (Param b # q) = overlap p q"
| "overlap (Param a # p) (b # q) = overlap p q"
| "overlap _ _ = False"

text \<open>No two patterns with parameters overlap, unless they are the same.\<close>

fun separated :: "segment list list \<Rightarrow> bool" where
  "separated [] = True"
| "separated (p # ps) \<longleftrightarrow> (static_pattern p \<or> list_all (\<lambda>q. static_pattern q \<or> \<not> overlap p q \<or> p = q) ps) \<and> separated ps"

lemmas table_defs = auth_public_router_def auth_protected_router_def devices_router_def folders_router_def files_public_router_def
  files_router_def chunks_router_def sync_router_def

definition patterns :: "segment list list" where
  "patterns = map rt_path (public_routes @ protected_routes)"

text \<open>
  What the documentation of the framework promises of its matching: the answer is a registered
  pattern that matches the path, there is one when some pattern matches, and a pattern without
  parameters has priority.
\<close>

definition matcher_promise :: "(segment list list \<Rightarrow> string list \<Rightarrow> segment list option) \<Rightarrow> bool" where
  "matcher_promise m \<longleftrightarrow>
     (\<forall>ps path p. m ps path = Some p \<longrightarrow> p \<in> set ps \<and> pattern_matches p path) \<and>
     (\<forall>ps path p. p \<in> set ps \<and> pattern_matches p path \<longrightarrow> m ps path \<noteq> None) \<and>
     (\<forall>ps path p. p \<in> set ps \<and> static_pattern p \<and> pattern_matches p path \<longrightarrow> m ps path = Some p)"

lemma matcher_promiseD:
  assumes "matcher_promise m"
  shows "m ps path = Some p \<Longrightarrow> p \<in> set ps \<and> pattern_matches p path"
    and "p \<in> set ps \<Longrightarrow> pattern_matches p path \<Longrightarrow> \<exists>q. m ps path = Some q"
    and "p \<in> set ps \<Longrightarrow> static_pattern p \<Longrightarrow> pattern_matches p path \<Longrightarrow> m ps path = Some p"
  using assms unfolding matcher_promise_def by blast+

definition match_path :: "segment list list \<Rightarrow> string list \<Rightarrow> segment list option" where
  "match_path ps path =
     (case find (\<lambda>p. static_pattern p \<and> pattern_matches p path) ps of
        Some p \<Rightarrow> Some p
      | None \<Rightarrow> find (\<lambda>p. pattern_matches p path) ps)"

lemma static_matches: "static_pattern p \<Longrightarrow> pattern_matches p path \<Longrightarrow> p = map Lit path"
  by (induction p path rule: pattern_matches.induct) auto

lemma overlapI: "pattern_matches p path \<Longrightarrow> pattern_matches q path \<Longrightarrow> overlap p q"
proof (induction p path arbitrary: q rule: pattern_matches.induct)
  case (2 a p s ss)
  then show ?case by (cases q; cases "hd q") auto
next
  case (3 n p s ss)
  then show ?case by (cases q; cases "hd q") auto
qed (case_tac q; case_tac "hd q"; simp)+

lemma overlap_sym: "overlap p q \<Longrightarrow> overlap q p"
proof (induction p q rule: overlap.induct)
  case (4 a p b q)
  then show ?case by (cases b) auto
qed auto

lemma separatedD:
  assumes "separated ps" "p \<in> set ps" "q \<in> set ps" "overlap p q" "\<not> static_pattern p" "\<not> static_pattern q"
  shows "p = q"
  using assms by (induction ps) (auto simp: list_all_iff dest: overlap_sym)

lemma match_path_promise: "matcher_promise match_path"
proof -
  have 1: "p \<in> set ps \<and> pattern_matches p path" if "match_path ps path = Some p" for ps path p
    using that by (auto simp: match_path_def split: option.splits dest: find_Some_in)
  have 2: "match_path ps path \<noteq> None" if "p \<in> set ps" "pattern_matches p path" for ps path p
    using that by (cases "find (\<lambda>p. pattern_matches p path) ps") (auto simp: match_path_def find_None_iff split: option.splits)
  have 3: "match_path ps path = Some p" if p: "p \<in> set ps" "static_pattern p" "pattern_matches p path" for ps path p
  proof -
    obtain q where q: "find (\<lambda>p. static_pattern p \<and> pattern_matches p path) ps = Some q"
      using p by (cases "find (\<lambda>p. static_pattern p \<and> pattern_matches p path) ps") (auto simp: find_None_iff)
    then have "static_pattern q" "pattern_matches q path" by (auto dest: find_Some_in)
    then have "q = map Lit path" by (rule static_matches)
    then show ?thesis using q static_matches [OF p(2,3)] by (simp add: match_path_def)
  qed
  from 1 2 3 show ?thesis unfolding matcher_promise_def by blast
qed

text \<open>On the table of the server the promises leave the matcher no choice.\<close>

lemma routing_determined:
  assumes "matcher_promise m" and "separated ps"
  shows "m ps path = match_path ps path"
proof (cases "match_path ps path")
  case None
  then show ?thesis using matcher_promiseD(1) [OF assms(1)] matcher_promiseD(2) [OF match_path_promise] by (metis not_Some_eq)
next
  case (Some p)
  note P = matcher_promiseD [OF assms(1)] and Q = matcher_promiseD [OF match_path_promise]
  have p: "p \<in> set ps" "pattern_matches p path" using Q(1) [OF Some] by blast+
  obtain q where q: "m ps path = Some q" using P(2) [OF p] by blast
  have q': "q \<in> set ps" "pattern_matches q path" using P(1) [OF q] by blast+
  have "p = q"
  proof (cases "static_pattern p \<or> static_pattern q")
    case True
    then show ?thesis using P(3) [OF p(1) _ p(2)] Q(3) [OF q'(1) _ q'(2)] q Some by auto
  next
    case False
    then show ?thesis using separatedD [OF assms(2) p(1) q'(1) overlapI [OF p(2) q'(2)]] by blast
  qed
  then show ?thesis using Some q by simp
qed

lemma pattern_table: "separated (map rt_path (auth_public_router @ files_public_router @
   auth_protected_router @ devices_router @ folders_router @ files_router @ chunks_router @ sync_router))"
  by (simp add: table_defs route_def)

lemma separated_prefix:
  assumes "separated ps" "set qs \<subseteq> insert h ((\<lambda>p. map Lit pre @ p) ` set ps)" "static_pattern h"
  shows "separated qs"
proof -
  have sep: "p = q" if "p \<in> set ps" "q \<in> set ps" "overlap p q" "\<not> static_pattern p" "\<not> static_pattern q" for p q
    using separatedD [OF assms(1)] that by blast
  have pre: "overlap (map Lit pre @ p) (map Lit pre @ q) = overlap p q" "static_pattern (map Lit pre @ p) = static_pattern p" for p q
    by (induction pre) auto
  from assms(2) show ?thesis
  proof (induction qs)
    case (Cons q qs)
    then show ?case using assms(3) sep by (fastforce simp: list_all_iff pre)
  qed simp
qed

lemma patterns_separated: "separated patterns"
  by (rule separated_prefix [OF pattern_table, where h = "[Lit ''health'']" and pre = "[''api'', ''v1'']"])
    (auto simp: patterns_def public_routes_def protected_routes_def nest_def route_def)

lemma server_routing: "matcher_promise m \<Longrightarrow> m patterns path = match_path patterns path"
  by (rule routing_determined [OF _ patterns_separated])

subsection \<open>The server\<close>

text \<open>The handler of a request.\<close>

primrec protected_handler :: "protected_request \<Rightarrow> string" where
  "protected_handler (CreateFile _) = ''files::create_file''"
| "protected_handler (CreateVersion _ _) = ''files::create_version''"
| "protected_handler (GetFile _) = ''files::get_file''"
| "protected_handler (ListFiles _) = ''files::list_files''"
| "protected_handler (UpdateFile _ _) = ''files::update_file''"
| "protected_handler (CompleteUpload _ _) = ''files::complete_upload''"
| "protected_handler (GetDownloadManifest _ _) = ''files::get_download_manifest''"
| "protected_handler (DeleteFile _) = ''files::delete_file''"
| "protected_handler (ListVersions _) = ''files::list_versions''"
| "protected_handler (RestoreVersion _ _) = ''files::restore_version''"
| "protected_handler (BulkDelete _) = ''files::bulk_delete''"
| "protected_handler (RestoreFile _) = ''files::restore_file''"
| "protected_handler (PermanentDeleteFile _) = ''files::permanent_delete_file''"
| "protected_handler (PrecheckUpload _ _) = ''files::precheck_upload''"
| "protected_handler (CancelUpload _ _) = ''files::cancel_upload''"
| "protected_handler CleanupOrphanedUploads = ''files::cleanup_orphaned_uploads''"
| "protected_handler (BulkCancelUploads _) = ''files::bulk_cancel_uploads''"
| "protected_handler (BulkInitUploads _) = ''files::bulk_init_uploads''"
| "protected_handler (BulkCompleteUploads _) = ''files::bulk_complete_uploads''"
| "protected_handler (CreateShare _ _) = ''files::create_share''"
| "protected_handler (RevokeShare _) = ''files::revoke_share''"
| "protected_handler ListShares = ''files::list_shares''"
| "protected_handler (DeleteVersion _ _) = ''files::delete_version''"
| "protected_handler EmptyTrash = ''files::empty_trash''"
| "protected_handler (MoveFile _ _) = ''files::move_file''"
| "protected_handler (CreateFolder _) = ''folders::create_folder''"
| "protected_handler (GetFolder _) = ''folders::get_folder''"
| "protected_handler (ListFolders _) = ''folders::list_folders''"
| "protected_handler (UpdateFolder _ _) = ''folders::update_folder''"
| "protected_handler (DeleteFolder _) = ''folders::delete_folder''"
| "protected_handler (CreateFoldersBulk _) = ''folders::create_folders_bulk''"
| "protected_handler (GetFolderFileTree _) = ''folders::get_folder_file_tree''"
| "protected_handler (PermanentDeleteFolder _) = ''folders::permanent_delete_folder''"
| "protected_handler (RestoreFolder _) = ''folders::restore_folder''"
| "protected_handler (MoveFolder _ _) = ''folders::move_folder''"
| "protected_handler (GetFolderPath _) = ''folders::get_folder_path''"
| "protected_handler ListDevices = ''devices::list_devices''"
| "protected_handler ListSessions = ''devices::list_sessions''"
| "protected_handler (RevokeDevice _) = ''devices::revoke_device''"
| "protected_handler (UpdateDeviceName _ _) = ''devices::update_device_name''"
| "protected_handler (GetResumeInfo _) = ''chunks::get_resume_info''"
| "protected_handler (VerifyChunk _) = ''chunks::verify_chunk''"
| "protected_handler (Logout _ _) = ''auth::logout''"
| "protected_handler (ChangePassword _) = ''auth::change_password''"
| "protected_handler GetKeys = ''auth::get_keys''"
| "protected_handler (UpdateProfile _) = ''auth::update_profile''"
| "protected_handler GetMe = ''auth::get_me''"
| "protected_handler (UploadAvatar _) = ''auth::upload_avatar''"
| "protected_handler DeleteAvatar = ''auth::delete_avatar''"
| "protected_handler SyncStream = ''sync::sync_stream''"

primrec public_handler :: "public_request \<Rightarrow> string" where
  "public_handler (Prelogin _) = ''auth::prelogin''"
| "public_handler (SignupInit _) = ''auth::signup_init''"
| "public_handler (SignupComplete _) = ''auth::signup_complete''"
| "public_handler (Login _ _) = ''auth::login''"
| "public_handler (Refresh _) = ''auth::refresh''"
| "public_handler (GetShare _ _) = ''files::get_share''"
| "public_handler (GetSharedFileManifest _ _ _) = ''files::get_shared_file_manifest''"
| "public_handler Health = ''health_check''"

record http_request =
  hq_method :: http_method
  hq_path :: "string list"
  hq_query :: string
  hq_headers :: header_map
  hq_body :: bytes

datatype answer = Answer api_response | ErrorAnswer error_response | FrameworkAnswer nat

record http_response =
  hr_answer :: answer
  hr_headers :: header_map

text \<open>
  The code of the framework: the matcher, the extraction of the parameters of a handler from the
  request within the body limit of the route, which may refuse it with a status, the status for a
  path or a method that is not registered, and the headers it sets by itself.
\<close>

record framework =
  fw_match :: "segment list list \<Rightarrow> string list \<Rightarrow> segment list option"
  fw_protected :: "string \<Rightarrow> nat option \<Rightarrow> http_request \<Rightarrow> nat + protected_request"
  fw_public :: "string \<Rightarrow> nat option \<Rightarrow> http_request \<Rightarrow> nat + public_request"
  fw_unrouted :: "http_request \<Rightarrow> nat"
  fw_headers :: "answer \<Rightarrow> header_map"

definition framework_promise :: "framework \<Rightarrow> bool" where
  "framework_promise fw \<longleftrightarrow> matcher_promise (fw_match fw) \<and>
     (\<forall>h l rq req. fw_protected fw h l rq = Inr req \<longrightarrow> protected_handler req = h) \<and>
     (\<forall>h l rq req. fw_public fw h l rq = Inr req \<longrightarrow> public_handler req = h)"

text \<open>The method routers of one pattern are merged over all tables.\<close>

definition lookup_method :: "route list \<Rightarrow> segment list \<Rightarrow> http_method \<Rightarrow> method_route option" where
  "lookup_method rs p m = find (\<lambda>e. me_method e = m) (concat (map rt_methods (filter (\<lambda>r. rt_path r = p) rs)))"

text \<open>\<open>HeaderMap::insert\<close> replaces the values of the name.\<close>

definition insert_header :: "string \<Rightarrow> string \<Rightarrow> header_map \<Rightarrow> header_map" where
  "insert_header k v hs = filter (\<lambda>e. fst e \<noteq> k) hs @ [(k, v)]"

definition content_security_policy :: string where
  "content_security_policy =
     ''default-src 'self'; script-src 'self' 'wasm-unsafe-eval'; '' @
     ''style-src 'self' 'unsafe-inline'; '' @
     ''img-src 'self' data: blob:; '' @
     ''font-src 'self' data:; '' @
     ''connect-src 'self' https://*.r2.cloudflarestorage.com http://localhost:9000; '' @
     ''media-src 'self' blob:; '' @
     ''worker-src 'self' blob:; '' @
     ''frame-src 'self' blob:; '' @
     ''object-src 'self' blob:; '' @
     ''base-uri 'self'; form-action 'self'' @ [CHR 0x27]"

definition add_security_headers :: "header_map \<Rightarrow> header_map" where
  "add_security_headers hs =
     insert_header ''cache-control'' ''no-store'' (
     insert_header ''strict-transport-security'' ''max-age=31536000; includeSubDomains'' (
     insert_header ''content-security-policy'' content_security_policy (
     insert_header ''referrer-policy'' ''strict-origin-when-cross-origin'' (
     insert_header ''x-frame-options'' ''DENY'' (
     insert_header ''x-content-type-options'' ''nosniff'' hs)))))"

text \<open>
  \<open>CorsConfig::as_cors_layer\<close>, the outermost layer: what it configures. The parsing of an origin is
  the framework's; \<open>None\<close> stands for \<open>Any\<close>.
\<close>

record cors_layer =
  cl_origins :: "string list option"
  cl_methods :: "string list option"
  cl_headers :: "string list option"
  cl_expose :: "string list"
  cl_credentials :: bool
  cl_max_age :: "nat option"

definition as_cors_layer :: "(string \<Rightarrow> string option) \<Rightarrow> settings \<Rightarrow> cors_layer" where
  "as_cors_layer parse_origin cfg =
     (let origins = List.map_filter parse_origin (allowed_origins cfg)
      in if origins = []
         then \<lparr>cl_origins = None, cl_methods = None, cl_headers = None, cl_expose = [], cl_credentials = False, cl_max_age = None\<rparr>
         else \<lparr>cl_origins = Some origins,
               cl_methods = Some [''GET'', ''POST'', ''PUT'', ''PATCH'', ''DELETE'', ''OPTIONS''],
               cl_headers = Some [''authorization'', ''content-type'', ''accept'', ''x-request-id'', ''x-refresh-token'', ''x-device-id''],
               cl_expose = [''x-request-id'', ''x-refresh-token''], cl_credentials = True, cl_max_age = Some 600\<rparr>)"

text \<open>Credentials are allowed for configured origins only, never together with \<open>Any\<close>.\<close>

lemma cors_credentials:
  assumes "cl_credentials (as_cors_layer parse_origin cfg)"
  shows "\<exists>os. cl_origins (as_cors_layer parse_origin cfg) = Some os \<and> set os \<subseteq> {v. \<exists>o1\<in>set (allowed_origins cfg). parse_origin o1 = Some v}"
  using assms by (auto simp: as_cors_layer_def Let_def List.map_filter_def split: if_splits)

definition answer_of :: "api_response result \<Rightarrow> answer" where
  "answer_of r = (case r of Inl e \<Rightarrow> ErrorAnswer (into_response e) | Inr a \<Rightarrow> Answer a)"

text \<open>
  The routes behind their layers: the limiter before the public handlers, \<open>require_auth\<close> before
  the protected ones, both before the extraction of the parameters.
\<close>

definition public_route ::
  "framework \<Rightarrow> ext \<Rightarrow> auth_ext \<Rightarrow> settings \<Rightarrow> http_ext \<Rightarrow> (string \<Rightarrow> bool) \<Rightarrow> timestamp \<Rightarrow> draws \<Rightarrow> method_route \<Rightarrow> http_request \<Rightarrow> vault \<Rightarrow>
    (answer \<times> vault) option" where
  "public_route fw x y cfg h ip_rate now dr e rq w =
     (case rate_limit_auth h y ip_rate (hq_headers rq) of
        Inl er \<Rightarrow> Some (ErrorAnswer (into_response er), w)
      | Inr _ \<Rightarrow>
          (case fw_public fw (me_handler e) (me_limit e) rq of
             Inl st \<Rightarrow> Some (FrameworkAnswer st, w)
           | Inr req \<Rightarrow> map_option (\<lambda>(r, w'). (answer_of r, w')) (handle_public x y cfg h now dr req w)))"

definition protected_route ::
  "framework \<Rightarrow> ext \<Rightarrow> auth_ext \<Rightarrow> settings \<Rightarrow> http_ext \<Rightarrow> (uuid \<Rightarrow> bool) \<Rightarrow> timestamp \<Rightarrow> draws \<Rightarrow> method_route \<Rightarrow> http_request \<Rightarrow> vault \<Rightarrow>
    (answer \<times> vault) option" where
  "protected_route fw x y cfg h user_rate now dr e rq w =
     (case require_auth y user_rate now (map_of (hq_headers rq) ''authorization'') w of
        Inl er \<Rightarrow> Some (ErrorAnswer (into_response er), w)
      | Inr user \<Rightarrow>
          (case fw_protected fw (me_handler e) (me_limit e) rq of
             Inl st \<Rightarrow> Some (FrameworkAnswer st, w)
           | Inr req \<Rightarrow> map_option (\<lambda>(r, w'). (answer_of r, w')) (handle_protected x y cfg h now dr user req w)))"

text \<open>\<open>build_router\<close> with the layer that sets the security headers of every answer.\<close>

definition build_router ::
  "framework \<Rightarrow> ext \<Rightarrow> auth_ext \<Rightarrow> settings \<Rightarrow> http_ext \<Rightarrow> (string \<Rightarrow> bool) \<Rightarrow> (uuid \<Rightarrow> bool) \<Rightarrow> timestamp \<Rightarrow> draws \<Rightarrow> http_request \<Rightarrow> vault \<Rightarrow>
    (http_response \<times> vault) option" where
  "build_router fw x y cfg h ip_rate user_rate now dr rq w =
     map_option (\<lambda>(a, w'). (\<lparr>hr_answer = a, hr_headers = add_security_headers (fw_headers fw a)\<rparr>, w'))
       (case fw_match fw patterns (hq_path rq) of
          None \<Rightarrow> Some (FrameworkAnswer (fw_unrouted fw rq), w)
        | Some p \<Rightarrow>
            (case lookup_method public_routes p (hq_method rq) of
               Some e \<Rightarrow> public_route fw x y cfg h ip_rate now dr e rq w
             | None \<Rightarrow>
                 (case lookup_method protected_routes p (hq_method rq) of
                    Some e \<Rightarrow> protected_route fw x y cfg h user_rate now dr e rq w
                  | None \<Rightarrow> Some (FrameworkAnswer (fw_unrouted fw rq), w))))"

subsection \<open>Properties\<close>

lemma lookup_method_in:
  assumes "lookup_method rs p m = Some e"
  shows "\<exists>r\<in>set rs. rt_path r = p \<and> e \<in> set (rt_methods r)" and "me_method e = m"
  using find_Some_in [OF assms [unfolded lookup_method_def]] by auto

text \<open>The requests that need no token, as a list of methods and paths.\<close>

definition public_path :: "http_method \<Rightarrow> string list \<Rightarrow> bool" where
  "public_path m path \<longleftrightarrow>
     m = HttpPost \<and> path \<in> {[''api'', ''v1'', ''auth'', ''prelogin''], [''api'', ''v1'', ''auth'', ''signup'', ''init''],
       [''api'', ''v1'', ''auth'', ''signup'', ''complete''], [''api'', ''v1'', ''auth'', ''login''], [''api'', ''v1'', ''auth'', ''refresh'']} \<or>
     m = HttpGet \<and> (path = [''health''] \<or> (\<exists>sid. path = [''api'', ''v1'', ''shares'', sid]) \<or>
       (\<exists>sid fid. path = [''api'', ''v1'', ''shares'', sid, ''files'', fid]))"

lemma pattern_matches_Cons:
  "pattern_matches (g # p) path \<longleftrightarrow>
     (case path of [] \<Rightarrow> False | s # ss \<Rightarrow> (case g of Lit a \<Rightarrow> s = a | Param _ \<Rightarrow> s \<noteq> []) \<and> pattern_matches p ss)"
  "pattern_matches [] path \<longleftrightarrow> path = []"
  by (cases path; cases g; simp)+

lemma public_lookup:
  assumes "lookup_method public_routes p m = Some e" and "pattern_matches p path"
  shows "public_path m path"
  using lookup_method_in [OF assms(1)] assms(2)
  by (auto simp: public_routes_def nest_def auth_public_router_def files_public_router_def route_def on_def public_path_def
      pattern_matches_Cons split: list.splits)

text \<open>
  C6: Without a valid token a request to any path but those of the sign-up, the login and the shares
  changes nothing, and its answer is the error of the authentication, or the framework's for a
  path or a method that does not exist.
\<close>

theorem unauthenticated_requests:
  assumes fw: "framework_promise fw" and run: "build_router fw x y cfg h ip_rate user_rate now dr rq w = Some (resp, w')"
    and auth: "require_auth y user_rate now (map_of (hq_headers rq) ''authorization'') w = Inl er"
    and path: "\<not> public_path (hq_method rq) (hq_path rq)"
  shows "w' = w \<and> (hr_answer resp = ErrorAnswer (into_response er) \<or> hr_answer resp = FrameworkAnswer (fw_unrouted fw rq))"
proof (cases "fw_match fw patterns (hq_path rq)")
  case None
  then show ?thesis using run by (auto simp: build_router_def)
next
  case (Some p)
  then have "pattern_matches p (hq_path rq)" using fw unfolding framework_promise_def by (auto dest: matcher_promiseD(1))
  then have "lookup_method public_routes p (hq_method rq) = None" using public_lookup path by (metis not_Some_eq)
  then show ?thesis using run Some auth by (auto simp: build_router_def protected_route_def split: option.splits)
qed

definition read_handlers :: "string list" where
  "read_handlers = [''auth::get_me'', ''auth::get_keys'', ''devices::list_devices'', ''devices::list_sessions'',
     ''folders::list_folders'', ''folders::get_folder'', ''folders::get_folder_file_tree'', ''folders::get_folder_path'',
     ''files::precheck_upload'', ''files::list_files'', ''files::get_file'', ''files::list_versions'', ''files::get_download_manifest'',
     ''files::list_shares'', ''chunks::get_resume_info'', ''sync::sync_stream'']"

lemma get_table:
  "list_all (\<lambda>r. list_all (\<lambda>e. me_method e = HttpGet \<longrightarrow> me_handler e \<in> set read_handlers) (rt_methods r)) protected_routes"
  by (simp add: protected_routes_def nest_def table_defs route_def on_def read_handlers_def)

lemma get_handlers: "lookup_method protected_routes p HttpGet = Some e \<Longrightarrow> me_handler e \<in> set read_handlers"
  using get_table lookup_method_in by (fastforce simp: list_all_iff)

lemma sync_stream_reads: "same_tables w (sync_stream u w)" "pending_signups (sync_stream u w) = pending_signups w"
  by (simp_all add: sync_stream_def sse_channel_def same_tables_def Let_def)

lemma read_requests:
  assumes run: "handle_protected x y cfg h now dr user req w = Some p" and req: "protected_handler req \<in> set read_handlers"
  shows "same_tables w (snd p) \<and> pending_signups (snd p) = pending_signups w"
  using assms by (cases req) (auto simp: read_handlers_def handler_defs sync_stream_reads case_prod_beta)

lemma public_reads:
  assumes "lookup_method public_routes p HttpGet = Some e" and "public_handler req = me_handler e"
    and run: "handle_public x y cfg h now dr req w = Some q"
  shows "same_tables w (snd q) \<and> pending_signups (snd q) = pending_signups w"
proof -
  have "me_handler e \<in> {''files::get_share'', ''files::get_shared_file_manifest'', ''health_check''}"
    using lookup_method_in [OF assms(1)]
    by (auto simp: public_routes_def nest_def auth_public_router_def files_public_router_def route_def on_def)
  moreover have "same_tables w (snd (get_share x now sid a w)) \<and> pending_signups (snd (get_share x now sid a w)) = pending_signups w" for sid a
  proof -
    have "pending_signups (snd (get_share x now sid a w)) = pending_signups w"
      by (simp add: get_share_def attempt_def Let_def audit_log_ok_def audit_log_def split: option.splits sum.splits prod.splits)
    then show ?thesis using get_share_same [OF prod.collapse [symmetric]] by blast
  qed
  ultimately show ?thesis
    using run assms(2) by (cases req) (auto simp: get_share_handler_def get_shared_file_manifest_handler_def)
qed

text \<open>
  C22: A GET request only reads: whatever its path, its token and its answer, it leaves the users,
  devices, sessions, folders, files, versions, chunks, shares, the deletion queue and the pending
  sign-ups as they are.
\<close>

theorem get_requests_only_read:
  assumes fw: "framework_promise fw" and run: "build_router fw x y cfg h ip_rate user_rate now dr rq w = Some (resp, w')"
    and get: "hq_method rq = HttpGet"
  shows "same_tables w w' \<and> pending_signups w' = pending_signups w"
proof -
  note P = fw [unfolded framework_promise_def]
  have pub: "same_tables w w2 \<and> pending_signups w2 = pending_signups w"
    if "lookup_method public_routes p HttpGet = Some e" "public_route fw x y cfg h ip_rate now dr e rq w = Some (a, w2)" for p e a w2
    using that(2) public_reads [OF that(1)] P by (fastforce simp: public_route_def split: sum.splits)
  have prot: "same_tables w w2 \<and> pending_signups w2 = pending_signups w"
    if "lookup_method protected_routes p HttpGet = Some e" "protected_route fw x y cfg h user_rate now dr e rq w = Some (a, w2)" for p e a w2
    using that(2) read_requests get_handlers [OF that(1)] P by (fastforce simp: protected_route_def split: sum.splits)
  from run show ?thesis by (auto simp: build_router_def get split: option.splits dest: pub prot)
qed

text \<open>Every protected request has a route, and every protected route a request.\<close>

lemma protected_handlers: "set (map me_handler (concat (map rt_methods protected_routes))) = range protected_handler"
proof
  have "list_all (\<lambda>h. h \<in> range protected_handler) (map me_handler (concat (map rt_methods protected_routes)))"
    unfolding protected_routes_def nest_def table_defs route_def on_def
    by (simp, intro conjI) (rule range_eqI, rule protected_handler.simps [symmetric])+
  then show "set (map me_handler (concat (map rt_methods protected_routes))) \<subseteq> range protected_handler" by (auto simp: list_all_iff)
  have "protected_handler req \<in> set (map me_handler (concat (map rt_methods protected_routes)))" for req
    by (cases req) (simp_all add: protected_routes_def nest_def table_defs route_def on_def)
  then show "range protected_handler \<subseteq> set (map me_handler (concat (map rt_methods protected_routes)))" by blast
qed

text \<open>Each security header is set exactly once, whatever the framework put there before.\<close>

lemma map_of_insert_header: "map_of (insert_header k v hs) j = (if j = k then Some v else map_of hs j)"
proof -
  have "map_of (filter (\<lambda>e. fst e \<noteq> k) hs) j = (if j = k then None else map_of hs j)" by (induction hs) auto
  then show ?thesis by (auto simp: insert_header_def map_add_def split: option.splits)
qed

lemma security_headers:
  assumes "build_router fw x y cfg h ip_rate user_rate now dr rq w = Some (resp, w')"
  shows "map_of (hr_headers resp) ''x-frame-options'' = Some ''DENY''"
    and "map_of (hr_headers resp) ''x-content-type-options'' = Some ''nosniff''"
    and "map_of (hr_headers resp) ''cache-control'' = Some ''no-store''"
  using assms by (auto simp: build_router_def add_security_headers_def map_of_insert_header)

subsection \<open>The properties at a sample\<close>

text \<open>A framework that keeps the promises and serves the list of shares.\<close>

definition sample_framework :: framework where
  "sample_framework =
     \<lparr>fw_match = match_path,
      fw_protected = (\<lambda>hd l rq. if hd = ''files::list_shares'' then Inr ListShares else Inl 400),
      fw_public = (\<lambda>hd l rq. Inl 400), fw_unrouted = (\<lambda>rq. 404), fw_headers = (\<lambda>a. [])\<rparr>"

lemma sample_framework_promise: "framework_promise sample_framework"
  using match_path_promise by (auto simp: framework_promise_def sample_framework_def)

definition shares_request :: "header_map \<Rightarrow> http_request" where
  "shares_request hs = \<lparr>hq_method = HttpGet, hq_path = [''api'', ''v1'', ''shares''], hq_query = [], hq_headers = hs, hq_body = []\<rparr>"

lemma shares_route: "match_path patterns [''api'', ''v1'', ''shares''] = Some [Lit ''api'', Lit ''v1'', Lit ''shares'']"
    "lookup_method public_routes [Lit ''api'', Lit ''v1'', Lit ''shares''] HttpGet = None"
    "lookup_method protected_routes [Lit ''api'', Lit ''v1'', Lit ''shares''] HttpGet = Some (on HttpGet ''files::list_shares'')"
proof -
  have "[Lit ''api'', Lit ''v1'', Lit ''shares''] \<in> set patterns"
    by (simp add: patterns_def protected_routes_def nest_def files_router_def route_def)
  then show "match_path patterns [''api'', ''v1'', ''shares''] = Some [Lit ''api'', Lit ''v1'', Lit ''shares'']"
    by (rule matcher_promiseD(3) [OF match_path_promise]) simp_all
qed (simp_all add: lookup_method_def public_routes_def protected_routes_def nest_def table_defs route_def on_def)

theorem unauthenticated_requests_witness:
  "\<exists>resp w'. build_router sample_framework sample_ext sample_auth sample_settings sample_http (\<lambda>_. True) (\<lambda>_. True) 9 (sample_draws 0)
      (shares_request []) member_vault = Some (resp, w') \<and>
     w' = member_vault \<and> (hr_answer resp = ErrorAnswer (into_response Unauthorized) \<or> hr_answer resp = FrameworkAnswer 404)"
proof -
  have auth: "require_auth sample_auth (\<lambda>_. True) 9 (map_of (hq_headers (shares_request [])) ''authorization'') member_vault = Inl Unauthorized"
    by (simp add: shares_request_def require_auth_def bearer_token_def)
  then obtain resp w' where run: "build_router sample_framework sample_ext sample_auth sample_settings sample_http (\<lambda>_. True) (\<lambda>_. True) 9
      (sample_draws 0) (shares_request []) member_vault = Some (resp, w')"
    by (simp add: build_router_def sample_framework_def shares_request_def shares_route protected_route_def)
  have "\<not> public_path (hq_method (shares_request [])) (hq_path (shares_request []))" by (simp add: public_path_def shares_request_def)
  from unauthenticated_requests [OF sample_framework_promise run auth this] run show ?thesis
    by (simp add: sample_framework_def)
qed

theorem get_requests_only_read_witness:
  "\<exists>a w'. build_router sample_framework sample_ext sample_auth sample_settings sample_http (\<lambda>_. True) (\<lambda>_. True) 9 (sample_draws 0)
      (shares_request member_headers) member_vault = Some (a, w') \<and> same_tables member_vault w' \<and>
     hr_answer a = Answer \<lparr>rs_status = 200, rs_body = SharesBody (list_shares 1 member_vault)\<rparr>"
proof -
  let ?a = "Answer \<lparr>rs_status = 200, rs_body = SharesBody (list_shares 1 member_vault)\<rparr>"
  have run: "build_router sample_framework sample_ext sample_auth sample_settings sample_http (\<lambda>_. True) (\<lambda>_. True) 9
      (sample_draws 0) (shares_request member_headers) member_vault =
      Some (\<lparr>hr_answer = ?a, hr_headers = add_security_headers []\<rparr>, member_vault)"
    by (simp add: build_router_def sample_framework_def shares_request_def shares_route protected_route_def on_def member_auth
        list_shares_handler_def answer_of_def)
  have "hq_method (shares_request member_headers) = HttpGet" by (simp add: shares_request_def)
  from get_requests_only_read [OF sample_framework_promise run this] run show ?thesis by auto
qed

end
