(* ===== verification/Drive_Refinement.thy ===== *)
theory Drive_Refinement
  imports Folder_Properties
begin

text \<open>
  What the folder service promises a user, without rows, time stamps and recursive queries: a
  partial map from the live folders to their parents. The operations of the service on the tables
  refine the operations on this map.
\<close>

subsection \<open>The specification\<close>

type_synonym drive = "uuid \<rightharpoonup> uuid option"

definition drive_rel :: "drive \<Rightarrow> (uuid \<times> uuid) set" where
  "drive_rel t = {(p, c). t c = Some (Some p)}"

text \<open>A folder and everything in it, at any depth.\<close>

definition drive_below :: "drive \<Rightarrow> uuid \<Rightarrow> uuid set" where
  "drive_below t i = (drive_rel t)\<^sup>* `` {i}"

definition drive_place :: "drive \<Rightarrow> uuid option \<Rightarrow> bool" where
  "drive_place t p \<longleftrightarrow> (case p of None \<Rightarrow> True | Some q \<Rightarrow> q \<in> dom t)"

definition drive_create :: "drive \<Rightarrow> uuid \<Rightarrow> uuid option \<Rightarrow> drive option" where
  "drive_create t i p = (if i \<notin> dom t \<and> drive_place t p then Some (t(i \<mapsto> p)) else None)"

definition drive_move :: "drive \<Rightarrow> uuid \<Rightarrow> uuid option \<Rightarrow> drive option" where
  "drive_move t i p =
     (if i \<in> dom t \<and> drive_place t p \<and> (case p of None \<Rightarrow> True | Some q \<Rightarrow> q \<notin> drive_below t i) then Some (t(i \<mapsto> p)) else None)"

definition drive_remove :: "drive \<Rightarrow> uuid \<Rightarrow> drive option" where
  "drive_remove t i = (if i \<in> dom t then Some (t |` (- drive_below t i)) else None)"

subsection \<open>The abstraction\<close>

definition live_tree :: "uuid \<Rightarrow> vault \<Rightarrow> drive" where
  "live_tree u w = map_of (map (\<lambda>fo. (fo_id fo, fo_parent fo)) (filter (\<lambda>fo. fo_user fo = u \<and> fo_deleted_at fo = None) (t_folders w)))"

lemma map_eqI: "(\<And>i p. m i = Some p \<longleftrightarrow> m' i = Some p) \<Longrightarrow> m = (m' :: 'a \<rightharpoonup> 'b)"
  by (rule ext) (metis option.exhaust)

lemma live_tree_Some:
  assumes "ukey fo_id (t_folders w)"
  shows "live_tree u w i = Some p \<longleftrightarrow> (\<exists>fo\<in>set (t_folders w). live_folder i u fo \<and> fo_parent fo = p)"
proof -
  have "distinct (map fst (map (\<lambda>fo. (fo_id fo, fo_parent fo)) (filter P (t_folders w))))" for P
    using assms by (simp add: ukey_def comp_def distinct_map_filter)
  then show ?thesis unfolding live_tree_def by (subst map_of_eq_Some_iff) (auto simp: live_folder_def)
qed

lemma live_tree_dom:
  assumes "ukey fo_id (t_folders w)"
  shows "i \<in> dom (live_tree u w) \<longleftrightarrow> has_row (live_folder i u) (t_folders w)"
  using live_tree_Some [OF assms, of u i] by (auto simp: domIff)

lemma live_tree_cong: "t_folders w' = t_folders w \<Longrightarrow> live_tree u w' = live_tree u w"
  by (simp add: live_tree_def)

text \<open>The path from an ancestor to a live folder is a path of the map.\<close>

lemma drive_path:
  assumes sys: "system_inv now w" and "(a, b) \<in> (child_rel w)\<^sup>*" and "fo \<in> set (t_folders w)" and "live_folder b u fo"
  shows "(a, b) \<in> (drive_rel (live_tree u w))\<^sup>*"
  using assms(2-4)
proof (induction arbitrary: fo rule: rtrancl_induct)
  case (step y z)
  note I = system_invD [OF sys] and K = ukeyD [OF vault_invD(1) [OF system_invD(1) [OF sys]]]
  obtain c where c: "c \<in> set (t_folders w)" "fo_parent c = Some y" "z = fo_id c" using step.hyps(2) by (auto simp: child_rel_def)
  then have "c = fo" using step.prems K by (metis live_folder_def)
  then have live: "live_folder z u c" using step.prems by simp
  obtain p where p: "p \<in> set (t_folders w)" "fo_id p = y" using fkeyD [OF vault_invD(6) [OF I(1)] c(1,2)] by blast
  have "trash_le (fo_deleted_at p) (fo_deleted_at c)" using trash_okD(1) [OF I(5) p(1) c(1)] c(2) p(2) by simp
  then have "fo_deleted_at p = None" using live by (cases "fo_deleted_at p") (auto simp: live_folder_def)
  moreover have "fo_user p = fo_user c" using tenant_okD(1) [OF I(4) p(1) c(1)] c(2) p(2) by simp
  ultimately have "live_folder y u p" using live p(2) by (simp add: live_folder_def)
  then have "(a, y) \<in> (drive_rel (live_tree u w))\<^sup>*" using step.IH p(1) by blast
  moreover have "(y, z) \<in> drive_rel (live_tree u w)"
    using live_tree_Some [OF vault_invD(1) [OF I(1)], of u z "Some y"] c live by (auto simp: drive_rel_def)
  ultimately show ?case by (rule rtrancl_into_rtrancl)
qed simp

lemma drive_below_iff:
  assumes sys: "system_inv now w" and "has_row (live_folder b u) (t_folders w)"
  shows "b \<in> drive_below (live_tree u w) a \<longleftrightarrow> (a, b) \<in> (child_rel w)\<^sup>*"
proof -
  have "drive_rel (live_tree u w) \<subseteq> child_rel w"
    using live_tree_Some [OF vault_invD(1) [OF system_invD(1) [OF sys]], of u] by (auto simp: drive_rel_def child_rel_def live_folder_def)
  then have "(drive_rel (live_tree u w))\<^sup>* \<subseteq> (child_rel w)\<^sup>*" by (rule rtrancl_mono)
  then show ?thesis using drive_path [OF sys, of a b] assms(2) by (auto simp: drive_below_def)
qed

subsection \<open>Refinement\<close>

lemma create_folder_refines:
  assumes sys: "system_inv now w" and run: "create_folder x now i u req w = (Inr r, w')"
  shows "drive_create (live_tree u w) i (cfr_parent req) = Some (live_tree u w')"
proof -
  note K = vault_invD(1) [OF system_invD(1) [OF sys]]
  from run obtain meta nonce w1 ev where ins: "insert_folder (new_folder now i u (cfr_parent req) meta nonce) w = Inr w1"
    and par: "\<And>p. cfr_parent req = Some p \<Longrightarrow> has_row (live_folder p u) (t_folders w)" and w': "w' = broadcast_sync u ev w1"
    by (rule create_folder_ok) blast
  note N = insert_folder_Inr(1,2) [OF ins]
  have K': "ukey fo_id (t_folders w')" using create_folder.system [OF sys run] by (intro vault_invD(1) system_invD(1))
  have rows: "t_folders w' = t_folders w @ [new_folder now i u (cfr_parent req) meta nonce]" by (simp add: w' N(1))
  have "live_tree u w' = (live_tree u w)(i \<mapsto> cfr_parent req)"
    by (rule map_eqI) (auto simp: live_tree_Some [OF K] live_tree_Some [OF K'] rows live_folder_def dest: N(2))
  moreover have "i \<notin> dom (live_tree u w)" using N(2) by (auto simp: live_tree_dom [OF K] live_folder_def)
  moreover have "drive_place (live_tree u w) (cfr_parent req)"
    using par by (simp add: drive_place_def live_tree_dom [OF K] split: option.split)
  ultimately show ?thesis by (simp add: drive_create_def)
qed

text \<open>The check of a move answers as the specification does.\<close>

lemma check_move_target_refines:
  assumes sys: "system_inv now w" and fo: "has_row (live_folder i u) (t_folders w)"
  shows "check_move_target w u i p = Some (Inr ()) \<longleftrightarrow>
    drive_place (live_tree u w) p \<and> (case p of None \<Rightarrow> True | Some q \<Rightarrow> q \<notin> drive_below (live_tree u w) i)"
proof (cases p)
  case None
  then show ?thesis by (simp add: check_move_target_def drive_place_def)
next
  case (Some q)
  note K = vault_invD(1) [OF system_invD(1) [OF sys]]
  obtain a where a: "a \<in> set (t_folders w)" "live_folder i u a" using fo by auto
  show ?thesis
  proof (cases "has_row (live_folder q u) (t_folders w)")
    case True
    then obtain b where b: "b \<in> set (t_folders w)" "live_folder q u b" by auto
    have "i = q \<Longrightarrow> (i, q) \<in> (child_rel w)\<^sup>*" by simp
    then show ?thesis
      using is_descendant_exact [OF sys a(2,1) b(2,1)] True Some
      by (auto simp: check_move_target_def verify_folder_ownership_def check_that_def drive_place_def live_tree_dom [OF K]
          drive_below_iff [OF sys True] split: option.splits bool.splits)
  next
    case False
    then show ?thesis
      using Some by (auto simp: check_move_target_def verify_folder_ownership_def check_that_def drive_place_def live_tree_dom [OF K]
          split: option.splits bool.splits)
  qed
qed

lemma move_folder_refines:
  assumes sys: "system_inv now w" and run: "move_folder x now u i p w = Some (res, w')"
  shows "drive_move (live_tree u w) i p = (case res of Inl _ \<Rightarrow> None | Inr _ \<Rightarrow> Some (live_tree u w'))"
proof (cases res)
  case (Inr r)
  note K = vault_invD(1) [OF system_invD(1) [OF sys]]
  from run [unfolded Inr] obtain ev where fo: "has_row (live_folder i u) (t_folders w)" and chk: "check_move_target w u i p = Some (Inr ())"
    and w': "w' = broadcast_sync u ev (w\<lparr>t_folders := upd (live_folder i u) (\<lambda>fo. fo\<lparr>fo_parent := p, fo_updated_at := now\<rparr>) (t_folders w)\<rparr>)"
    by (rule move_folder_ok)
  have K': "ukey fo_id (t_folders w')" using move_folder.system [OF sys run] by (intro vault_invD(1) system_invD(1))
  have rows: "t_folders w' = upd (live_folder i u) (\<lambda>fo. fo\<lparr>fo_parent := p, fo_updated_at := now\<rparr>) (t_folders w)" by (simp add: w')
  have "live_tree u w' = (live_tree u w)(i \<mapsto> p)"
  proof (rule map_eqI)
    fix j q
    show "live_tree u w' j = Some q \<longleftrightarrow> ((live_tree u w)(i \<mapsto> p)) j = Some q"
      unfolding live_tree_Some [OF K'] rows bex_upd using live_tree_Some [OF K, of u j q] fo by (auto simp: live_folder_def)
  qed
  then show ?thesis
    using fo chk by (simp add: Inr drive_move_def live_tree_dom [OF K] check_move_target_refines [OF sys fo])
next
  case (Inl e)
  note K = vault_invD(1) [OF system_invD(1) [OF sys]]
  have "\<not> (has_row (live_folder i u) (t_folders w) \<and> check_move_target w u i p = Some (Inr ()))"
  proof
    assume ok: "has_row (live_folder i u) (t_folders w) \<and> check_move_target w u i p = Some (Inr ())"
    then obtain a where "a \<in> set (t_folders w)" "live_folder i u a" by auto
    then have "a\<lparr>fo_parent := p, fo_updated_at := now\<rparr> \<in> set (upd (live_folder i u) (\<lambda>fo. fo\<lparr>fo_parent := p, fo_updated_at := now\<rparr>) (t_folders w))"
      "live_folder i u (a\<lparr>fo_parent := p, fo_updated_at := now\<rparr>)"
      by (auto simp: in_upd_iff live_folder_def)
    then have "find (live_folder i u) (upd (live_folder i u) (\<lambda>fo. fo\<lparr>fo_parent := p, fo_updated_at := now\<rparr>) (t_folders w)) \<noteq> None"
      unfolding find_None_all by blast
    then show False
      using run ok by (auto simp: Inl move_folder_def verify_folder_ownership_def check_that_def split: option.splits)
  qed
  then have "\<not> (has_row (live_folder i u) (t_folders w) \<and> drive_place (live_tree u w) p \<and>
      (case p of None \<Rightarrow> True | Some q \<Rightarrow> q \<notin> drive_below (live_tree u w) i))"
    using check_move_target_refines [OF sys, of i u p] by blast
  then show ?thesis unfolding Inl drive_move_def live_tree_dom [OF K] by (simp only: if_False sum.case)
qed

lemma delete_folder_refines:
  assumes sys: "system_inv now w" and run: "delete_folder now u i w = (res, w')"
  shows "drive_remove (live_tree u w) i = (case res of Inl _ \<Rightarrow> None | Inr _ \<Rightarrow> Some (live_tree u w'))"
proof (cases "has_row (live_folder i u) (t_folders w)")
  case False
  then show ?thesis using run live_tree_dom [OF vault_invD(1) [OF system_invD(1) [OF sys]]] by (auto simp: delete_folder_def drive_remove_def)
next
  case True
  note I = system_invD [OF sys] and K = vault_invD(1) [OF system_invD(1) [OF sys]]
  obtain a where a: "a \<in> set (t_folders w)" "live_folder i u a" using True by auto
  have res: "res = Inr ()" using run True by (auto simp: delete_folder_def Let_def split: if_splits)
  have S: "set (subtree w [i] u) = (child_rel w)\<^sup>* `` {i}" using subtree_all [OF I(1,4) a(1)] a(2) by (simp add: live_folder_def)
  have rows: "t_folders w' = upd (\<lambda>fo. (i, fo_id fo) \<in> (child_rel w)\<^sup>* \<and> fo_deleted_at fo = None)
       (\<lambda>fo. fo\<lparr>fo_deleted_at := Some now, fo_updated_at := now\<rparr>) (t_folders w)"
    using run True trash_rows [of now "subtree w [i] u" w] by (auto simp: delete_folder_def Let_def S split: if_splits)
  have K': "ukey fo_id (t_folders w')" using delete_folder.system [OF sys run] by (intro vault_invD(1) system_invD(1))
  have "live_tree u w' = live_tree u w |` (- drive_below (live_tree u w) i)"
  proof (rule map_eqI)
    fix j p
    have "j \<in> drive_below (live_tree u w) i \<longleftrightarrow> (i, j) \<in> (child_rel w)\<^sup>*" if "live_tree u w j = Some p"
      using drive_below_iff [OF sys, of j u i] live_tree_dom [OF K, of j u] that by blast
    moreover have "live_tree u w' j = Some p \<longleftrightarrow> live_tree u w j = Some p \<and> (i, j) \<notin> (child_rel w)\<^sup>*"
      unfolding live_tree_Some [OF K] live_tree_Some [OF K'] rows bex_upd by (auto simp: live_folder_def)
    ultimately show "live_tree u w' j = Some p \<longleftrightarrow> (live_tree u w |` (- drive_below (live_tree u w) i)) j = Some p"
      by (auto simp: restrict_map_def)
  qed
  then show ?thesis using True by (simp add: res drive_remove_def live_tree_dom [OF K])
qed

text \<open>
  C4: The folder service refines the specification of a drive. Creating a folder adds it under its
  parent; moving one changes its parent, and is refused exactly when the specification has no such
  move (an unknown folder or target, or a target inside the folder); deleting one removes it with
  everything in it, and is refused exactly when it is unknown.
\<close>

theorem folder_service_refines_drive:
  assumes sys: "system_inv now w"
  shows "(\<forall>r w'. create_folder x now i u req w = (Inr r, w') \<longrightarrow> drive_create (live_tree u w) i (cfr_parent req) = Some (live_tree u w')) \<and>
    (\<exists>res w'. move_folder x now u i p w = Some (res, w') \<and>
       drive_move (live_tree u w) i p = (case res of Inl _ \<Rightarrow> None | Inr _ \<Rightarrow> Some (live_tree u w'))) \<and>
    (\<exists>res w'. delete_folder now u i w = (res, w') \<and>
       drive_remove (live_tree u w) i = (case res of Inl _ \<Rightarrow> None | Inr _ \<Rightarrow> Some (live_tree u w')))"
proof -
  have "\<exists>res w'. move_folder x now u i p w = Some (res, w')"
    using check_move_target_returns [OF system_invD(6) [OF sys], of u i p]
    by (auto simp: move_folder_def Let_def split: sum.splits option.splits)
  then show ?thesis
    using create_folder_refines [OF sys] move_folder_refines [OF sys] delete_folder_refines [OF sys] by (metis surj_pair)
qed

theorem folder_service_refines_drive_witness:
  "\<exists>res w'. delete_folder 9 1 11 sample_vault = (res, w') \<and> drive_remove (live_tree 1 sample_vault) 11 = Some (live_tree 1 w')"
proof -
  have sys: "system_inv 9 sample_vault" by (rule system_inv_later [OF sample_system]) simp
  have "has_row (live_folder 11 1) (t_folders sample_vault)" by (simp add: sample_rows live_folder_def)
  then have "fst (delete_folder 9 1 11 sample_vault) = Inr ()" by (auto simp: delete_folder_def Let_def)
  then show ?thesis
    using folder_service_refines_drive [OF sys, of undefined 11 1 undefined undefined] by auto
qed

end
