(* ===== verification/Spec2Isabelle.thy ===== *)
theory Spec2Isabelle
  imports Share_Properties Routes Drive_Refinement
begin

text \<open>
  Verification of the vault backend: a server for end-to-end encrypted files, written in Rust
  with axum, sqlx on PostgreSQL and an S3-compatible object store. Clients encrypt; the server
  keeps opaque metadata, a folder tree, files with versions and chunks, shares, accounts with
  devices and sessions, and hands out presigned URLs for the objects. The development translates
  its services, handlers, routes and background worker into HOL functions on one explicit state
  and proves what they promise.

  \<^bold>\<open>The parts of the program and their theories.\<close>

  \<^item> \<open>src/core/error.rs\<close>: \<open>Core_Error\<close>. The error type with its status, code and answer, the conversion of
    database errors, and the combinators that stand for \<open>?\<close> and for a transaction that is rolled back.
  \<^item> \<open>migrations/\<close>: \<open>Database\<close>. One record per table, the statements with their unique constraints and foreign
    key actions, and the state \<open>vault\<close>, which holds the tables, the in-memory state of \<open>src/app_state.rs\<close> and
    the requests sent to the object store. \<open>Integrity\<close> states what the schema promises and which statement
    keeps it. \<open>Recursive_Query\<close> models the two forms of \<open>WITH RECURSIVE\<close>.
  \<^item> \<open>src/app_state.rs\<close> and \<open>src/features/audit\<close>: \<open>App_State\<close>. Event channels, event numbers, the audit log.
  \<^item> \<open>src/storage\<close>: \<open>Storage\<close>. Object keys, presigned URLs, batched deletion.
  \<^item> \<open>src/features/folders\<close>: \<open>Tree\<close> (queries and invariants of the hierarchy) and \<open>Folders\<close> (every operation).
  \<^item> \<open>src/features/files/service.rs\<close>: \<open>Purge\<close> (hard deletion), \<open>Files_Upload\<close> (validation, quota, creation,
    completion, cancellation, bulk forms), \<open>Files_Manage\<close> (reads, manifests, updates, versions, trash) and
    \<open>Shares\<close>. \<open>src/features/files/cleanup.rs\<close> and the clean-up of a user: \<open>Cleanup\<close>.
  \<^item> \<open>src/features/chunks\<close>: \<open>Chunks\<close>. Resumption and verification of uploads.
  \<^item> \<open>src/config.rs\<close>: \<open>Config\<close>. \<open>src/core/crypto.rs\<close> and \<open>src/features/auth\<close>: \<open>Auth\<close>.
    \<open>src/features/devices\<close>: \<open>Devices\<close>. \<open>src/core/middleware.rs\<close>: \<open>Middleware\<close>.
  \<^item> \<open>src/features/*/handlers.rs\<close>, \<open>src/core/extractors.rs\<close> and \<open>src/features/sync\<close>: \<open>Handlers\<close>.
  \<^item> \<open>src/lib.rs\<close> and \<open>src/features/*/routes.rs\<close>: \<open>Api\<close> (one constructor per request and the layers before the
    handlers), \<open>Server\<close> (the runs of the server) and \<open>Routes\<close> (the route tables, the router and the headers).

  The handlers call the services as the authenticated user; the services share the tables; every
  permanent deletion of the file, folder and clean-up code goes through \<open>hard_delete_files\<close>, which queues the
  object keys that the worker later deletes; the folder and file services send events to the
  channels that the sync stream reads.

  \<^bold>\<open>How the code is modelled.\<close> A table is a list of records, a statement a function on the list; rows
  of equal rank keep their order. A fallible operation returns an error or a value with the new
  state; where the code runs in a transaction, the error branch returns the state from before it.
  Where the code writes in autocommit mode, the earlier writes stay. Time and drawn identifiers and
  salts are arguments. Integers are mathematical where the code cannot overflow; the sums of sizes
  are wrapped to 64 bits as in a release build (\<open>wrap_i64\<close>, related to the words of the library by
  \<open>wrap_i64_word\<close>). Strings are lists of bytes. Code outside the repository is a field of a record that the
  definitions take as an argument: \<open>ext\<close> (base64, the display of identifiers, the S3 SDK), \<open>auth_ext\<close>
  (bcrypt, hashes, the token library), \<open>unicode\<close>, \<open>http_ext\<close> (validators, address parsing), \<open>framework\<close> (path
  matching and parameter extraction); the rate limiters are predicates. What a property needs of
  that code is a named hypothesis (\<open>canonical_codec\<close>, \<open>presigns_downloads\<close>, \<open>jwt_promise\<close>, \<open>bcrypt_promise\<close>,
  \<open>framework_promise\<close>), and each is shown to hold of a concrete instance.

  \<^bold>\<open>Loops.\<close> Loops over rows and requests are structural recursions. \<open>UNION\<close> queries are total, with a
  termination proof. A \<open>UNION ALL\<close> query may run for ever: it is a partial function whose result is
  an option, \<open>None\<close> means that it does not return, and the lemmas say exactly when it returns (no
  reachable cycle); the operations that use it return options too, and that they return in every
  state with the invariant is a property. The endless loop of the worker is modelled up to any
  finite list of ticks. There is no fuel.

  \<^bold>\<open>The interfaces.\<close> \<open>Contract\<close> states what operations promise as a hierarchy of locales: \<open>operation\<close> (the
  invariant of the database), \<open>tenant_operation\<close> (well-formed hierarchy, other users' rows untouched),
  \<open>safe_operation\<close> (no object key lost), \<open>transaction\<close> and \<open>tenant_transaction\<close> (an error leaves the tables
  alone). \<open>Account_Contract\<close> has the one for the account operations, \<open>Isolation\<close> the one for effects beside the tables,
  \<open>Server\<close> the one for clocked state machines. Every operation of the services interprets the strongest contract it keeps;
  the proofs about the whole server use only these contracts. \<open>Accounts_Kept\<close> is the frame of the account tables.

  \<^bold>\<open>What is shown.\<close>

  \<^item> \<open>Server\<close>: every state that the server reaches from an empty database, by any requests, worker ticks and
    restarts, satisfies the constraints of the schema and the invariants between files, versions,
    devices and sessions. With requests whose bulk forms name the caller's own rows, it also has a
    well-formed folder forest without foreign or live items in wrong places; a step changes rows of a
    user only at that user's own request, or drops inactive old versions in a clean-up; and requests lose
    no object key, but for the two that are named as exceptions.
  \<^item> \<open>Routes\<close>: the route tables are unambiguous for every matcher that keeps the framework's promises; without
    a token nothing but the public paths has an effect; GET requests only read.
  \<^item> \<open>Drive_Refinement\<close>: the folder service refines a partial map from live folders to parents.
    \<open>Folder_Properties\<close>: trash round trip, exact condition and termination of moves, extent of deletions.
  \<^item> \<open>Upload_Properties\<close>, \<open>Completion_Properties\<close>, \<open>Chunks\<close> and \<open>Upload_Download\<close>: validation against a declarative condition, quota,
    registration, completion on every branch, resumption, cancellation, agreement of the three views
    of missing chunks, and the round trip from an upload to its download manifest.
  \<^item> \<open>Manage_Properties\<close> and \<open>Cleanup\<close>: what purges, the trash and the clean-ups remove and keep; the deletion queue is drained
    while the store works and gives up a key only after a confirmed deletion.
  \<^item> \<open>Session_Properties\<close>: sign-up then login, login opens a usable session, logout and device revocation end it,
    reuse of a refresh token revokes.
  \<^item> \<open>Share_Properties\<close>: when a share opens and what it serves, that revoking, expiry and purging close it, and the exact
    extent of a shared folder.
  \<^item> \<open>Boundary_Properties\<close>: the bulk forms that take foreign identifiers: what holds when the identifiers are the caller's own, and
    concrete requests that show the missing checks.

  \<open>Sample_Vault\<close> and \<open>Sample_Accounts\<close> are the concrete states and external code at which the properties are applied.

  \<^bold>\<open>Not modelled.\<close> Failures of the database connection and of reads from the object store other than
  those the code handles; interleavings inside one request (each request and tick is one step,
  and spawned best-effort deletions run in sequence with it); process start-up, signals, the
  connection pool, compression, logging and metrics, which only wire third-party code; the parsing
  of request bodies and of configuration files, of keys in PEM form, and the delivery of events by
  the broadcast channel, which are the framework's and the runtime's; the answer to a path that is
  not registered.
\<close>

end
